(* ===== verification/Prelude.thy ===== *)
theory Prelude
  imports Main "HOL-Library.Word" "HOL-Library.Multiset" "HOL-Library.Code_Target_Nat"
begin

text \<open>
  Shared vocabulary of the development: the machine integers of the Go code, the collections of
  rewrite rules the components extend, Go's \<open>sort.Search\<close> and \<open>sort.Slice\<close> (standard library
  routines the program relies on), and generic facts on lists.  Byte slices and Go strings are both
  Isabelle's \<open>string\<close>: a list of 8-bit characters.
\<close>

type_synonym u8 = "8 word"
type_synonym u32 = "32 word"
type_synonym u64 = "64 word"
type_synonym u128 = "128 word"
type_synonym bytes = string

text \<open>A conversion such as \<open>uint32(x)\<close>: the value modulo the width, written so that it evaluates.\<close>

definition to_word :: "nat \<Rightarrow> 'a::len word" where
  "to_word n = word_of_int (int n)"

lemma to_word_eq: "to_word n = word_of_nat n"
  by (simp add: to_word_def)

lemma unat_to_word: "unat (to_word n :: 'a::len word) = n mod 2 ^ LENGTH('a)"
  by (simp add: to_word_eq unat_of_nat)

lemma to_word_unat [simp]: "to_word (unat w) = w"
  by (simp add: to_word_eq)

lemma unat32_less: "unat (w :: u32) < 4294967296"
  using unsigned_less[of w] by simp

lemma unat64_less: "unat (w :: u64) < 18446744073709551616"
  using unsigned_less[of w] by simp

lemma unat8_less: "unat (w :: u8) < 256"
  using unsigned_less[of w] by simp

lemma unat32_div2 [simp]: "unat (w div 2 :: u32) = unat w div 2"
  by (simp add: unat_div)

lemma unat32_drop_bit_1 [simp]: "unat (drop_bit (Suc 0) w :: u32) = unat w div 2"
  by (simp add: unat_drop_bit_eq drop_bit_eq_div)

lemma unat32_pow [simp]: "m < 32 \<Longrightarrow> unat ((2::u32) ^ m) = 2 ^ m"
proof -
  assume "m < 32"
  then have "(2::nat) ^ m < 2 ^ 32" by (rule power_strict_increasing) simp
  then show ?thesis using unat_of_nat[where 'a = 32, of "2 ^ m"] by simp
qed

lemma unat32_eq_1: "unat (w :: u32) = Suc 0 \<longleftrightarrow> w = 1"
  by (simp add: word_unat_eq_iff)

named_theorems go_defs "definitions of the modelled operations, unfolded together"
named_theorems go_wf "well-formedness facts the component proofs share"

section \<open>Binary search: sort.Search\<close>

text \<open>
  \<open>sort.Search(n, f)\<close> keeps the half-open interval \<open>[i, j)\<close> and halves it; the loop is the
  standard library's, with \<open>h = (i + j) / 2\<close>.
\<close>

function search_loop :: "(nat \<Rightarrow> bool) \<Rightarrow> nat \<Rightarrow> nat \<Rightarrow> nat" where
  "search_loop f i j =
     (if i < j
      then (let h = (i + j) div 2 in
            if \<not> f h then search_loop f (Suc h) j else search_loop f i h)
      else i)"
  by pat_completeness auto
termination
  by (relation "measure (\<lambda>(f, i, j). j - i)") auto

declare search_loop.simps [simp del]

lemma search_loop_stop: "\<not> i < j \<Longrightarrow> search_loop f i j = i"
  by (subst search_loop.simps) simp

lemma search_loop_go:
  "i < j \<Longrightarrow> search_loop f i j =
     (if \<not> f ((i + j) div 2) then search_loop f (Suc ((i + j) div 2)) j
      else search_loop f i ((i + j) div 2))"
  by (subst search_loop.simps) (simp add: Let_def)

definition go_search :: "nat \<Rightarrow> (nat \<Rightarrow> bool) \<Rightarrow> nat" where
  "go_search n f = search_loop f 0 n"

lemma search_loop_bounds: "i \<le> j \<Longrightarrow> i \<le> search_loop f i j \<and> search_loop f i j \<le> j"
proof (induction f i j rule: search_loop.induct)
  case (1 f i j)
  show ?case
  proof (cases "i < j")
    case True
    let ?h = "(i + j) div 2"
    have h: "i \<le> ?h" "?h < j" using True by auto
    show ?thesis
      using "1.IH"(1)[OF True refl] "1.IH"(2)[OF True refl] True h
      by (cases "f ?h") (auto simp: search_loop_go)
  next
    case False
    then show ?thesis using "1.prems" by (simp add: search_loop_stop)
  qed
qed

text \<open>
  The invariant of the loop: everything below \<open>i\<close> fails \<open>f\<close>, everything from \<open>j\<close> up to \<open>n\<close>
  satisfies it.  For a monotone \<open>f\<close> the result is the least index that satisfies it.
\<close>

lemma search_loop_partition:
  assumes mono: "\<And>a b. a \<le> b \<Longrightarrow> b < n \<Longrightarrow> f a \<Longrightarrow> f b"
  shows "i \<le> j \<Longrightarrow> j \<le> n \<Longrightarrow> (\<forall>k < i. \<not> f k) \<Longrightarrow> (\<forall>k. j \<le> k \<longrightarrow> k < n \<longrightarrow> f k) \<Longrightarrow>
     (\<forall>k < search_loop f i j. \<not> f k) \<and> (\<forall>k. search_loop f i j \<le> k \<longrightarrow> k < n \<longrightarrow> f k)"
proof (induction "j - i" arbitrary: i j rule: less_induct)
  case less
  show ?case
  proof (cases "i < j")
    case True
    let ?h = "(i + j) div 2"
    have h: "i \<le> ?h" "?h < j" using True by auto
    show ?thesis
    proof (cases "f ?h")
      case False
      have below: "\<forall>k < Suc ?h. \<not> f k"
        using False mono h less.prems by (metis less_Suc_eq_le order.strict_trans2)
      have "(\<forall>k < search_loop f (Suc ?h) j. \<not> f k) \<and>
            (\<forall>k. search_loop f (Suc ?h) j \<le> k \<longrightarrow> k < n \<longrightarrow> f k)"
        by (rule less.hyps) (use below less.prems h in auto)
      with True False show ?thesis by (simp add: search_loop_go)
    next
      case fh: True
      have above: "\<forall>k. ?h \<le> k \<longrightarrow> k < n \<longrightarrow> f k" using fh mono by blast
      have "(\<forall>k < search_loop f i ?h. \<not> f k) \<and>
            (\<forall>k. search_loop f i ?h \<le> k \<longrightarrow> k < n \<longrightarrow> f k)"
        by (rule less.hyps) (use above less.prems h in auto)
      with True fh show ?thesis by (simp add: search_loop_go)
    qed
  next
    case False
    then show ?thesis using less.prems by (simp add: search_loop_stop)
  qed
qed

lemma go_search_le: "go_search n f \<le> n"
  using search_loop_bounds[of 0 n f] by (simp add: go_search_def)

lemma go_search_least:
  assumes "\<And>a b. a \<le> b \<Longrightarrow> b < n \<Longrightarrow> f a \<Longrightarrow> f b"
  shows "k < go_search n f \<Longrightarrow> \<not> f k"
    and "go_search n f \<le> k \<Longrightarrow> k < n \<Longrightarrow> f k"
  using search_loop_partition[where f = f and n = n and i = 0 and j = n, OF assms]
  by (auto simp: go_search_def)

text \<open>Without monotonicity the index found, when it is inside the range, still satisfies \<open>f\<close>.\<close>

lemma search_loop_sat:
  assumes "i \<le> j" and "j < n \<Longrightarrow> f j" and "search_loop f i j < n"
  shows "f (search_loop f i j)"
  using assms
proof (induction f i j rule: search_loop.induct)
  case (1 f i j)
  show ?case
  proof (cases "i < j")
    case True
    let ?h = "(i + j) div 2"
    have h: "i \<le> ?h" "?h < j" using True by auto
    show ?thesis
      using "1.IH"(1)[OF True refl] "1.IH"(2)[OF True refl] "1.prems" True h
      by (cases "f ?h") (auto simp: search_loop_go)
  next
    case False
    then show ?thesis using "1.prems" by (simp add: search_loop_stop)
  qed
qed

lemma go_search_sat: "go_search n f < n \<Longrightarrow> f (go_search n f)"
  using search_loop_sat[of 0 n n f] by (simp add: go_search_def)

section \<open>Sorting: sort.Slice and sort.SliceStable\<close>

text \<open>
  The code sorts by a key (\<open>less(i, j)\<close> compares one key of both elements), so the stable result
  is \<open>sort_key\<close>.  \<open>sort.Slice\<close> promises no order among elements with equal keys; where the keys
  are distinct every correct sort gives this list (\<open>slice_sort_unique\<close>), and the properties below
  use only that the result is a sorted permutation.
\<close>

definition slice_sort :: "('a \<Rightarrow> 'k::linorder) \<Rightarrow> 'a list \<Rightarrow> 'a list" where
  "slice_sort key xs = sort_key key xs"

lemma mset_slice_sort [simp]: "mset (slice_sort key xs) = mset xs"
  by (simp add: slice_sort_def)

lemma set_slice_sort [simp]: "set (slice_sort key xs) = set xs"
  by (simp add: slice_sort_def)

lemma length_slice_sort [simp]: "length (slice_sort key xs) = length xs"
  by (simp add: slice_sort_def)

lemma sorted_slice_sort [simp]: "sorted (map key (slice_sort key xs))"
  by (simp add: slice_sort_def)

lemma slice_sort_unique:
  assumes "mset ys = mset xs" and "sorted (map key ys)" and "distinct (map key xs)"
  shows "ys = slice_sort key xs"
proof -
  have "sort_key key xs = ys"
  proof (rule properties_for_sort_key)
    show "mset ys = mset xs" "sorted (map key ys)" by fact+
    fix k
    assume "k \<in> set ys"
    have inj: "inj_on key (set xs)" using assms(3) by (simp add: distinct_map)
    have s: "set ys = set xs" using assms(1) by (rule mset_eq_setD)
    have eq: "filter (\<lambda>y. key k = key y) zs = replicate (count (mset zs) k) k"
      if "set zs = set xs" for zs
    proof -
      have "filter (\<lambda>y. key k = key y) zs = filter (\<lambda>y. k = y) zs"
        using that inj \<open>k \<in> set ys\<close> s by (auto intro!: filter_cong dest: inj_onD)
      also have "\<dots> = replicate (count (mset zs) k) k" by (induction zs) auto
      finally show ?thesis .
    qed
    show "filter (\<lambda>y. key k = key y) ys = filter (\<lambda>x. key k = key x) xs"
      using eq[OF s] eq[OF refl] assms(1) by simp
  qed
  then show ?thesis by (simp add: slice_sort_def)
qed

section \<open>Lists\<close>

lemma find_SomeD: "find P xs = Some x \<Longrightarrow> x \<in> set xs \<and> P x"
  by (induction xs) (auto split: if_splits)

lemma find_Some_unique:
  assumes "x \<in> set xs" and "P x" and "\<And>y. y \<in> set xs \<Longrightarrow> P y \<Longrightarrow> y = x"
  shows "find P xs = Some x"
proof (cases "find P xs")
  case None
  then show ?thesis using assms(1,2) by (auto simp: find_None_iff)
next
  case (Some y)
  then show ?thesis using assms(3) find_SomeD[OF Some] by blast
qed

lemma find_cong_mset:
  assumes "mset xs = mset ys"
    and "\<And>x y. x \<in> set xs \<Longrightarrow> y \<in> set xs \<Longrightarrow> P x \<Longrightarrow> P y \<Longrightarrow> x = y"
  shows "find P xs = find P ys"
proof (cases "find P ys")
  case None
  then have "find P xs = None" using mset_eq_setD[OF assms(1)] by (auto simp: find_None_iff)
  with None show ?thesis by simp
next
  case (Some y)
  have y: "y \<in> set xs" "P y"
    using find_SomeD[OF Some] mset_eq_setD[OF assms(1)] by simp_all
  have "find P xs = Some y"
    by (rule find_Some_unique) (use y assms(2) in blast)+
  with Some show ?thesis by simp
qed

lemma find_filter_imp:
  "(\<And>x. P x \<Longrightarrow> Q x) \<Longrightarrow> find P (filter Q xs) = find P xs"
  by (induction xs) auto

lemma find_map: "find P (map f xs) = map_option f (find (P \<circ> f) xs)"
  by (induction xs) auto

lemma find_sorted_least:
  "sorted (map key xs) \<Longrightarrow> find P xs = Some x \<Longrightarrow> y \<in> set xs \<Longrightarrow> P y \<Longrightarrow> key x \<le> key y"
  by (induction xs) (auto split: if_splits)

lemma find_cong_set:
  "(\<And>x. x \<in> set xs \<Longrightarrow> P x = Q x) \<Longrightarrow> find P xs = find Q xs"
  by (induction xs) auto

end
