(* ===== verification/GoStrings.thy ===== *)
theory GoStrings
  imports Prelude "HOL-Library.Sublist"
begin

text \<open>
  The part of Go's \<open>strings\<close>, \<open>strconv\<close> and \<open>bufio\<close> packages the program uses, on byte strings.
  \<open>to_lower\<close> and \<open>to_upper\<close> map the ASCII letters and keep every other byte: the tables and
  patterns the results are compared with are ASCII.  \<open>trim_space\<close> knows Go's non-ASCII white space
  by its UTF-8 encodings.
\<close>

section \<open>Characters\<close>

definition is_digit :: "char \<Rightarrow> bool" where
  "is_digit c \<longleftrightarrow> 48 \<le> (of_char c :: nat) \<and> (of_char c :: nat) \<le> 57"

definition is_upper :: "char \<Rightarrow> bool" where
  "is_upper c \<longleftrightarrow> 65 \<le> (of_char c :: nat) \<and> (of_char c :: nat) \<le> 90"

definition is_lower :: "char \<Rightarrow> bool" where
  "is_lower c \<longleftrightarrow> 97 \<le> (of_char c :: nat) \<and> (of_char c :: nat) \<le> 122"

definition lower_char :: "char \<Rightarrow> char" where
  "lower_char c = (if is_upper c then char_of ((of_char c :: nat) + 32) else c)"

definition upper_char :: "char \<Rightarrow> char" where
  "upper_char c = (if is_lower c then char_of ((of_char c :: nat) - 32) else c)"

definition to_lower :: "string \<Rightarrow> string" where
  "to_lower s = map lower_char s"

definition to_upper :: "string \<Rightarrow> string" where
  "to_upper s = map upper_char s"

lemma of_char_less_256 [simp]: "(of_char c :: nat) < 256"
  by (rule char.induct) simp

lemma of_char_lower_char:
  "(of_char (lower_char c) :: nat) = (if is_upper c then of_char c + 32 else of_char c)"
  by (auto simp: lower_char_def is_upper_def)

lemma not_upper_lower_char [simp]: "\<not> is_upper (lower_char c)"
  using of_char_lower_char[of c] by (auto simp: is_upper_def split: if_splits)

lemma lower_char_idem [simp]: "lower_char (lower_char c) = lower_char c"
  by (simp add: lower_char_def[of "lower_char c"])

lemma to_lower_idem [simp]: "to_lower (to_lower s) = to_lower s"
  by (simp add: to_lower_def)

lemma length_to_lower [simp]: "length (to_lower s) = length s"
  by (simp add: to_lower_def)

lemma length_to_upper [simp]: "length (to_upper s) = length s"
  by (simp add: to_upper_def)

lemma to_lower_append [simp]: "to_lower (s @ t) = to_lower s @ to_lower t"
  by (simp add: to_lower_def)

lemma to_lower_Nil [simp]: "to_lower [] = []"
  by (simp add: to_lower_def)

lemma lower_char_dot_iff [simp]: "lower_char c = CHR ''.'' \<longleftrightarrow> c = CHR ''.''"
  by (auto simp: lower_char_def is_upper_def dest: arg_cong[where f = "of_char :: char \<Rightarrow> nat"])

section \<open>Splitting and joining\<close>

text \<open>\<open>strings.Split(s, d)\<close> for a one-byte separator: never an empty list.\<close>

fun go_split :: "char \<Rightarrow> string \<Rightarrow> string list" where
  "go_split d [] = [[]]"
| "go_split d (c # cs) =
     (if c = d then [] # go_split d cs
      else (c # hd (go_split d cs)) # tl (go_split d cs))"

lemma go_split_code [code]:
  "go_split d [] = [[]]"
  "go_split d (c # cs) =
     (let ws = go_split d cs in if c = d then [] # ws else (c # hd ws) # tl ws)"
  by (simp_all add: Let_def)

fun go_join :: "string \<Rightarrow> string list \<Rightarrow> string" where
  "go_join sep [] = []"
| "go_join sep [w] = w"
| "go_join sep (w # v # ws) = w @ sep @ go_join sep (v # ws)"

lemma go_split_not_Nil [simp]: "go_split d s \<noteq> []"
  by (cases s) auto

lemma go_join_go_split: "go_join [d] (go_split d s) = s"
proof (induction s)
  case (Cons c s)
  obtain w ws where ws: "go_split d s = w # ws" by (meson neq_Nil_conv go_split_not_Nil)
  with Cons show ?case by (cases ws) auto
qed simp

lemma go_split_no_sep: "w \<in> set (go_split d s) \<Longrightarrow> d \<notin> set w"
proof (induction s arbitrary: w)
  case (Cons c s)
  obtain u us where us: "go_split d s = u # us" by (meson neq_Nil_conv go_split_not_Nil)
  with Cons show ?case by (auto split: if_splits)
qed simp

lemma go_split_append: "d \<notin> set w \<Longrightarrow> go_split d (w @ d # s) = w # go_split d s"
  by (induction w) auto

lemma go_split_single: "d \<notin> set w \<Longrightarrow> go_split d w = [w]"
  by (induction w) auto

lemma go_split_go_join:
  "ws \<noteq> [] \<Longrightarrow> (\<And>w. w \<in> set ws \<Longrightarrow> d \<notin> set w) \<Longrightarrow> go_split d (go_join [d] ws) = ws"
  by (induction "[d]" ws rule: go_join.induct) (auto simp: go_split_append go_split_single)

section \<open>Prefixes, suffixes, occurrences\<close>

definition trim_suffix :: "string \<Rightarrow> string \<Rightarrow> string" where
  "trim_suffix s suf = (if suffix suf s then take (length s - length suf) s else s)"

definition trim_prefix :: "string \<Rightarrow> string \<Rightarrow> string" where
  "trim_prefix s p = (if prefix p s then drop (length p) s else s)"

fun contains :: "string \<Rightarrow> string \<Rightarrow> bool" where
  "contains [] sub = (sub = [])"
| "contains (c # cs) sub = (prefix sub (c # cs) \<or> contains cs sub)"

lemma contains_iff: "contains s sub \<longleftrightarrow> (\<exists>u v. s = u @ sub @ v)"
proof (induction s)
  case (Cons c s)
  have "(\<exists>u v. c # s = u @ sub @ v) \<longleftrightarrow> prefix sub (c # s) \<or> (\<exists>u v. s = u @ sub @ v)"
    by (auto simp: prefix_def Cons_eq_append_conv)
  with Cons show ?case by simp
qed simp

text \<open>\<open>strings.LastIndex(s, d)\<close> followed by \<open>s[idx+1:]\<close>, or \<open>s\<close> itself when \<open>d\<close> is absent.\<close>

definition after_last :: "char \<Rightarrow> string \<Rightarrow> string" where
  "after_last d s = rev (takeWhile (\<lambda>c. c \<noteq> d) (rev s))"

lemma after_last_no_sep: "d \<notin> set (after_last d s)"
  by (auto simp: after_last_def dest: set_takeWhileD)

lemma takeWhile_absent: "d \<notin> set w \<Longrightarrow> takeWhile (\<lambda>c. c \<noteq> d) w = w"
  by (induction w) auto

lemma after_last_append [simp]: "d \<notin> set w \<Longrightarrow> after_last d (s @ d # w) = w"
  by (simp add: after_last_def takeWhile_tail takeWhile_absent)

lemma after_last_absent [simp]: "d \<notin> set s \<Longrightarrow> after_last d s = s"
  by (simp add: after_last_def takeWhile_absent)

section \<open>Trimming white space\<close>

text \<open>The UTF-8 encodings of the runes \<open>unicode.IsSpace\<close> accepts.\<close>

definition go_spaces :: "string list" where
  "go_spaces =
     [[CHR '' ''], [CHR 0x09], [CHR 0x0A], [CHR 0x0B], [CHR 0x0C], [CHR 0x0D],
      [CHR 0xC2, CHR 0x85], [CHR 0xC2, CHR 0xA0], [CHR 0xE1, CHR 0x9A, CHR 0x80]] @
     map (\<lambda>b. [CHR 0xE2, CHR 0x80, b])
       [CHR 0x80, CHR 0x81, CHR 0x82, CHR 0x83, CHR 0x84, CHR 0x85, CHR 0x86, CHR 0x87,
        CHR 0x88, CHR 0x89, CHR 0x8A, CHR 0xA8, CHR 0xA9, CHR 0xAF] @
     [[CHR 0xE2, CHR 0x81, CHR 0x9F], [CHR 0xE3, CHR 0x80, CHR 0x80]]"

lemma go_spaces_nonempty: "w \<in> set go_spaces \<Longrightarrow> w \<noteq> []"
  by (auto simp: go_spaces_def)

function trim_left :: "string \<Rightarrow> string" where
  "trim_left s = (case find (\<lambda>w. prefix w s) go_spaces of
      None \<Rightarrow> s
    | Some w \<Rightarrow> trim_left (drop (length w) s))"
  by pat_completeness auto
termination
proof (relation "measure length", goal_cases)
  case (2 s w)
  then have "w \<in> set go_spaces" "prefix w s" by (auto dest: find_SomeD)
  then show ?case using go_spaces_nonempty by (cases s) (auto simp: prefix_def)
qed simp

declare trim_left.simps [simp del]

function trim_right :: "string \<Rightarrow> string" where
  "trim_right s = (case find (\<lambda>w. suffix w s) go_spaces of
      None \<Rightarrow> s
    | Some w \<Rightarrow> trim_right (take (length s - length w) s))"
  by pat_completeness auto
termination
proof (relation "measure length", goal_cases)
  case (2 s w)
  then have "w \<in> set go_spaces" "suffix w s" by (auto dest: find_SomeD)
  then show ?case using go_spaces_nonempty by (cases s) (auto simp: suffix_def)
qed simp

declare trim_right.simps [simp del]

definition trim_space :: "string \<Rightarrow> string" where
  "trim_space s = trim_right (trim_left s)"

text \<open>\<open>strings.Fields\<close>: the runs of bytes between white space.\<close>

definition starts_space :: "string \<Rightarrow> bool" where
  "starts_space s \<longleftrightarrow> find (\<lambda>w. prefix w s) go_spaces \<noteq> None"

fun split_word :: "string \<Rightarrow> string \<times> string" where
  "split_word [] = ([], [])"
| "split_word (c # s) =
     (if starts_space (c # s) then ([], c # s)
      else (let (w, r) = split_word s in (c # w, r)))"

lemma split_word_length: "length (snd (split_word s)) \<le> length s"
  by (induction s) (auto split: prod.split)

lemma trim_left_stop: "\<not> starts_space s \<Longrightarrow> trim_left s = s"
  by (subst trim_left.simps) (simp add: starts_space_def)

lemma trim_left_not_space: "\<not> starts_space (trim_left s)"
proof (induction s rule: trim_left.induct)
  case (1 s)
  show ?case
  proof (cases "find (\<lambda>w. prefix w s) go_spaces")
    case None
    then show ?thesis by (simp add: trim_left_stop starts_space_def)
  next
    case (Some w)
    then show ?thesis using 1 by (subst trim_left.simps) simp
  qed
qed

lemma trim_left_length: "length (trim_left s) \<le> length s"
proof (induction s rule: trim_left.induct)
  case (1 s)
  show ?case
  proof (cases "find (\<lambda>w. prefix w s) go_spaces")
    case None
    then show ?thesis by (simp add: trim_left_stop starts_space_def)
  next
    case (Some w)
    then show ?thesis using 1[OF Some] by (subst trim_left.simps) simp
  qed
qed

function go_fields :: "string \<Rightarrow> string list" where
  "go_fields s =
     (let t = trim_left s in
      if t = [] then []
      else (let (w, r) = split_word t in w # go_fields r))"
  by pat_completeness auto
termination
proof (relation "measure length", goal_cases)
  case (2 s t p w r)
  then obtain c t' where t: "trim_left s = c # t'" by (cases "trim_left s") auto
  have "\<not> starts_space (c # t')" using trim_left_not_space[of s] t by simp
  then have "split_word (trim_left s) = (c # fst (split_word t'), snd (split_word t'))"
    using t by (simp add: case_prod_unfold Let_def)
  then have "r = snd (split_word t')" using 2 by simp
  then have "length r < length (trim_left s)" using t split_word_length[of t'] by simp
  also have "\<dots> \<le> length s" by (rule trim_left_length)
  finally show ?case by simp
qed simp

declare go_fields.simps [simp del]

text \<open>Text that begins and ends with a visible ASCII character is not trimmed.\<close>

definition visible :: "char \<Rightarrow> bool" where
  "visible c \<longleftrightarrow> 33 \<le> (of_char c :: nat) \<and> (of_char c :: nat) \<le> 126"

lemma go_spaces_not_visible: "w \<in> set go_spaces \<Longrightarrow> \<not> visible (hd w) \<and> \<not> visible (last w)"
  by (auto simp: go_spaces_def visible_def)

lemma Nil_not_space [simp]: "[] \<notin> set go_spaces"
  using go_spaces_nonempty by blast

lemma visible_not_space:
  assumes "visible c"
  shows "\<not> starts_space (c # s)"
proof
  assume "starts_space (c # s)"
  then obtain w where w: "w \<in> set go_spaces" "prefix w (c # s)"
    by (auto simp: starts_space_def dest: find_SomeD)
  then have "hd w = c" using go_spaces_nonempty[OF w(1)] by (auto simp: prefix_Cons)
  then show False using go_spaces_not_visible[OF w(1)] assms by simp
qed

lemma trim_left_visible [simp]: "visible c \<Longrightarrow> trim_left (c # s) = c # s"
  by (simp add: trim_left_stop visible_not_space)

lemma trim_right_visible:
  assumes "s \<noteq> []" and "visible (last s)"
  shows "trim_right s = s"
proof -
  have "find (\<lambda>w. suffix w s) go_spaces = None"
  proof (rule ccontr)
    assume "find (\<lambda>w. suffix w s) go_spaces \<noteq> None"
    then obtain w where w: "w \<in> set go_spaces" "suffix w s" by (auto dest: find_SomeD)
    then have "last w = last s" using go_spaces_nonempty[OF w(1)] by (auto simp: suffix_def)
    then show False using go_spaces_not_visible[OF w(1)] assms by simp
  qed
  then show ?thesis by (subst trim_right.simps) simp
qed

lemma trim_space_visible:
  "s \<noteq> [] \<Longrightarrow> visible (hd s) \<Longrightarrow> visible (last s) \<Longrightarrow> trim_space s = s"
  by (cases s) (simp_all add: trim_space_def trim_right_visible)

lemma trim_left_blank [simp]: "trim_left (CHR '' '' # s) = trim_left s"
  by (subst trim_left.simps) (simp add: go_spaces_def)

lemma trim_left_Nil [simp]: "trim_left [] = []"
  by (rule trim_left_stop) (auto simp: starts_space_def find_None_iff)

lemma trim_right_blank: "trim_right (s @ '' '') = trim_right s"
  by (subst trim_right.simps) (simp add: go_spaces_def)

lemma trim_right_Nil [simp]: "trim_right [] = []"
  by (subst trim_right.simps) (auto simp: find_None_iff go_spaces_nonempty split: option.split
      dest!: find_SomeD)

section \<open>Numbers\<close>

datatype num_error = ErrSyntax | ErrRange

definition digit_val :: "char \<Rightarrow> nat" where
  "digit_val c = of_char c - 48"

definition digits_val :: "string \<Rightarrow> nat" where
  "digits_val s = foldl (\<lambda>n c. n * 10 + digit_val c) 0 s"

text \<open>
  \<open>strconv.ParseUint(s, 10, bits)\<close>: the value and the error.  The scan stops at the first byte
  that is not a digit or that makes the value too large, whichever comes first.
\<close>

fun parse_uint_loop :: "nat \<Rightarrow> nat \<Rightarrow> string \<Rightarrow> nat \<times> num_error option" where
  "parse_uint_loop lim n [] = (n, None)"
| "parse_uint_loop lim n (c # cs) =
     (if \<not> is_digit c then (0, Some ErrSyntax)
      else (let n1 = n * 10 + digit_val c in
            if lim \<le> n1 then (lim - 1, Some ErrRange) else parse_uint_loop lim n1 cs))"

definition parse_uint :: "nat \<Rightarrow> string \<Rightarrow> nat \<times> num_error option" where
  "parse_uint bits s =
     (if s = [] then (0, Some ErrSyntax) else parse_uint_loop (2 ^ bits) 0 s)"

lemma foldl_digits_ge: "n \<le> foldl (\<lambda>n c. n * 10 + digit_val c) n s"
proof (induction s arbitrary: n)
  case (Cons c s)
  have "n \<le> n * 10 + digit_val c" by simp
  also have "\<dots> \<le> foldl (\<lambda>n c. n * 10 + digit_val c) (n * 10 + digit_val c) s"
    by (rule Cons.IH)
  finally show ?case by simp
qed simp

lemma parse_uint_loop_ok:
  assumes "n < lim"
  shows "parse_uint_loop lim n s = (v, None) \<longleftrightarrow>
     (\<forall>c \<in> set s. is_digit c) \<and> v = foldl (\<lambda>n c. n * 10 + digit_val c) n s \<and> v < lim"
  using assms
proof (induction s arbitrary: n)
  case (Cons c s)
  let ?n1 = "n * 10 + digit_val c"
  show ?case
  proof (cases "lim \<le> ?n1")
    case True
    then show ?thesis using foldl_digits_ge[of ?n1 s] by (auto simp: Let_def)
  next
    case False
    then show ?thesis using Cons.IH[of ?n1] by (auto simp: Let_def)
  qed
qed auto

lemma parse_uint_ok:
  "parse_uint bits s = (v, None) \<longleftrightarrow>
     s \<noteq> [] \<and> (\<forall>c \<in> set s. is_digit c) \<and> v = digits_val s \<and> v < 2 ^ bits"
  by (auto simp: parse_uint_def parse_uint_loop_ok digits_val_def)

lemma parse_uint_less: "fst (parse_uint bits s) < 2 ^ bits"
proof -
  have "n < 2 ^ bits \<Longrightarrow> fst (parse_uint_loop (2 ^ bits) n t) < 2 ^ bits" for n t
    by (induction t arbitrary: n) (auto simp: Let_def)
  then show ?thesis by (simp add: parse_uint_def)
qed

text \<open>Decimal output: \<open>strconv.FormatUint(n, 10)\<close> and \<open>%d\<close> of a value that is not negative.\<close>

fun dec_digits :: "nat \<Rightarrow> string" where
  "dec_digits n =
     (if n < 10 then [char_of (48 + n)] else dec_digits (n div 10) @ [char_of (48 + n mod 10)])"

declare dec_digits.simps [simp del]

lemma dec_digits_small: "n < 10 \<Longrightarrow> dec_digits n = [char_of (48 + n)]"
  by (subst dec_digits.simps) simp

lemma dec_digits_step: "10 \<le> n \<Longrightarrow> dec_digits n = dec_digits (n div 10) @ [char_of (48 + n mod 10)]"
  by (subst dec_digits.simps) simp

lemma of_char_digit: "d < 10 \<Longrightarrow> (of_char (char_of (48 + d) :: char) :: nat) = 48 + d"
  by simp

lemma digits_val_snoc: "digits_val (s @ [c]) = digits_val s * 10 + digit_val c"
  by (simp add: digits_val_def)

lemma digits_val_dec [simp]: "digits_val (dec_digits n) = n"
proof (induction n rule: less_induct)
  case (less n)
  show ?case
  proof (cases "n < 10")
    case True
    then show ?thesis by (simp add: dec_digits_small digits_val_def digit_val_def of_char_digit)
  next
    case False
    then have "digits_val (dec_digits (n div 10)) = n div 10" by (intro less) simp
    then show ?thesis
      using False by (simp add: dec_digits_step digits_val_snoc digit_val_def of_char_digit)
  qed
qed

lemma is_digit_dec: "c \<in> set (dec_digits n) \<Longrightarrow> is_digit c"
proof (induction n rule: less_induct)
  case (less n)
  show ?case
  proof (cases "n < 10")
    case True
    then show ?thesis using less.prems by (simp add: dec_digits_small is_digit_def of_char_digit)
  next
    case False
    then have "c \<in> set (dec_digits (n div 10)) \<or> c = char_of (48 + n mod 10)"
      using less.prems by (auto simp: dec_digits_step)
    then show ?thesis
    proof
      assume "c \<in> set (dec_digits (n div 10))"
      then show ?thesis using less.IH[of "n div 10"] False by simp
    next
      assume c: "c = char_of (48 + n mod 10)"
      show ?thesis unfolding c is_digit_def by (simp add: of_char_digit)
    qed
  qed
qed

lemma dec_digits_not_Nil [simp]: "dec_digits n \<noteq> []"
  by (subst dec_digits.simps) simp

lemma parse_uint_dec [simp]: "n < 2 ^ bits \<Longrightarrow> parse_uint bits (dec_digits n) = (n, None)"
  by (simp add: parse_uint_ok is_digit_dec)

lemma is_digit_visible: "is_digit c \<Longrightarrow> visible c"
  by (simp add: is_digit_def visible_def)

lemma trim_space_digits: "s \<noteq> [] \<Longrightarrow> list_all is_digit s \<Longrightarrow> trim_space s = s"
  by (rule trim_space_visible) (auto simp: list_all_iff is_digit_visible)

lemma list_all_digit_dec [simp]: "list_all is_digit (dec_digits n)"
  by (simp add: list_all_iff is_digit_dec)

lemma to_upper_digits: "list_all is_digit s \<Longrightarrow> to_upper s = s"
  by (induction s) (auto simp: to_upper_def upper_char_def is_lower_def is_digit_def)

lemma dec_digits_no_sep: "\<not> is_digit d \<Longrightarrow> d \<notin> set (dec_digits n)"
  using is_digit_dec by blast

end
