(* ===== verification/NetIP.thy ===== *)
theory NetIP
  imports GoStrings
begin

unbundle bit_operations_syntax

text \<open>
  Go's \<open>net/netip\<close> addresses and prefixes, as far as the program uses them.  An address is the
  zero \<open>Addr\<close>, an IPv4 address or an IPv6 address with its zone; \<open>parse_addr\<close> is
  \<open>netip.ParseAddr\<close> (\<open>None\<close> is its error), \<open>unmap\<close> is \<open>Addr.Unmap\<close>, \<open>prefix_contains\<close> is
  \<open>Prefix.Contains\<close>, which never holds for an address with a zone.
\<close>

section \<open>Addresses\<close>

datatype addr = AddrZero | Addr4 u32 | Addr6 u128 string

definition is_valid :: "addr \<Rightarrow> bool" where
  "is_valid a \<longleftrightarrow> a \<noteq> AddrZero"

fun is4 :: "addr \<Rightarrow> bool" where
  "is4 (Addr4 w) = True"
| "is4 a = False"

fun is6 :: "addr \<Rightarrow> bool" where
  "is6 (Addr6 w z) = True"
| "is6 a = False"

fun zone :: "addr \<Rightarrow> string" where
  "zone (Addr6 w z) = z"
| "zone a = []"

text \<open>\<open>::ffff:0:0/96\<close>: the upper 96 bits are \<open>0xffff\<close>.\<close>

fun is4in6 :: "addr \<Rightarrow> bool" where
  "is4in6 (Addr6 w z) = (drop_bit 32 w = 0xFFFF)"
| "is4in6 a = False"

fun unmap :: "addr \<Rightarrow> addr" where
  "unmap (Addr6 w z) = (if drop_bit 32 w = 0xFFFF then Addr4 (ucast w) else Addr6 w z)"
| "unmap a = a"

definition addr_hi :: "u128 \<Rightarrow> u64" where
  "addr_hi w = ucast (drop_bit 64 w)"

definition addr_lo :: "u128 \<Rightarrow> u64" where
  "addr_lo w = ucast w"

lemma unmap_idem [simp]: "unmap (unmap a) = unmap a"
  by (cases a) auto

lemma not_is4in6_unmap [simp]: "\<not> is4in6 (unmap a)"
  by (cases a) auto

lemma is_valid_unmap [simp]: "is_valid (unmap a) = is_valid a"
  by (cases a) (auto simp: is_valid_def)

lemma unmap_cases:
  obtains (zero) "unmap a = AddrZero"
  | (v4) w where "unmap a = Addr4 w"
  | (v6) w z where "unmap a = Addr6 w z" "drop_bit 32 w \<noteq> 0xFFFF"
  by (cases "unmap a"; cases a) (auto split: if_splits)

section \<open>Parsing\<close>

text \<open>
  One decimal field: at least one digit, no leading zero, at most 255.  An address is four fields
  separated by dots.
\<close>

definition parse_octet :: "string \<Rightarrow> nat option" where
  "parse_octet f =
     (if f = [] \<or> \<not> list_all is_digit f \<or> (1 < length f \<and> hd f = CHR ''0'') \<or> 255 < digits_val f
      then None else Some (digits_val f))"

definition parse_ipv4_fields :: "string \<Rightarrow> nat list option" where
  "parse_ipv4_fields s =
     (case map parse_octet (go_split CHR ''.'' s) of
        [Some a, Some b, Some c, Some d] \<Rightarrow> Some [a, b, c, d]
      | _ \<Rightarrow> None)"

definition be_val :: "nat list \<Rightarrow> nat" where
  "be_val bs = foldl (\<lambda>n b. n * 256 + b) 0 bs"

definition parse_ipv4 :: "string \<Rightarrow> addr option" where
  "parse_ipv4 s = map_option (\<lambda>bs. Addr4 (to_word (be_val bs))) (parse_ipv4_fields s)"

definition is_hex :: "char \<Rightarrow> bool" where
  "is_hex c \<longleftrightarrow> is_digit c \<or> (97 \<le> (of_char c :: nat) \<and> (of_char c :: nat) \<le> 102)
     \<or> (65 \<le> (of_char c :: nat) \<and> (of_char c :: nat) \<le> 70)"

definition hex_digit_val :: "char \<Rightarrow> nat" where
  "hex_digit_val c =
     (if is_digit c then of_char c - 48
      else if 97 \<le> (of_char c :: nat) then of_char c - 87 else of_char c - 55)"

definition hex_val :: "string \<Rightarrow> nat" where
  "hex_val s = foldl (\<lambda>n c. n * 16 + hex_digit_val c) 0 s"

text \<open>
  The loop of \<open>parseIPv6\<close> over groups of at most four hex digits: the bytes so far, the position
  of the ellipsis, the rest of the input.  \<open>None\<close> is a parse error.
\<close>

function parse6_loop ::
  "nat list \<Rightarrow> nat option \<Rightarrow> string \<Rightarrow> (nat list \<times> nat option \<times> string) option" where
  "parse6_loop bs ell s =
     (if 16 \<le> length bs then Some (bs, ell, s)
      else
        let ds = takeWhile is_hex s; rest = dropWhile is_hex s in
        if ds = [] \<or> 4 < length ds then None
        else if rest \<noteq> [] \<and> hd rest = CHR ''.'' then
          (if (ell = None \<and> length bs \<noteq> 12) \<or> 16 < length bs + 4 then None
           else map_option (\<lambda>v4. (bs @ v4, ell, [])) (parse_ipv4_fields s))
        else
          let bs' = bs @ [hex_val ds div 256, hex_val ds mod 256] in
          case rest of
            [] \<Rightarrow> Some (bs', ell, [])
          | c # t \<Rightarrow>
              if c \<noteq> CHR '':'' \<or> t = [] then None
              else if hd t = CHR '':'' then
                (if ell \<noteq> None then None
                 else if tl t = [] then Some (bs', Some (length bs'), [])
                 else parse6_loop bs' (Some (length bs')) (tl t))
              else parse6_loop bs' ell t)"
  by pat_completeness auto
termination
  by (relation "measure (\<lambda>(bs, ell, s). 16 - length bs)") auto

declare parse6_loop.simps [simp del]

definition parse6_expand :: "nat list \<Rightarrow> nat option \<Rightarrow> nat list option" where
  "parse6_expand bs ell =
     (if length bs < 16 then
        (case ell of
           None \<Rightarrow> None
         | Some e \<Rightarrow> Some (take e bs @ replicate (16 - length bs) 0 @ drop e bs))
      else if ell \<noteq> None then None else Some bs)"

definition parse_ipv6 :: "string \<Rightarrow> addr option" where
  "parse_ipv6 str =
     (let s0 = takeWhile (\<lambda>c. c \<noteq> CHR ''%'') str;
          pct = dropWhile (\<lambda>c. c \<noteq> CHR ''%'') str;
          z = (case pct of [] \<Rightarrow> [] | _ # t \<Rightarrow> t) in
      if pct \<noteq> [] \<and> z = [] then None
      else
        let lead = prefix ''::'' s0;
            s = (if lead then drop 2 s0 else s0) in
        if lead \<and> s = [] then Some (Addr6 0 z)
        else
          (case parse6_loop [] (if lead then Some 0 else None) s of
             None \<Rightarrow> None
           | Some (bs, ell, rest) \<Rightarrow>
               if rest \<noteq> [] then None
               else map_option (\<lambda>v. Addr6 (to_word (be_val v)) z) (parse6_expand bs ell)))"

text \<open>\<open>ParseAddr\<close> dispatches on the first of \<open>.\<close>, \<open>:\<close> and \<open>%\<close>.\<close>

definition parse_addr :: "string \<Rightarrow> addr option" where
  "parse_addr s =
     (case find (\<lambda>c. c = CHR ''.'' \<or> c = CHR '':'' \<or> c = CHR ''%'') s of
        None \<Rightarrow> None
      | Some c \<Rightarrow>
          if c = CHR ''.'' then parse_ipv4 s
          else if c = CHR '':'' then parse_ipv6 s else None)"

text \<open>\<open>net.ParseIP(s) != nil\<close>: an address without a zone.\<close>

definition net_parse_ip_ok :: "string \<Rightarrow> bool" where
  "net_parse_ip_ok s = (case parse_addr s of None \<Rightarrow> False | Some a \<Rightarrow> zone a = [])"

lemma parse_addr_Nil [simp]: "parse_addr [] = None"
  by (simp add: parse_addr_def)

lemma parse_ipv4_valid: "parse_ipv4 s = Some a \<Longrightarrow> is_valid a"
  by (auto simp: parse_ipv4_def is_valid_def)

lemma parse_ipv6_valid: "parse_ipv6 s = Some a \<Longrightarrow> is_valid a"
  unfolding parse_ipv6_def Let_def
  by (auto simp: is_valid_def split: option.split_asm if_split_asm prod.split_asm)

lemma parse_addr_valid: "parse_addr s = Some a \<Longrightarrow> is_valid a"
  unfolding parse_addr_def
  by (auto dest: parse_ipv4_valid parse_ipv6_valid split: option.split_asm if_split_asm)

lemma parse_addr_no_marker:
  "CHR ''.'' \<notin> set s \<Longrightarrow> CHR '':'' \<notin> set s \<Longrightarrow> parse_addr s = None"
  by (auto simp: parse_addr_def split: option.splits dest!: find_SomeD)

section \<open>Prefixes\<close>

record ip_prefix =
  p_addr :: addr
  p_bits :: nat

text \<open>
  \<open>Prefix.Contains\<close>: false for a zone, for different families and for the zero address; otherwise
  the first \<open>bits\<close> bits agree.
\<close>

fun prefix_contains :: "ip_prefix \<Rightarrow> addr \<Rightarrow> bool" where
  "prefix_contains p (Addr4 w) =
     (case p_addr p of Addr4 q \<Rightarrow> drop_bit (32 - p_bits p) (w XOR q) = 0 | _ \<Rightarrow> False)"
| "prefix_contains p (Addr6 w z) =
     (z = [] \<and> (case p_addr p of Addr6 q _ \<Rightarrow> drop_bit (128 - p_bits p) (w XOR q) = 0 | _ \<Rightarrow> False))"
| "prefix_contains p AddrZero = False"

definition parse_prefix :: "string \<Rightarrow> ip_prefix option" where
  "parse_prefix s =
     (if CHR ''/'' \<notin> set s then None
      else
        let bits = after_last CHR ''/'' s;
            ip = take (length s - length bits - 1) s in
        case parse_addr ip of
          None \<Rightarrow> None
        | Some a \<Rightarrow>
            if zone a \<noteq> [] \<or> (1 < length bits \<and> hd bits = CHR ''0'') then None
            else
              (case parse_uint 63 bits of
                 (n, None) \<Rightarrow>
                   if n \<le> (if is6 a then 128 else 32)
                   then Some \<lparr>p_addr = a, p_bits = n\<rparr> else None
               | _ \<Rightarrow> None))"

lemma word_xor_eq_0_iff: "a XOR b = 0 \<longleftrightarrow> a = b" for a b :: "'a::len word"
  by (metis xor.assoc xor.left_neutral xor.right_neutral xor_self_eq)

lemma drop_bit_xor_eq_0_iff:
  fixes a b :: "'a::len word"
  shows "drop_bit k a XOR drop_bit k b = 0 \<longleftrightarrow> unat a div 2 ^ k = unat b div 2 ^ k"
proof -
  have "drop_bit k a XOR drop_bit k b = 0 \<longleftrightarrow> drop_bit k a = drop_bit k b"
    by (rule word_xor_eq_0_iff)
  also have "\<dots> \<longleftrightarrow> drop_bit k (unat a) = drop_bit k (unat b)"
    by (simp only: word_unat_eq_iff unat_drop_bit_eq)
  finally show ?thesis by (simp only: drop_bit_eq_div)
qed

text \<open>A prefix whose address is aligned contains exactly the interval of its block.\<close>

lemma aligned_block_iff:
  fixes n q :: nat
  assumes "2 ^ k dvd q"
  shows "n div 2 ^ k = q div 2 ^ k \<longleftrightarrow> q \<le> n \<and> n < q + 2 ^ k"
proof -
  obtain m where q: "q = 2 ^ k * m" using assms by (elim dvdE)
  have "n div 2 ^ k = m \<longleftrightarrow> m * 2 ^ k \<le> n \<and> n < Suc m * 2 ^ k"
    using less_eq_div_iff_mult_less_eq[of "2 ^ k" m n] div_less_iff_less_mult[of "2 ^ k" n "Suc m"]
    by (auto simp: less_Suc_eq_le le_antisym)
  then show ?thesis using q by (simp add: ac_simps)
qed

lemma prefix_contains4_iff:
  assumes "p_addr p = Addr4 q" and "2 ^ (32 - p_bits p) dvd unat q"
  shows "prefix_contains p (Addr4 w) \<longleftrightarrow>
     unat q \<le> unat w \<and> unat w < unat q + 2 ^ (32 - p_bits p)"
  using assms by (simp add: drop_bit_xor_eq_0_iff aligned_block_iff)

lemma prefix_contains6_iff:
  assumes "p_addr p = Addr6 q z'" and "2 ^ (128 - p_bits p) dvd unat q"
  shows "prefix_contains p (Addr6 w []) \<longleftrightarrow>
     unat q \<le> unat w \<and> unat w < unat q + 2 ^ (128 - p_bits p)"
  using assms by (simp add: drop_bit_xor_eq_0_iff aligned_block_iff)

lemma prefix_contains_zone: "z \<noteq> [] \<Longrightarrow> \<not> prefix_contains p (Addr6 w z)"
  by simp

declare prefix_contains.simps [simp del]

lemma block_bound_le: "n < q + 2 ^ k \<longleftrightarrow> n \<le> q + 2 ^ k - 1" for n q k :: nat
proof -
  have "0 < (2::nat) ^ k" by (rule zero_less_power) simp
  then show ?thesis by linarith
qed

end
