(* ===== verification/RirParser.thy ===== *)
theory RirParser
  imports NetIP
begin

text \<open>
  \<open>internal/rir/parser.go\<close>: the line parser of the delegated-statistics format with its streaming
  callback.  A reader is the byte string it delivers; dates are whole days since 1970-01-01 (\<open>time.Time\<close> at midnight UTC), the zero
  \<open>time.Time\<close> being January 1, year 1.
\<close>

section \<open>Records, header, errors\<close>

datatype record_type = TypeUnknown | TypeIPv4 | TypeIPv6 | TypeASN

type_synonym status = u8

definition StatusUnknown :: status where "StatusUnknown = 0"
definition StatusAllocated :: status where "StatusAllocated = 1"
definition StatusAssigned :: status where "StatusAssigned = 2"
definition StatusReserved :: status where "StatusReserved = 3"
definition StatusAvailable :: status where "StatusAvailable = 4"
definition StatusIETF :: status where "StatusIETF = 5"

definition parse_status :: "string \<Rightarrow> status" where
  "parse_status s =
     (if s = ''allocated'' then StatusAllocated
      else if s = ''assigned'' then StatusAssigned
      else if s = ''reserved'' then StatusReserved
      else if s = ''available'' then StatusAvailable
      else if s = ''ietf'' then StatusIETF
      else StatusUnknown)"

record rir_record =
  rc_Registry :: string
  rc_CC :: string
  rc_Type :: record_type
  rc_Start :: string
  rc_Value :: u64
  rc_Date :: int
  rc_Status :: status
  rc_OpaqueID :: string

record rir_header =
  h_Version :: string
  h_Registry :: string
  h_Serial :: string
  h_Records :: u64
  h_StartDate :: string
  h_EndDate :: string
  h_UTCOffset :: string

definition empty_header :: rir_header where
  "empty_header = \<lparr>h_Version = [], h_Registry = [], h_Serial = [], h_Records = 0,
     h_StartDate = [], h_EndDate = [], h_UTCOffset = []\<rparr>"

record parser =
  p_Header :: rir_header
  p_Skip :: bool

datatype rir_error =
    ErrShortLine string
  | ErrShortRecord string
  | ErrUnknownType string
  | ErrValue string num_error
  | ErrScanTooLong
  | ErrV4Start string
  | ErrV6Start string
  | ErrV6Prefix nat
  | ErrASNStart string
  | ErrNotIPv4
  | ErrV4CountOverflow u64

section \<open>Dates: time.Parse with the layout 20060102\<close>

definition zero_date :: int where
  "zero_date = -719162"

definition leap_year :: "int \<Rightarrow> bool" where
  "leap_year y \<longleftrightarrow> y mod 4 = 0 \<and> (y mod 100 \<noteq> 0 \<or> y mod 400 = 0)"

definition month_lengths :: "int \<Rightarrow> int list" where
  "month_lengths y =
     [31, if leap_year y then 29 else 28, 31, 30, 31, 30, 31, 31, 30, 31, 30, 31]"

definition days_before_year :: "int \<Rightarrow> int" where
  "days_before_year y = 365 * y + (y + 3) div 4 - (y + 99) div 100 + (y + 399) div 400"

definition days_of_date :: "int \<Rightarrow> nat \<Rightarrow> int \<Rightarrow> int" where
  "days_of_date y m d =
     days_before_year y + sum_list (take (m - 1) (month_lengths y)) + (d - 1) - 719528"

definition parse_date :: "string \<Rightarrow> int option" where
  "parse_date s =
     (if length s \<noteq> 8 \<or> \<not> list_all is_digit s then None
      else
        let y = int (digits_val (take 4 s));
            m = digits_val (take 2 (drop 4 s));
            d = int (digits_val (drop 6 s)) in
        if m < 1 \<or> 12 < m \<or> d < 1 \<or> month_lengths y ! (m - 1) < d then None
        else Some (days_of_date y m d))"

section \<open>One record line\<close>

definition is_digits :: "string \<Rightarrow> bool" where
  "is_digits s \<longleftrightarrow> s \<noteq> [] \<and> list_all is_digit s"

definition parse_type :: "string \<Rightarrow> record_type option" where
  "parse_type s =
     (if s = ''ipv4'' then Some TypeIPv4
      else if s = ''ipv6'' then Some TypeIPv6
      else if s = ''asn'' then Some TypeASN
      else None)"

definition parse_record :: "string list \<Rightarrow> rir_error + rir_record" where
  "parse_record f =
     (case parse_type (f ! 2) of
        None \<Rightarrow> Inl (ErrUnknownType (f ! 2))
      | Some ty \<Rightarrow>
          (case parse_uint 64 (f ! 4) of
             (_, Some e) \<Rightarrow> Inl (ErrValue (f ! 4) e)
           | (v, None) \<Rightarrow>
               Inr \<lparr>rc_Registry = f ! 0,
                    rc_CC = f ! 1,
                    rc_Type = ty,
                    rc_Start = f ! 3,
                    rc_Value = to_word v,
                    rc_Date = (if f ! 5 \<noteq> [] then
                                 (case parse_date (f ! 5) of None \<Rightarrow> zero_date | Some t \<Rightarrow> t)
                               else zero_date),
                    rc_Status = parse_status (f ! 6),
                    rc_OpaqueID = (if 8 \<le> length f then f ! 7 else [])\<rparr>))"

section \<open>Scanning lines\<close>

text \<open>
  \<open>bufio.Scanner\<close> with \<open>ScanLines\<close>: lines end at a newline, one trailing carriage return is dropped,
  a last line without newline is delivered when it is not empty.  A line of \<open>2 ^ 20\<close> bytes or more
  does not fit the buffer: the scan stops there with \<open>ErrTooLong\<close>.
\<close>

definition max_token :: nat where
  "max_token = 1048576"

definition drop_cr :: "string \<Rightarrow> string" where
  "drop_cr l = (if l \<noteq> [] \<and> last l = CHR 0x0D then butlast l else l)"

definition raw_lines :: "string \<Rightarrow> string list" where
  "raw_lines s =
     (let ls = go_split CHR 0x0A s in if last ls = [] then butlast ls else ls)"

definition scan_lines :: "string \<Rightarrow> string list \<times> bool" where
  "scan_lines s =
     (let ls = raw_lines s in
      (map drop_cr (takeWhile (\<lambda>l. length l < max_token) ls),
       \<not> list_all (\<lambda>l. length l < max_token) ls))"

section \<open>The parse loop\<close>

record 's parse_state =
  ps_header :: rir_header
  ps_seen :: bool
  ps_delivered :: nat
  ps_cb :: 's

text \<open>
  One iteration of the loop.  The callback \<open>fn\<close> acts on the state its closure captured; an error of
  the line or of the callback ends the loop.
\<close>

definition parse_line ::
  "bool \<Rightarrow> (rir_record \<Rightarrow> 's \<Rightarrow> rir_error option \<times> 's) \<Rightarrow> string \<Rightarrow> 's parse_state
     \<Rightarrow> rir_error option \<times> 's parse_state" where
  "parse_line skip fn line st =
     (if line = [] \<or> hd line = CHR ''#'' then (None, st)
      else
        let fields = go_split CHR ''|'' line in
        if length fields < 6 then (Some (ErrShortLine line), st)
        else if length fields = 6 \<and> fields ! 5 = ''summary'' then (None, st)
        else if length fields < 7 then (Some (ErrShortRecord line), st)
        else if \<not> ps_seen st \<and> length fields = 7 \<and> is_digits (fields ! 0) \<and> is_digits (fields ! 2)
        then (None,
              st\<lparr>ps_header := \<lparr>h_Version = fields ! 0, h_Registry = fields ! 1,
                   h_Serial = fields ! 2, h_Records = to_word (fst (parse_uint 64 (fields ! 3))),
                   h_StartDate = fields ! 4, h_EndDate = fields ! 5, h_UTCOffset = fields ! 6\<rparr>,
                 ps_seen := True\<rparr>)
        else if fields ! 1 = ''*'' then (None, st)
        else
          (case parse_record fields of
             Inl e \<Rightarrow> (Some e, st)
           | Inr rec \<Rightarrow>
               if skip \<and> (rc_Status rec = StatusReserved \<or> rc_Status rec = StatusAvailable)
               then (None, st)
               else
                 (case fn rec (ps_cb st) of
                    (Some e, s') \<Rightarrow> (Some e, st\<lparr>ps_cb := s'\<rparr>)
                  | (None, s') \<Rightarrow>
                      (None, st\<lparr>ps_cb := s', ps_delivered := Suc (ps_delivered st)\<rparr>))))"

fun parse_lines ::
  "bool \<Rightarrow> (rir_record \<Rightarrow> 's \<Rightarrow> rir_error option \<times> 's) \<Rightarrow> string list \<Rightarrow> 's parse_state
     \<Rightarrow> rir_error option \<times> 's parse_state" where
  "parse_lines skip fn [] st = (None, st)"
| "parse_lines skip fn (l # ls) st =
     (case parse_line skip fn l st of
        (Some e, st') \<Rightarrow> (Some e, st')
      | (None, st') \<Rightarrow> parse_lines skip fn ls st')"

text \<open>\<open>Parse\<close>: the updated parser, the count of delivered records, the error and the callback's state.\<close>

definition parse ::
  "parser \<Rightarrow> string \<Rightarrow> (rir_record \<Rightarrow> 's \<Rightarrow> rir_error option \<times> 's) \<Rightarrow> 's
     \<Rightarrow> parser \<times> nat \<times> rir_error option \<times> 's" where
  "parse p r fn s =
     (let (ls, too_long) = scan_lines r;
          (err, st) = parse_lines (p_Skip p) fn ls
             \<lparr>ps_header = p_Header p, ps_seen = False, ps_delivered = 0, ps_cb = s\<rparr>
      in (p\<lparr>p_Header := ps_header st\<rparr>, ps_delivered st,
          (case err of Some e \<Rightarrow> Some e | None \<Rightarrow> if too_long then Some ErrScanTooLong else None),
          ps_cb st))"

section \<open>What a line does, apart from the callback\<close>

text \<open>
  The abstract view of the loop: a line is ignored, sets the header, carries a record or is an error;
  which of these depends only on whether a version line was seen.  A parse is then a run of the
  callback over the record stream.
\<close>

datatype line_event = EvSkip | EvHeader rir_header | EvError rir_error | EvRecord rir_record

definition line_event :: "bool \<Rightarrow> bool \<Rightarrow> string \<Rightarrow> line_event" where
  "line_event skip seen line =
     (let st = \<lparr>ps_header = empty_header, ps_seen = seen, ps_delivered = 0, ps_cb = []\<rparr> in
      (case parse_line skip (\<lambda>rec rs. (None, rec # rs)) line st of
         (Some e, _) \<Rightarrow> EvError e
       | (None, st') \<Rightarrow>
           (case ps_cb st' of
              rec # _ \<Rightarrow> EvRecord rec
            | [] \<Rightarrow> if ps_seen st' \<and> \<not> seen then EvHeader (ps_header st') else EvSkip)))"

lemma parse_line_event:
  "parse_line skip fn line st =
     (case line_event skip (ps_seen st) line of
        EvSkip \<Rightarrow> (None, st)
      | EvHeader h \<Rightarrow> (None, st\<lparr>ps_header := h, ps_seen := True\<rparr>)
      | EvError e \<Rightarrow> (Some e, st)
      | EvRecord rec \<Rightarrow>
          (case fn rec (ps_cb st) of
             (Some e, s') \<Rightarrow> (Some e, st\<lparr>ps_cb := s'\<rparr>)
           | (None, s') \<Rightarrow> (None, st\<lparr>ps_cb := s', ps_delivered := Suc (ps_delivered st)\<rparr>)))"
  by (simp add: line_event_def parse_line_def Let_def split: sum.split) blast

text \<open>The callback run over a list of records, up to its first error.\<close>

fun run_records :: "(rir_record \<Rightarrow> 's \<Rightarrow> rir_error option \<times> 's) \<Rightarrow> rir_record list \<Rightarrow> nat \<Rightarrow> 's
    \<Rightarrow> rir_error option \<times> nat \<times> 's" where
  "run_records fn [] n s = (None, n, s)"
| "run_records fn (rec # recs) n s =
     (case fn rec s of
        (Some e, s') \<Rightarrow> (Some e, n, s')
      | (None, s') \<Rightarrow> run_records fn recs (Suc n) s')"

fun stream_lines :: "bool \<Rightarrow> bool \<Rightarrow> string list \<Rightarrow> rir_record list \<times> rir_error option" where
  "stream_lines skip seen [] = ([], None)"
| "stream_lines skip seen (l # ls) =
     (case line_event skip seen l of
        EvSkip \<Rightarrow> stream_lines skip seen ls
      | EvHeader h \<Rightarrow> stream_lines skip True ls
      | EvError e \<Rightarrow> ([], Some e)
      | EvRecord rec \<Rightarrow> (let (recs, e) = stream_lines skip seen ls in (rec # recs, e)))"

text \<open>The records of an input and the error it ends with, the scanner's included.\<close>

definition record_stream :: "bool \<Rightarrow> string \<Rightarrow> rir_record list \<times> rir_error option" where
  "record_stream skip r =
     (let (ls, too_long) = scan_lines r; (recs, e) = stream_lines skip False ls in
      (recs, case e of Some e \<Rightarrow> Some e | None \<Rightarrow> if too_long then Some ErrScanTooLong else None))"

lemma parse_lines_run:
  "stream_lines skip (ps_seen st) ls = (recs, e) \<Longrightarrow>
   run_records fn recs (ps_delivered st) (ps_cb st) = (e', n, s') \<Longrightarrow>
   \<exists>st'. parse_lines skip fn ls st = (case e' of None \<Rightarrow> e | Some x \<Rightarrow> Some x, st') \<and>
     ps_delivered st' = n \<and> ps_cb st' = s'"
proof (induction ls arbitrary: st recs e)
  case (Cons l ls)
  show ?case
  proof (cases "line_event skip (ps_seen st) l")
    case (EvHeader h)
    with Cons.IH[of "st\<lparr>ps_header := h, ps_seen := True\<rparr>"] Cons.prems show ?thesis
      by (simp add: parse_line_event)
  next
    case (EvRecord rec)
    obtain x s1 where fn: "fn rec (ps_cb st) = (x, s1)" by fastforce
    from EvRecord Cons.prems(1) obtain recs'
      where recs: "stream_lines skip (ps_seen st) ls = (recs', e)" "recs = rec # recs'"
      by (auto split: prod.splits)
    show ?thesis
    proof (cases x)
      case None
      with Cons.IH[of "st\<lparr>ps_cb := s1, ps_delivered := Suc (ps_delivered st)\<rparr>" recs' e]
        Cons.prems(2) EvRecord fn recs show ?thesis
        by (simp add: parse_line_event)
    next
      case (Some y)
      with Cons.prems(2) EvRecord fn recs show ?thesis by (auto simp: parse_line_event)
    qed
  qed (use Cons in \<open>auto simp: parse_line_event\<close>)
qed auto

text \<open>\<open>Parse\<close> with any callback is the run of the callback over the record stream.\<close>

lemma parse_run:
  assumes "record_stream (p_Skip p) r = (recs, e)"
    and "run_records fn recs 0 s = (e', n, s')"
  shows "snd (parse p r fn s) = (n, case e' of None \<Rightarrow> e | Some x \<Rightarrow> Some x, s')"
proof -
  obtain ls tl where sl: "scan_lines r = (ls, tl)" by fastforce
  obtain e1 where st: "stream_lines (p_Skip p) False ls = (recs, e1)"
    and e: "e = (case e1 of Some x \<Rightarrow> Some x | None \<Rightarrow> if tl then Some ErrScanTooLong else None)"
    using assms(1) sl by (auto simp: record_stream_def split: prod.splits)
  from parse_lines_run[where st = "\<lparr>ps_header = p_Header p, ps_seen = False, ps_delivered = 0,
      ps_cb = s\<rparr>" and fn = fn, simplified, OF st assms(2)]
  show ?thesis by (auto simp: parse_def sl e split: option.splits)
qed

section \<open>Properties\<close>

text \<open>
  C37: \<open>Parse\<close> is a stream: for every callback, the count it returns, the error it ends with and the state
  the callback leaves are those of running the callback, in order and up to its first error, over the
  records of the input, which do not depend on the callback.
\<close>

theorem parse_streams:
  "snd (parse p r fn s) =
     (case record_stream (p_Skip p) r of
        (recs, e) \<Rightarrow>
          (case run_records fn recs 0 s of
             (e', n, s') \<Rightarrow> (n, case e' of None \<Rightarrow> e | Some x \<Rightarrow> Some x, s')))"
  by (simp add: parse_run split: prod.split)

definition withheld :: "rir_record \<Rightarrow> bool" where
  "withheld rec \<longleftrightarrow> rc_Status rec = StatusReserved \<or> rc_Status rec = StatusAvailable"

lemma line_event_skip:
  "line_event True seen l =
     (case line_event False seen l of
        EvRecord rec \<Rightarrow> if withheld rec then EvSkip else EvRecord rec
      | ev \<Rightarrow> ev)"
  by (simp add: line_event_def parse_line_def Let_def withheld_def split: sum.split)

lemma stream_lines_skip:
  "stream_lines True seen ls =
     (case stream_lines False seen ls of (recs, e) \<Rightarrow> (filter (\<lambda>r. \<not> withheld r) recs, e))"
  by (induction ls arbitrary: seen)
    (auto simp: line_event_skip split: line_event.split prod.splits)

text \<open>
  Setting \<open>Skip\<close> drops exactly the records with status reserved or available from the stream and
  changes nothing else: the order of the others and the error are the same.
\<close>

theorem parse_skip_filters:
  "record_stream True r =
     (filter (\<lambda>rec. rc_Status rec \<noteq> StatusReserved \<and> rc_Status rec \<noteq> StatusAvailable)
        (fst (record_stream False r)), snd (record_stream False r))"
  by (auto simp: record_stream_def stream_lines_skip withheld_def[abs_def] split: prod.splits)

text \<open>The line of a record, as the registries publish it.\<close>

definition type_string :: "record_type \<Rightarrow> string" where
  "type_string ty = (case ty of TypeIPv4 \<Rightarrow> ''ipv4'' | TypeIPv6 \<Rightarrow> ''ipv6'' | TypeASN \<Rightarrow> ''asn''
     | TypeUnknown \<Rightarrow> [])"

definition status_string :: "status \<Rightarrow> string" where
  "status_string st =
     (if st = StatusAllocated then ''allocated'' else if st = StatusAssigned then ''assigned''
      else if st = StatusReserved then ''reserved'' else if st = StatusAvailable then ''available''
      else if st = StatusIETF then ''ietf'' else ''unknown'')"

definition record_fields :: "rir_record \<Rightarrow> string \<Rightarrow> string list" where
  "record_fields rec date =
     [rc_Registry rec, rc_CC rec, type_string (rc_Type rec), rc_Start rec,
      dec_digits (unat (rc_Value rec)), date, status_string (rc_Status rec), rc_OpaqueID rec]"

definition record_line :: "rir_record \<Rightarrow> string \<Rightarrow> string" where
  "record_line rec date = go_join ''|'' (record_fields rec date)"

lemma parse_status_string: "unat st \<le> 5 \<Longrightarrow> parse_status (status_string st) = st"
proof -
  assume "unat st \<le> 5"
  then have "st = 0 \<or> st = 1 \<or> st = 2 \<or> st = 3 \<or> st = 4 \<or> st = 5"
    by (simp add: word_unat_eq_iff) arith
  then show ?thesis
    by (auto simp: parse_status_def status_string_def StatusUnknown_def StatusAllocated_def
        StatusAssigned_def StatusReserved_def StatusAvailable_def StatusIETF_def)
qed

lemma status_string_no_bar: "CHR ''|'' \<notin> set (status_string st)"
  by (simp add: status_string_def)

lemma type_string_no_bar: "CHR ''|'' \<notin> set (type_string ty)"
  by (simp add: type_string_def split: record_type.split)

text \<open>
  Print and parse: the line that publishes a record (fields without bars, a known type and status, a
  valid date) is read back by the parser as that record, all eight fields of it.
\<close>

theorem record_line_roundtrip:
  assumes "list_all (\<lambda>f. CHR ''|'' \<notin> set f)
      [rc_Registry rec, rc_CC rec, rc_Start rec, date, rc_OpaqueID rec]"
    and "rc_Type rec \<noteq> TypeUnknown" and "unat (rc_Status rec) \<le> 5"
    and "parse_date date = Some (rc_Date rec)"
    and "take 1 (rc_Registry rec) \<noteq> ''#''" and "rc_CC rec \<noteq> ''*''"
  shows "line_event False seen (record_line rec date) = EvRecord rec"
proof -
  have split: "go_split CHR ''|'' (record_line rec date) = record_fields rec date"
    unfolding record_line_def
  proof (rule go_split_go_join)
    fix w
    assume "w \<in> set (record_fields rec date)"
    then show "CHR ''|'' \<notin> set w"
      using assms(1) by (auto simp: record_fields_def status_string_no_bar type_string_no_bar
          dec_digits_no_sep is_digit_def)
  qed (simp add: record_fields_def)
  have ne: "record_line rec date \<noteq> []" "hd (record_line rec date) \<noteq> CHR ''#''"
    using assms(5) by (cases "rc_Registry rec"; auto simp: record_line_def record_fields_def)+
  have date: "date \<noteq> []" using assms(4) by (auto simp: parse_date_def)
  have ty: "parse_type (type_string (rc_Type rec)) = Some (rc_Type rec)"
    using assms(2) by (cases "rc_Type rec") (simp_all add: parse_type_def type_string_def)
  have v: "parse_uint 64 (dec_digits (unat (rc_Value rec))) = (unat (rc_Value rec), None)"
    using unat64_less[of "rc_Value rec"] by simp
  have "parse_record (record_fields rec date) = Inr rec"
    using assms(4) date
    by (simp add: parse_record_def record_fields_def ty v parse_status_string[OF assms(3)])
  then show ?thesis
    using ne assms(6)
    by (simp add: line_event_def parse_line_def split Let_def) (simp add: record_fields_def)
qed

definition published_record :: rir_record where
  "published_record = \<lparr>rc_Registry = ''apnic'', rc_CC = ''ID'', rc_Type = TypeIPv4,
     rc_Start = ''103.0.0.0'', rc_Value = 65536, rc_Date = 15197, rc_Status = 1,
     rc_OpaqueID = ''A91872ED''\<rparr>"

theorem record_line_roundtrip_witness:
  "line_event False True (record_line published_record ''20110811'') = EvRecord published_record"
proof (rule record_line_roundtrip)
  show "parse_date ''20110811'' = Some (rc_Date published_record)" by code_simp
qed (simp_all add: published_record_def)

end
