(* ===== verification/RirCidr.thy ===== *)
theory RirCidr
  imports RirParser
begin

text \<open>
  \<open>CIDRsFromV4Count\<close> of \<open>internal/rir/parser.go\<close>: the decomposition of an IPv4 range into aligned
  prefixes, with its two loops over \<open>uint32\<close> values.  The result tiles the range with aligned blocks,
  covers every address exactly once, and no tiling by aligned blocks is shorter.
\<close>

section \<open>CIDR decomposition\<close>

definition v4_to_u32 :: "addr \<Rightarrow> u32" where
  "v4_to_u32 a = (case unmap a of Addr4 w \<Rightarrow> w | _ \<Rightarrow> 0)"

function log2u32 :: "u32 \<Rightarrow> u32" where
  "log2u32 x = (if 1 < x then 1 + log2u32 (drop_bit 1 x) else 0)"
  by pat_completeness auto
termination
proof (relation "measure unat", goal_cases)
  case (2 x)
  then have "1 < unat x" by (simp add: word_less_nat_alt)
  then show ?case by simp
qed simp

declare log2u32.simps [simp del]

text \<open>
  The inner loop doubles \<open>block\<close> while twice the block fits \<open>remain\<close> and divides \<open>cursor\<close>.  The
  comparison comes first, so \<open>block << 1\<close> is never the zero divisor of the alignment test.
\<close>

definition grow_more :: "u32 \<Rightarrow> u32 \<Rightarrow> u32 \<Rightarrow> bool" where
  "grow_more cursor remain block \<longleftrightarrow>
     block \<le> drop_bit 1 remain \<and> cursor mod push_bit 1 block = 0 \<and> push_bit 1 block \<noteq> 0"

lemma unat_push_bit1:
  assumes "block \<le> drop_bit 1 remain"
  shows "unat (push_bit 1 block :: u32) = 2 * unat block" and "2 * unat block \<le> unat remain"
proof -
  have "unat block \<le> unat remain div 2"
    using assms by (simp add: word_le_nat_alt)
  then show *: "2 * unat block \<le> unat remain" by simp
  with unat32_less[of remain] show "unat (push_bit 1 block :: u32) = 2 * unat block"
    by (simp add: push_bit_eq_mult unat_word_ariths)
qed

function grow_block :: "u32 \<Rightarrow> u32 \<Rightarrow> u32 \<Rightarrow> u32" where
  "grow_block cursor remain block =
     (if grow_more cursor remain block then grow_block cursor remain (push_bit 1 block) else block)"
  by pat_completeness auto
termination
proof (relation "measure (\<lambda>(c, r, b). unat r - unat b)", goal_cases)
  case (2 cursor remain block)
  then have *: "block \<le> drop_bit 1 remain" "push_bit 1 block \<noteq> 0"
    by (auto simp: grow_more_def)
  then have "unat block \<noteq> 0" using unat_push_bit1(1)[OF *(1)] by (metis mult_0_right unat_eq_zero)
  then show ?case using unat_push_bit1[OF *(1)] by simp
qed simp

declare grow_block.simps [simp del]

lemma grow_block_step: "grow_more c r b \<Longrightarrow> grow_block c r b = grow_block c r (push_bit 1 b)"
  by (subst grow_block.simps) simp

lemma grow_block_stop: "\<not> grow_more c r b \<Longrightarrow> grow_block c r b = b"
  by (subst grow_block.simps) simp

text \<open>
  The block is a power of two that divides the cursor and fits what remains; it is the largest such
  power.
\<close>

lemma grow_block_spec:
  assumes "unat b = 2 ^ k" and "2 ^ k dvd unat c" and "2 ^ k \<le> unat r"
  shows "\<exists>m. unat (grow_block c r b) = 2 ^ m \<and> k \<le> m \<and> 2 ^ m dvd unat c \<and> 2 ^ m \<le> unat r \<and>
    \<not> (2 ^ Suc m dvd unat c \<and> 2 ^ Suc m \<le> unat r)"
  using assms
proof (induction c r b arbitrary: k rule: grow_block.induct)
  case (1 c r b)
  show ?case
  proof (cases "grow_more c r b")
    case True
    then have le: "b \<le> drop_bit 1 r" and md: "c mod push_bit 1 b = 0" by (auto simp: grow_more_def)
    have u: "unat (push_bit 1 b) = 2 ^ Suc k" "2 ^ Suc k \<le> unat r"
      using unat_push_bit1[OF le] "1.prems"(1) by simp_all
    have "unat (c mod push_bit 1 b) = 0" using md by simp
    then have "2 ^ Suc k dvd unat c" by (simp only: unat_mod u(1) dvd_eq_mod_eq_0)
    from "1.IH"[OF True u(1) this u(2)] show ?thesis
      unfolding grow_block_step[OF True] by (meson Suc_leD)
  next
    case False
    have "\<not> (2 ^ Suc k dvd unat c \<and> 2 ^ Suc k \<le> unat r)"
    proof
      assume a: "2 ^ Suc k dvd unat c \<and> 2 ^ Suc k \<le> unat r"
      then have "2 * unat b \<le> unat r" using "1.prems"(1) by simp
      then have "unat b \<le> unat r div 2" by linarith
      then have le: "b \<le> drop_bit 1 r" by (simp add: word_le_nat_alt)
      have u: "unat (push_bit 1 b) = 2 ^ Suc k" using unat_push_bit1[OF le] "1.prems"(1) by simp
      have "unat (c mod push_bit 1 b) = 0"
        using a by (simp only: unat_mod u dvd_eq_mod_eq_0)
      moreover have "push_bit 1 b \<noteq> 0" using u by (metis power_not_zero unat_0 zero_neq_numeral)
      ultimately show False using False le by (simp add: grow_more_def unat_eq_zero)
    qed
    then show ?thesis unfolding grow_block_stop[OF False] using "1.prems" by blast
  qed
qed

lemma grow_block_one:
  assumes "r \<noteq> 0"
  obtains m where "unat (grow_block c r 1) = 2 ^ m" "2 ^ m dvd unat c" "2 ^ m \<le> unat r"
    "\<not> (2 ^ Suc m dvd unat c \<and> 2 ^ Suc m \<le> unat r)" "m < 32"
proof -
  have "(2::nat) ^ 0 \<le> unat r" using assms by (simp add: Suc_leI unat_gt_0)
  then have "\<exists>m. unat (grow_block c r 1) = 2 ^ m \<and> 0 \<le> m \<and> 2 ^ m dvd unat c \<and>
      2 ^ m \<le> unat r \<and> \<not> (2 ^ Suc m dvd unat c \<and> 2 ^ Suc m \<le> unat r)"
    by (intro grow_block_spec) simp_all
  then obtain m where m: "unat (grow_block c r 1) = 2 ^ m \<and> 0 \<le> m \<and> 2 ^ m dvd unat c \<and>
      2 ^ m \<le> unat r \<and> \<not> (2 ^ Suc m dvd unat c \<and> 2 ^ Suc m \<le> unat r)" ..
  have "(2::nat) ^ m < 4294967296"
    by (rule le_less_trans[OF _ unat32_less[of r]]) (rule m[THEN conjunct2, THEN conjunct2,
        THEN conjunct2, THEN conjunct1])
  also have "\<dots> = (2::nat) ^ 32" by simp
  finally have "m < 32" by (rule power_less_imp_less_exp[rotated]) simp
  with m show thesis by (elim conjE) (rule that)
qed

lemma log2u32_power: "unat x = 2 ^ k \<Longrightarrow> k < 32 \<Longrightarrow> log2u32 x = to_word k"
proof (induction x arbitrary: k rule: log2u32.induct)
  case (1 x)
  show ?case
  proof (cases k)
    case 0
    then have "x = 1" using "1.prems" by (simp add: unat32_eq_1)
    then show ?thesis using 0 by (simp add: log2u32.simps to_word_def)
  next
    case (Suc j)
    have "1 < (2::nat) ^ Suc j" by (rule one_less_power) simp_all
    then have x1: "1 < x" using "1.prems"(1) Suc by (simp only: word_less_nat_alt) simp
    have "unat (drop_bit 1 x) = 2 ^ j"
      using "1.prems" Suc by simp
    from "1.IH"[OF x1 this] "1.prems" Suc have "log2u32 (drop_bit 1 x) = to_word j" by simp
    then show ?thesis using x1 Suc by (subst log2u32.simps) (simp add: to_word_eq)
  qed
qed

function cidr_loop :: "u32 \<Rightarrow> u32 \<Rightarrow> ip_prefix list" where
  "cidr_loop cursor remain =
     (if 0 < remain then
        let block = grow_block cursor remain 1;
            bits = 32 - log2u32 block;
            k = 32 - unat bits in
        \<lparr>p_addr = Addr4 (push_bit k (drop_bit k cursor)), p_bits = unat bits\<rparr>
          # cidr_loop (cursor + block) (remain - block)
      else [])"
  by pat_completeness auto
termination
proof (relation "measure (\<lambda>(c, r). unat r)", goal_cases)
  case (2 c r block)
  then have "r \<noteq> 0" by auto
  then obtain m where "unat (grow_block c r 1) = 2 ^ m" "2 ^ m \<le> unat r"
    by (rule grow_block_one)
  then have "0 < unat block" "unat block \<le> unat r" using 2 by simp_all
  then show ?case by (simp add: unat_sub word_le_nat_alt)
qed simp

declare cidr_loop.simps [simp del]

definition cidrs_from_v4_count :: "addr \<Rightarrow> u64 \<Rightarrow> rir_error + ip_prefix list" where
  "cidrs_from_v4_count start n =
     (if \<not> is4 start then Inl ErrNotIPv4
      else if n = 0 then Inr []
      else if 0xFFFFFFFF < n then Inl (ErrV4CountOverflow n)
      else Inr (cidr_loop (v4_to_u32 start) (ucast n)))"

section \<open>Tilings\<close>

lemma cidr_loop_0 [simp]: "cidr_loop c 0 = []"
  by (subst cidr_loop.simps) simp

lemma push_drop_aligned:
  fixes c :: u32
  assumes "2 ^ m dvd unat c"
  shows "push_bit m (drop_bit m c) = c"
proof -
  have "unat (c mod 2 ^ m) = 0"
  proof (cases "m < 32")
    case True
    then have "unat ((2::u32) ^ m) = 2 ^ m" by simp
    then show ?thesis using assms by (simp add: unat_mod dvd_eq_mod_eq_0)
  next
    case False
    then have "(4294967296::nat) dvd 2 ^ m" using le_imp_power_dvd[of 32 m "2::nat"] by simp
    then have "4294967296 dvd unat c" using assms dvd_trans by blast
    then have "unat c = 0" using unat32_less[of c] nat_dvd_not_less by blast
    then show ?thesis by (simp add: unat_eq_zero)
  qed
  then have "take_bit m c = 0" by (simp add: take_bit_eq_mod unat_eq_zero)
  then show ?thesis using bits_ident[of m c] by simp
qed

lemma cidr_loop_step:
  assumes "r \<noteq> 0"
  obtains m where "2 ^ m dvd unat c" "2 ^ m \<le> unat r"
    "\<not> (2 ^ Suc m dvd unat c \<and> 2 ^ Suc m \<le> unat r)" "m < 32"
    "cidr_loop c r = \<lparr>p_addr = Addr4 c, p_bits = 32 - m\<rparr> # cidr_loop (c + 2 ^ m) (r - 2 ^ m)"
    "unat (r - 2 ^ m) = unat r - 2 ^ m"
proof -
  obtain m where m: "unat (grow_block c r 1) = 2 ^ m" "2 ^ m dvd unat c" "2 ^ m \<le> unat r"
    "\<not> (2 ^ Suc m dvd unat c \<and> 2 ^ Suc m \<le> unat r)" "m < 32"
    by (rule grow_block_one[OF assms])
  have pow: "unat ((2::u32) ^ m) = 2 ^ m" using m(5) by simp
  then have blk: "grow_block c r 1 = 2 ^ m" using m(1) by (simp add: word_unat_eq_iff)
  have bits: "unat (32 - log2u32 (2 ^ m)) = 32 - m"
  proof -
    have "unat (to_word m :: u32) = m" using m(5) by (simp add: unat_to_word)
    then show ?thesis
      using log2u32_power[OF pow m(5)] m(5) by (simp add: unat_sub word_le_nat_alt)
  qed
  have "cidr_loop c r =
      \<lparr>p_addr = Addr4 (push_bit m (drop_bit m c)), p_bits = 32 - m\<rparr>
        # cidr_loop (c + 2 ^ m) (r - 2 ^ m)"
    using assms m(5) by (subst cidr_loop.simps) (simp add: blk bits Let_def word_neq_0_conv[symmetric])
  moreover have "unat (r - 2 ^ m) = unat r - 2 ^ m"
    using m(3) pow by (simp add: unat_sub word_le_nat_alt)
  ultimately show thesis
    using m push_drop_aligned[OF m(2)] that by simp
qed

text \<open>
  A list of prefixes tiles \<open>[a, b)\<close>: each starts where the one before ends, aligned to its size.
\<close>

fun tiles :: "nat \<Rightarrow> nat \<Rightarrow> ip_prefix list \<Rightarrow> bool" where
  "tiles a b [] = (a = b)"
| "tiles a b (p # ps) =
     (case p_addr p of
        Addr4 q \<Rightarrow> unat q = a \<and> p_bits p \<le> 32 \<and> 2 ^ (32 - p_bits p) dvd a
          \<and> tiles (a + 2 ^ (32 - p_bits p)) b ps
      | _ \<Rightarrow> False)"

lemma tiles_le: "tiles a b ps \<Longrightarrow> a \<le> b"
proof (induction ps arbitrary: a)
  case (Cons p ps)
  from Cons.prems have "tiles (a + 2 ^ (32 - p_bits p)) b ps" by (auto split: addr.splits)
  from Cons.IH[OF this] show ?case by simp
qed simp

lemma cidr_loop_tiles:
  "unat c + unat r \<le> 2 ^ 32 \<Longrightarrow> tiles (unat c) (unat c + unat r) (cidr_loop c r)"
proof (induction "unat r" arbitrary: c r rule: less_induct)
  case less
  show ?case
  proof (cases "r = 0")
    case False
    then obtain m where m: "2 ^ m dvd unat c" "2 ^ m \<le> unat r" "m < 32"
      "cidr_loop c r = \<lparr>p_addr = Addr4 c, p_bits = 32 - m\<rparr> # cidr_loop (c + 2 ^ m) (r - 2 ^ m)"
      "unat (r - 2 ^ m) = unat r - 2 ^ m"
      by (rule cidr_loop_step)
    have "tiles (unat c + 2 ^ m) (unat c + unat r) (cidr_loop (c + 2 ^ m) (r - 2 ^ m))"
    proof (cases "unat r = 2 ^ m")
      case True
      then have "r - 2 ^ m = 0" using m(5) by (simp add: unat_eq_zero)
      then show ?thesis using True by simp
    next
      case F: False
      then have lt: "unat c + 2 ^ m < 2 ^ 32" using m(2) less.prems by linarith
      then have c': "unat (c + 2 ^ m) = unat c + 2 ^ m"
        using m(3) by (simp add: unat_word_ariths)
      have "unat (r - 2 ^ m) < unat r"
        using m(2,5) zero_less_power[of "2::nat" m] by linarith
      from less.hyps[OF this, of "c + 2 ^ m"] show ?thesis
        using c' m(2,5) less.prems by simp
    qed
    then show ?thesis using m(1,3,4) by simp
  qed simp
qed

text \<open>Every address of the interval lies in exactly one prefix, every other address in none.\<close>

lemma tiles_cover_once:
  "tiles a b ps \<Longrightarrow>
   length (filter (\<lambda>p. prefix_contains p (Addr4 w)) ps) = (if a \<le> unat w \<and> unat w < b then 1 else 0)"
proof (induction ps arbitrary: a)
  case (Cons p ps)
  then obtain q where q: "p_addr p = Addr4 q" "unat q = a" "2 ^ (32 - p_bits p) dvd a"
    and rest: "tiles (a + 2 ^ (32 - p_bits p)) b ps"
    by (auto split: addr.splits)
  have "prefix_contains p (Addr4 w) \<longleftrightarrow> a \<le> unat w \<and> unat w < a + 2 ^ (32 - p_bits p)"
    using prefix_contains4_iff[OF q(1)] q(2,3) by simp
  then show ?case using Cons.IH[OF rest] tiles_le[OF rest] by auto
qed simp

section \<open>Minimality\<close>

text \<open>
  A tiling of an interval that starts with the largest aligned block \<open>[a, a + 2^m)\<close> is cut by the end
  of that block: no aligned block straddles it.
\<close>

lemma tiles_cut:
  assumes "2 ^ m dvd a" and "a + 2 ^ m \<le> b"
    and big: "\<not> (2 ^ Suc m dvd a \<and> a + 2 ^ Suc m \<le> b)"
  shows "tiles x b qs \<Longrightarrow> a \<le> x \<Longrightarrow> x \<le> a + 2 ^ m \<Longrightarrow>
    \<exists>q1 q2. qs = q1 @ q2 \<and> tiles (a + 2 ^ m) b q2 \<and> (x < a + 2 ^ m \<longrightarrow> q1 \<noteq> [])"
proof (induction qs arbitrary: x)
  case Nil
  then show ?case using assms(2) by auto
next
  case (Cons p ps)
  show ?case
  proof (cases "x = a + 2 ^ m")
    case True
    then show ?thesis using Cons.prems by (intro exI[of _ "[]"] exI[of _ "p # ps"]) simp
  next
    case False
    then have lt: "x < a + 2 ^ m" using Cons.prems by simp
    define n where "n = 32 - p_bits p"
    have al: "2 ^ n dvd x" and rest: "tiles (x + 2 ^ n) b ps"
      using Cons.prems(1) by (auto simp: n_def split: addr.splits)
    have "n \<le> m"
    proof (rule ccontr)
      assume "\<not> n \<le> m"
      then have d: "(2::nat) ^ Suc m dvd 2 ^ n" by (intro le_imp_power_dvd) simp
      have sx: "2 ^ Suc m dvd x" by (rule dvd_trans[OF d al])
      then have "2 ^ m dvd x" by (rule dvd_trans[rotated]) simp
      then have "2 ^ m dvd x - a" using assms(1) by (rule dvd_diff_nat)
      moreover have "x - a < 2 ^ m" using lt Cons.prems(2) by linarith
      ultimately have "\<not> 0 < x - a" using nat_dvd_not_less[of "x - a" "2 ^ m"] by blast
      then have "x = a" using Cons.prems(2) by simp
      moreover have "x + 2 ^ Suc m \<le> b"
        using tiles_le[OF rest] dvd_imp_le[OF d] by simp
      ultimately show False using sx big by simp
    qed
    then have nm: "(2::nat) ^ n dvd 2 ^ m" by (rule le_imp_power_dvd)
    have "2 ^ n dvd a + 2 ^ m" by (rule dvd_add[OF dvd_trans[OF nm assms(1)] nm])
    then have "2 ^ n dvd (a + 2 ^ m) - x" using al by (rule dvd_diff_nat)
    moreover have "0 < a + 2 ^ m - x" using lt by (rule zero_less_diff[THEN iffD2])
    ultimately have "2 ^ n \<le> a + 2 ^ m - x" by (rule dvd_imp_le)
    then have "x + 2 ^ n \<le> a + 2 ^ m" using lt by linarith
    moreover have "a \<le> x + 2 ^ n" using Cons.prems(2) by simp
    ultimately obtain q1 q2 where "ps = q1 @ q2" "tiles (a + 2 ^ m) b q2"
      using Cons.IH[OF rest] by blast
    then show ?thesis by (intro exI[of _ "p # q1"] exI[of _ q2]) simp
  qed
qed

lemma cidr_loop_minimal:
  "unat c + unat r \<le> 2 ^ 32 \<Longrightarrow> tiles (unat c) (unat c + unat r) qs \<Longrightarrow>
   length (cidr_loop c r) \<le> length qs"
proof (induction "unat r" arbitrary: c r qs rule: less_induct)
  case less
  show ?case
  proof (cases "r = 0")
    case False
    then obtain m where m: "2 ^ m dvd unat c" "2 ^ m \<le> unat r"
      "\<not> (2 ^ Suc m dvd unat c \<and> 2 ^ Suc m \<le> unat r)" "m < 32"
      "cidr_loop c r = \<lparr>p_addr = Addr4 c, p_bits = 32 - m\<rparr> # cidr_loop (c + 2 ^ m) (r - 2 ^ m)"
      "unat (r - 2 ^ m) = unat r - 2 ^ m"
      by (rule cidr_loop_step)
    have "\<exists>q1 q2. qs = q1 @ q2 \<and> tiles (unat c + 2 ^ m) (unat c + unat r) q2 \<and>
        (unat c < unat c + 2 ^ m \<longrightarrow> q1 \<noteq> [])"
      using m(1-3) less.prems(2) by (intro tiles_cut) simp_all
    then obtain q1 q2 where q: "qs = q1 @ q2" "tiles (unat c + 2 ^ m) (unat c + unat r) q2" "q1 \<noteq> []"
      by auto
    have "length (cidr_loop (c + 2 ^ m) (r - 2 ^ m)) \<le> length q2"
    proof (cases "unat r = 2 ^ m")
      case True
      then have "r - 2 ^ m = 0" using m(6) by (simp add: unat_eq_zero)
      then show ?thesis by simp
    next
      case F: False
      then have lt: "unat c + 2 ^ m < 2 ^ 32" using m(2) less.prems by linarith
      then have c': "unat (c + 2 ^ m) = unat c + 2 ^ m"
        using m(4) by (simp add: unat_word_ariths)
      have "unat (r - 2 ^ m) < unat r"
        using m(2,6) zero_less_power[of "2::nat" m] by linarith
      then show ?thesis
        using less.hyps[of "r - 2 ^ m" "c + 2 ^ m" q2] c' q(2) m(2,6) less.prems(1) by simp
    qed
    moreover have "1 \<le> length q1" using q(3) by (simp add: Suc_leI)
    ultimately show ?thesis using q(1) m(5) by simp
  qed simp
qed

section \<open>Properties\<close>

text \<open>
  C11: For an IPv4 start address and a count whose range stays inside the address space,
  \<open>CIDRsFromV4Count\<close> returns a list of prefixes that tiles the range with aligned blocks in order,
  and every address is contained in exactly one of them when it lies in the range and in none
  otherwise.
\<close>

theorem cidrs_cover_exactly_once:
  assumes "n < 2 ^ 32" and "unat c + unat n \<le> 2 ^ 32"
  shows "\<exists>ps. cidrs_from_v4_count (Addr4 c) n = Inr ps \<and> tiles (unat c) (unat c + unat n) ps \<and>
    (\<forall>w. length (filter (\<lambda>p. prefix_contains p (Addr4 w)) ps) =
       (if unat c \<le> unat w \<and> unat w < unat c + unat n then 1 else 0))"
proof -
  have n: "unat (ucast n :: u32) = unat n" "\<not> 0xFFFFFFFF < n"
    using assms(1) by (simp_all add: unsigned_ucast_eq word_less_nat_alt take_bit_eq_mod)
  have "tiles (unat c) (unat c + unat n) (cidr_loop c (ucast n))"
    using cidr_loop_tiles[of c "ucast n"] assms(2) n by simp
  moreover have "cidrs_from_v4_count (Addr4 c) n = Inr (cidr_loop c (ucast n))"
    using n by (simp add: cidrs_from_v4_count_def v4_to_u32_def)
  ultimately show ?thesis using tiles_cover_once by blast
qed

theorem cidrs_cover_exactly_once_witness:
  "\<exists>ps. cidrs_from_v4_count (Addr4 0x0A000001) 6 = Inr ps \<and>
    tiles 0x0A000001 0x0A000007 ps"
  using cidrs_cover_exactly_once[of 6 "0x0A000001"] by auto

text \<open>
  The decomposition is minimal: no list of aligned prefixes that tiles the same range is shorter.
\<close>

theorem cidrs_minimal:
  assumes "n < 2 ^ 32" and "unat c + unat n \<le> 2 ^ 32"
    and "cidrs_from_v4_count (Addr4 c) n = Inr ps" and "tiles (unat c) (unat c + unat n) qs"
  shows "length ps \<le> length qs"
proof -
  have n: "unat (ucast n :: u32) = unat n" "\<not> 0xFFFFFFFF < n"
    using assms(1) by (simp_all add: unsigned_ucast_eq word_less_nat_alt take_bit_eq_mod)
  have "ps = cidr_loop c (ucast n)"
    using assms(3) n by (auto simp: cidrs_from_v4_count_def v4_to_u32_def split: if_splits)
  then show ?thesis using cidr_loop_minimal[of c "ucast n" qs] assms(2,4) n by simp
qed

lemma cidrs_two: "cidrs_from_v4_count (Addr4 6) 2 = Inr [\<lparr>p_addr = Addr4 6, p_bits = 31\<rparr>]"
  by code_simp

theorem cidrs_minimal_witness:
  "length [\<lparr>p_addr = Addr4 6, p_bits = 31\<rparr>]
     \<le> length [\<lparr>p_addr = Addr4 6, p_bits = 32\<rparr>, \<lparr>p_addr = Addr4 7, p_bits = 32\<rparr>]"
  by (rule cidrs_minimal[of 2 6]) (simp_all add: cidrs_two)

text \<open>
  \<open>CIDRsFromV4Count\<close> fails exactly when the start is not a plain IPv4 address (an IPv4-mapped
  IPv6 address included) or the count exceeds 2^32 - 1; a zero count gives the empty list.
\<close>

theorem cidrs_error_iff:
  "(\<exists>e. cidrs_from_v4_count a n = Inl e) \<longleftrightarrow> \<not> is4 a \<or> 0xFFFFFFFF < n"
  by (auto simp: cidrs_from_v4_count_def)

end
