(* ===== verification/RirDB.thy ===== *)
theory RirDB
  imports RirCidr
begin

text \<open>
  The range database of \<open>internal/rir/sorted.go\<close> and its builder \<open>internal/rir/builder.go\<close>: three
  slices of inclusive ranges sorted by start, built by the parser's callback and searched by
  \<open>sort.Search\<close>.  The locale \<open>range_lookup\<close> holds what the three lookups share; it is interpreted
  for the IPv4, IPv6 and ASN slices.
\<close>

section \<open>Registries and rows\<close>

type_synonym registry_id = u8

definition RegUnknown :: registry_id where "RegUnknown = 0"
definition RegAPNIC :: registry_id where "RegAPNIC = 1"
definition RegARIN :: registry_id where "RegARIN = 2"
definition RegRIPE :: registry_id where "RegRIPE = 3"
definition RegLACNIC :: registry_id where "RegLACNIC = 4"
definition RegAFRINIC :: registry_id where "RegAFRINIC = 5"
definition RegIANA :: registry_id where "RegIANA = 6"

lemmas registry_consts = RegUnknown_def RegAPNIC_def RegARIN_def RegRIPE_def RegLACNIC_def
  RegAFRINIC_def RegIANA_def

definition registry_from_string :: "string \<Rightarrow> registry_id" where
  "registry_from_string s =
     (if s = ''apnic'' then RegAPNIC
      else if s = ''arin'' then RegARIN
      else if s = ''ripencc'' \<or> s = ''ripe'' then RegRIPE
      else if s = ''lacnic'' then RegLACNIC
      else if s = ''afrinic'' then RegAFRINIC
      else if s = ''iana'' then RegIANA
      else RegUnknown)"

definition registry_string :: "registry_id \<Rightarrow> string" where
  "registry_string r =
     (if r = RegAPNIC then ''apnic''
      else if r = RegARIN then ''arin''
      else if r = RegRIPE then ''ripencc''
      else if r = RegLACNIC then ''lacnic''
      else if r = RegAFRINIC then ''afrinic''
      else if r = RegIANA then ''iana''
      else [])"

record v4range =
  v4_Start :: u32
  v4_End :: u32
  v4_CC :: "char \<times> char"
  v4_Registry :: registry_id
  v4_Status :: status
  v4_Date :: u32

record v6range =
  v6_StartHi :: u64
  v6_StartLo :: u64
  v6_EndHi :: u64
  v6_EndLo :: u64
  v6_CC :: "char \<times> char"
  v6_Registry :: registry_id
  v6_Status :: status
  v6_Date :: u32

record asnrange =
  asn_Start :: u32
  asn_End :: u32
  asn_CC :: "char \<times> char"
  asn_Registry :: registry_id
  asn_Status :: status
  asn_Date :: u32

record rir_db =
  db_V4 :: "v4range list"
  db_V6 :: "v6range list"
  db_ASN :: "asnrange list"

definition empty_db :: rir_db where
  "empty_db = \<lparr>db_V4 = [], db_V6 = [], db_ASN = []\<rparr>"

section \<open>Dates\<close>

text \<open>
  \<open>Meta.Date\<close> is a point in time, here in nanoseconds since 1970.  \<open>timeToDays\<close> sees whole days
  (the parser's dates) and goes through \<open>time.Duration\<close>, which saturates at 106751 days; a negative
  day count is converted to \<open>uint32\<close> modulo \<open>2 ^ 32\<close>, what the conversion does on amd64.  In
  \<open>daysToTime\<close> the product of the duration is an \<open>int64\<close> that wraps.
\<close>

definition day_ns :: int where
  "day_ns = 86400000000000"

definition wrap64 :: "int \<Rightarrow> int" where
  "wrap64 i = (i + 2 ^ 63) mod 2 ^ 64 - 2 ^ 63"

definition time_to_days :: "int \<Rightarrow> u32" where
  "time_to_days t =
     (if t = zero_date then 0 else word_of_int (max (-106751) (min 106751 t)))"

definition days_to_time :: "u32 \<Rightarrow> int" where
  "days_to_time d = (if d = 0 then zero_date * day_ns else wrap64 (uint d * day_ns))"

section \<open>Lookup\<close>

record meta =
  m_Registry :: string
  m_Status :: status
  m_Date :: int
  m_CIDR :: string

text \<open>
  The search the three lookups share: the least index whose end reaches the query, kept when its
  start does not pass it.  The two tests are the closures of the source.
\<close>

definition search_range :: "('r \<Rightarrow> bool) \<Rightarrow> ('r \<Rightarrow> bool) \<Rightarrow> 'r list \<Rightarrow> 'r option" where
  "search_range end_ge start_le rs =
     (let i = go_search (length rs) (\<lambda>i. end_ge (rs ! i)) in
      if i < length rs \<and> start_le (rs ! i) then Some (rs ! i) else None)"

definition cmp128 :: "u64 \<Rightarrow> u64 \<Rightarrow> u64 \<Rightarrow> u64 \<Rightarrow> int" where
  "cmp128 ah al bh bl =
     (if ah < bh then -1 else if ah > bh then 1
      else if al < bl then -1 else if al > bl then 1 else 0)"

definition cc_string :: "char \<times> char \<Rightarrow> string" where
  "cc_string cc = [fst cc, snd cc]"

text \<open>A row with a zero country byte answers "not found"; \<open>None\<close> is \<open>("", Meta{}, false)\<close>.\<close>

definition row_answer ::
  "char \<times> char \<Rightarrow> registry_id \<Rightarrow> status \<Rightarrow> u32 \<Rightarrow> (string \<times> meta) option" where
  "row_answer cc reg st date =
     (if fst cc = CHR 0x00 then None
      else Some (cc_string cc,
                 \<lparr>m_Registry = registry_string reg, m_Status = st, m_Date = days_to_time date,
                  m_CIDR = []\<rparr>))"

definition v4_answer :: "v4range \<Rightarrow> (string \<times> meta) option" where
  "v4_answer r = row_answer (v4_CC r) (v4_Registry r) (v4_Status r) (v4_Date r)"

definition v6_answer :: "v6range \<Rightarrow> (string \<times> meta) option" where
  "v6_answer r = row_answer (v6_CC r) (v6_Registry r) (v6_Status r) (v6_Date r)"

definition asn_answer :: "asnrange \<Rightarrow> (string \<times> meta) option" where
  "asn_answer r = row_answer (asn_CC r) (asn_Registry r) (asn_Status r) (asn_Date r)"

definition v4_end_ge :: "u32 \<Rightarrow> v4range \<Rightarrow> bool" where
  "v4_end_ge u r \<longleftrightarrow> u \<le> v4_End r"

definition v4_start_le :: "u32 \<Rightarrow> v4range \<Rightarrow> bool" where
  "v4_start_le u r \<longleftrightarrow> v4_Start r \<le> u"

definition v6_end_ge :: "u64 \<times> u64 \<Rightarrow> v6range \<Rightarrow> bool" where
  "v6_end_ge q r \<longleftrightarrow> 0 \<le> cmp128 (v6_EndHi r) (v6_EndLo r) (fst q) (snd q)"

definition v6_start_le :: "u64 \<times> u64 \<Rightarrow> v6range \<Rightarrow> bool" where
  "v6_start_le q r \<longleftrightarrow> cmp128 (v6_StartHi r) (v6_StartLo r) (fst q) (snd q) \<le> 0"

definition asn_end_ge :: "u32 \<Rightarrow> asnrange \<Rightarrow> bool" where
  "asn_end_ge n r \<longleftrightarrow> n \<le> asn_End r"

definition asn_start_le :: "u32 \<Rightarrow> asnrange \<Rightarrow> bool" where
  "asn_start_le n r \<longleftrightarrow> asn_Start r \<le> n"

definition lookup_ip :: "rir_db \<Rightarrow> addr \<Rightarrow> (string \<times> meta) option" where
  "lookup_ip db ip =
     (case unmap ip of
        Addr4 u \<Rightarrow>
          (case search_range (v4_end_ge u) (v4_start_le u) (db_V4 db) of
             None \<Rightarrow> None | Some r \<Rightarrow> v4_answer r)
      | Addr6 w _ \<Rightarrow>
          (case search_range (v6_end_ge (addr_hi w, addr_lo w)) (v6_start_le (addr_hi w, addr_lo w))
                  (db_V6 db) of
             None \<Rightarrow> None | Some r \<Rightarrow> v6_answer r)
      | AddrZero \<Rightarrow> None)"

definition lookup_asn :: "rir_db \<Rightarrow> u32 \<Rightarrow> (string \<times> meta) option" where
  "lookup_asn db n =
     (case search_range (asn_end_ge n) (asn_start_le n) (db_ASN db) of
        None \<Rightarrow> None | Some r \<Rightarrow> asn_answer r)"

section \<open>Building\<close>

text \<open>\<open>parseUint32\<close>: the value wraps at \<open>2 ^ 32\<close> and the empty string is zero.\<close>

fun parse_uint32_loop :: "u32 \<Rightarrow> string \<Rightarrow> u32 option" where
  "parse_uint32_loop n [] = Some n"
| "parse_uint32_loop n (c # s) =
     (if is_digit c then parse_uint32_loop (n * 10 + to_word (digit_val c)) s else None)"

definition parse_uint32 :: "string \<Rightarrow> u32 option" where
  "parse_uint32 s = parse_uint32_loop 0 s"

definition prefix_end128 :: "u64 \<Rightarrow> u64 \<Rightarrow> nat \<Rightarrow> u64 \<times> u64" where
  "prefix_end128 hi lo bits =
     (if 128 \<le> bits then (hi, lo)
      else if bits \<le> 64 then (hi OR (push_bit (64 - bits) 1 - 1), NOT 0)
      else (hi, lo OR (push_bit (128 - bits) 1 - 1)))"

definition build_v4 ::
  "rir_record \<Rightarrow> char \<times> char \<Rightarrow> rir_db \<Rightarrow> rir_error option \<times> rir_db" where
  "build_v4 rec cc db =
     (case parse_addr (rc_Start rec) of
        Some (Addr4 w) \<Rightarrow>
          let u = v4_to_u32 (Addr4 w) in
          if rc_Value rec = 0 then (None, db)
          else (None, db\<lparr>db_V4 := db_V4 db @
            [\<lparr>v4_Start = u, v4_End = u + ucast (rc_Value rec) - 1, v4_CC = cc,
              v4_Registry = registry_from_string (rc_Registry rec),
              v4_Status = rc_Status rec, v4_Date = time_to_days (rc_Date rec)\<rparr>]\<rparr>)
      | _ \<Rightarrow> (Some (ErrV4Start (rc_Start rec)), db))"

definition build_v6 ::
  "rir_record \<Rightarrow> char \<times> char \<Rightarrow> rir_db \<Rightarrow> rir_error option \<times> rir_db" where
  "build_v6 rec cc db =
     (case parse_addr (rc_Start rec) of
        Some (Addr6 w _) \<Rightarrow>
          let hi = addr_hi w; lo = addr_lo w; prefix_len = unat (rc_Value rec) in
          if prefix_len = 0 \<or> 128 < prefix_len then (Some (ErrV6Prefix prefix_len), db)
          else
            let (eh, el) = prefix_end128 hi lo prefix_len in
            (None, db\<lparr>db_V6 := db_V6 db @
              [\<lparr>v6_StartHi = hi, v6_StartLo = lo, v6_EndHi = eh, v6_EndLo = el, v6_CC = cc,
                v6_Registry = registry_from_string (rc_Registry rec),
                v6_Status = rc_Status rec, v6_Date = time_to_days (rc_Date rec)\<rparr>]\<rparr>)
      | _ \<Rightarrow> (Some (ErrV6Start (rc_Start rec)), db))"

definition build_asn ::
  "rir_record \<Rightarrow> char \<times> char \<Rightarrow> rir_db \<Rightarrow> rir_error option \<times> rir_db" where
  "build_asn rec cc db =
     (case parse_uint32 (rc_Start rec) of
        None \<Rightarrow> (Some (ErrASNStart (rc_Start rec)), db)
      | Some start \<Rightarrow>
          if rc_Value rec = 0 then (None, db)
          else (None, db\<lparr>db_ASN := db_ASN db @
            [\<lparr>asn_Start = start, asn_End = start + ucast (rc_Value rec) - 1, asn_CC = cc,
              asn_Registry = registry_from_string (rc_Registry rec),
              asn_Status = rc_Status rec, asn_Date = time_to_days (rc_Date rec)\<rparr>]\<rparr>))"

text \<open>The callback \<open>Build\<close> hands to \<open>Parse\<close>.\<close>

definition build_record :: "rir_record \<Rightarrow> rir_db \<Rightarrow> rir_error option \<times> rir_db" where
  "build_record rec db =
     (if length (rc_CC rec) \<noteq> 2 then (None, db)
      else
        let cc = (rc_CC rec ! 0, rc_CC rec ! 1) in
        (case rc_Type rec of
           TypeIPv4 \<Rightarrow> build_v4 rec cc db
         | TypeIPv6 \<Rightarrow> build_v6 rec cc db
         | TypeASN \<Rightarrow> build_asn rec cc db
         | TypeUnknown \<Rightarrow> (None, db)))"

definition key128 :: "u64 \<Rightarrow> u64 \<Rightarrow> nat" where
  "key128 hi lo = unat hi * 2 ^ 64 + unat lo"

text \<open>The \<open>less\<close> of the V6 sort is \<open>cmp128 \<dots> < 0\<close>: the order of \<open>key128\<close> (\<open>cmp128_less\<close>).\<close>

definition sort_db :: "rir_db \<Rightarrow> rir_db" where
  "sort_db db =
     \<lparr>db_V4 = slice_sort v4_Start (db_V4 db),
      db_V6 = slice_sort (\<lambda>r. key128 (v6_StartHi r) (v6_StartLo r)) (db_V6 db),
      db_ASN = slice_sort asn_Start (db_ASN db)\<rparr>"

definition new_parser :: parser where
  "new_parser = \<lparr>p_Header = empty_header, p_Skip = False\<rparr>"

definition build :: "string \<Rightarrow> rir_error + rir_db" where
  "build r =
     (case parse new_parser r build_record empty_db of
        (_, _, Some e, _) \<Rightarrow> Inl e
      | (_, _, None, db) \<Rightarrow> Inr (sort_db db))"

section \<open>Ordered and disjoint ranges\<close>

text \<open>
  What the binary search needs: every range ends after it starts, and each ends before the next
  starts.  \<open>disjoint_ranges\<close> states it of the rows in any order; sorting by start gives the first
  from the second.
\<close>

definition ordered_ranges :: "('r \<Rightarrow> 'k::linorder) \<Rightarrow> ('r \<Rightarrow> 'k) \<Rightarrow> 'r list \<Rightarrow> bool" where
  "ordered_ranges start fin rs \<longleftrightarrow>
     list_all (\<lambda>r. start r \<le> fin r) rs \<and> sorted_wrt (\<lambda>a b. fin a < start b) rs"

definition disjoint_ranges :: "('r \<Rightarrow> 'k::linorder) \<Rightarrow> ('r \<Rightarrow> 'k) \<Rightarrow> 'r list \<Rightarrow> bool" where
  "disjoint_ranges start fin rs \<longleftrightarrow>
     distinct rs \<and> list_all (\<lambda>r. start r \<le> fin r) rs \<and>
     list_all (\<lambda>a. list_all (\<lambda>b. a = b \<or> fin a < start b \<or> fin b < start a) rs) rs"

lemma distinct_slice_sort [simp]: "distinct (slice_sort key xs) = distinct xs"
  by (simp add: slice_sort_def)

lemma ordered_slice_sort:
  assumes "disjoint_ranges start fin rs"
  shows "ordered_ranges start fin (slice_sort start rs)"
proof -
  let ?s = "slice_sort start rs"
  have wf: "\<And>r. r \<in> set rs \<Longrightarrow> start r \<le> fin r"
    and dis: "\<And>a b. a \<in> set rs \<Longrightarrow> b \<in> set rs \<Longrightarrow> a \<noteq> b \<Longrightarrow> fin a < start b \<or> fin b < start a"
    and d: "distinct ?s"
    using assms by (auto simp: disjoint_ranges_def list_all_iff)
  have "fin (?s ! i) < start (?s ! j)" if ij: "i < j" "j < length ?s" for i j
  proof -
    have m: "?s ! i \<in> set rs" "?s ! j \<in> set rs"
      using ij nth_mem[of i ?s] nth_mem[of j ?s] by simp_all
    have "?s ! i \<noteq> ?s ! j" using d ij by (simp add: nth_eq_iff_index_eq)
    moreover have "start (?s ! i) \<le> start (?s ! j)"
      using sorted_nth_mono[of "map start ?s" i j] ij by simp
    ultimately show ?thesis using dis[OF m] wf[OF m(2)] by auto
  qed
  then have "sorted_wrt (\<lambda>a b. fin a < start b) ?s" by (simp add: sorted_wrt_iff_nth_less)
  then show ?thesis using wf by (simp add: ordered_ranges_def list_all_iff)
qed

section \<open>The contract of a range lookup\<close>

text \<open>
  The client's view: a query has a key, and the two tests of the search compare it with the ends of a
  row.  From these laws follow that a row found covers the query, and that over ordered ranges the
  search is a linear scan for the row that covers it.
\<close>

locale range_lookup =
  fixes end_ge :: "'q \<Rightarrow> 'r \<Rightarrow> bool"
    and start_le :: "'q \<Rightarrow> 'r \<Rightarrow> bool"
    and start :: "'r \<Rightarrow> 'k::linorder"
    and fin :: "'r \<Rightarrow> 'k"
    and qkey :: "'q \<Rightarrow> 'k"
  assumes end_ge_iff: "end_ge q r \<longleftrightarrow> qkey q \<le> fin r"
    and start_le_iff: "start_le q r \<longleftrightarrow> start r \<le> qkey q"
begin

lemma search_sound:
  assumes "search_range (end_ge q) (start_le q) rs = Some r"
  shows "r \<in> set rs" "start r \<le> qkey q" "qkey q \<le> fin r"
proof -
  let ?i = "go_search (length rs) (\<lambda>i. end_ge q (rs ! i))"
  have i: "?i < length rs" "start_le q (rs ! ?i)" "r = rs ! ?i"
    using assms by (auto simp: search_range_def Let_def split: if_splits)
  then show "r \<in> set rs" "start r \<le> qkey q" using nth_mem by (auto simp: start_le_iff)
  show "qkey q \<le> fin r" using go_search_sat[OF i(1)] i(3) by (simp add: end_ge_iff)
qed

lemma ordered_fin_mono:
  assumes "ordered_ranges start fin rs" "i \<le> j" "j < length rs"
  shows "fin (rs ! i) \<le> fin (rs ! j)"
proof (cases "i = j")
  case False
  then have "fin (rs ! i) < start (rs ! j)"
    using assms by (simp add: ordered_ranges_def sorted_wrt_iff_nth_less)
  also have "\<dots> \<le> fin (rs ! j)" using assms(1,3) by (simp add: ordered_ranges_def list_all_length)
  finally show ?thesis by simp
qed simp

lemma search_find:
  assumes "ordered_ranges start fin rs"
  shows "search_range (end_ge q) (start_le q) rs = find (\<lambda>r. start r \<le> qkey q \<and> qkey q \<le> fin r) rs"
proof -
  let ?f = "\<lambda>i. end_ge q (rs ! i)" and ?cov = "\<lambda>r. start r \<le> qkey q \<and> qkey q \<le> fin r"
  let ?i = "go_search (length rs) ?f"
  have mono: "?f a \<Longrightarrow> ?f b" if "a \<le> b" "b < length rs" for a b
    using ordered_fin_mono[OF assms that] by (simp add: end_ge_iff)
  have below: "\<not> ?f k" if "k < ?i" for k
    by (rule go_search_least(1)[OF mono that])
  have above: "?f k" if "?i \<le> k" "k < length rs" for k
    by (rule go_search_least(2)[OF mono that])
  have only: "k = ?i" if k: "k < length rs" "?cov (rs ! k)" for k
  proof -
    have ge: "?i \<le> k" using below[of k] k by (cases "k < ?i") (auto simp: end_ge_iff)
    show ?thesis
    proof (rule ccontr)
      assume "k \<noteq> ?i"
      then have lt: "?i < k" using ge by simp
      have "qkey q \<le> fin (rs ! ?i)" using above[of ?i] lt k(1) by (simp add: end_ge_iff)
      also have "\<dots> < start (rs ! k)"
        using assms lt k(1) by (simp add: ordered_ranges_def sorted_wrt_iff_nth_less)
      finally show False using k(2) by (simp add: leD)
    qed
  qed
  show ?thesis
  proof (cases "?i < length rs \<and> start_le q (rs ! ?i)")
    case True
    have cov: "?cov (rs ! ?i)"
      using True above[of ?i] by (simp add: end_ge_iff start_le_iff)
    have "find ?cov rs = Some (rs ! ?i)"
    proof (rule find_Some_unique)
      fix y
      assume "y \<in> set rs" "?cov y"
      then show "y = rs ! ?i" using only by (metis in_set_conv_nth)
    qed (use True cov in auto)
    then show ?thesis using True by (simp add: search_range_def Let_def)
  next
    case False
    have "\<not> ?cov y" if y: "y \<in> set rs" for y
    proof
      assume c: "?cov y"
      obtain k where k: "k < length rs" "rs ! k = y" using y by (auto simp: in_set_conv_nth)
      with only c have "k = ?i" by blast
      with k c False show False by (auto simp: start_le_iff)
    qed
    then have "find ?cov rs = None" by (simp add: find_None_iff)
    then show ?thesis using False by (auto simp: search_range_def Let_def)
  qed
qed

text \<open>Over sorted rows the scan may as well run over the rows in the order they were built in.\<close>

lemma search_sorted_find:
  assumes "disjoint_ranges start fin rs"
  shows "search_range (end_ge q) (start_le q) (slice_sort start rs) =
    find (\<lambda>r. start r \<le> qkey q \<and> qkey q \<le> fin r) rs"
proof -
  have "find (\<lambda>r. start r \<le> qkey q \<and> qkey q \<le> fin r) (slice_sort start rs) =
      find (\<lambda>r. start r \<le> qkey q \<and> qkey q \<le> fin r) rs"
  proof (rule find_cong_mset)
    fix x y
    assume "x \<in> set (slice_sort start rs)" "y \<in> set (slice_sort start rs)"
      and "start x \<le> qkey q \<and> qkey q \<le> fin x" "start y \<le> qkey q \<and> qkey q \<le> fin y"
    then show "x = y" using assms by (fastforce simp: disjoint_ranges_def list_all_iff)
  qed simp
  then show ?thesis by (simp add: search_find[OF ordered_slice_sort[OF assms]])
qed

end

text \<open>\<open>cmp128\<close> is the three-way comparison of the 128-bit numbers the two words form.\<close>

lemma key128_less: "key128 ah al < key128 bh bl \<longleftrightarrow> ah < bh \<or> ah = bh \<and> al < bl"
proof -
  have "unat al < 2 ^ 64" "unat bl < 2 ^ 64" using unsigned_less[of al] unsigned_less[of bl] by simp_all
  then have "key128 ah al < key128 bh bl \<longleftrightarrow> unat ah < unat bh \<or> unat ah = unat bh \<and> unat al < unat bl"
    unfolding key128_def by auto
  then show ?thesis by (simp add: word_unat_eq_iff word_less_nat_alt)
qed

lemma key128_inject: "key128 ah al = key128 bh bl \<longleftrightarrow> ah = bh \<and> al = bl"
  using key128_less[of ah al bh bl] key128_less[of bh bl ah al] by (metis linorder_neq_iff)

lemma cmp128_sgn:
  "cmp128 ah al bh bl = sgn (int (key128 ah al) - int (key128 bh bl))"
  using key128_less[of ah al bh bl] key128_less[of bh bl ah al] key128_inject[of ah al bh bl]
  by (auto simp: cmp128_def sgn_if)

lemma cmp128_less: "cmp128 ah al bh bl < 0 \<longleftrightarrow> key128 ah al < key128 bh bl"
  by (simp add: cmp128_sgn sgn_if)

definition v6_start :: "v6range \<Rightarrow> nat" where
  "v6_start r = key128 (v6_StartHi r) (v6_StartLo r)"

definition v6_end :: "v6range \<Rightarrow> nat" where
  "v6_end r = key128 (v6_EndHi r) (v6_EndLo r)"

interpretation v4: range_lookup v4_end_ge v4_start_le v4_Start v4_End "\<lambda>u. u"
  by unfold_locales (simp_all add: v4_end_ge_def v4_start_le_def)

interpretation v6: range_lookup v6_end_ge v6_start_le v6_start v6_end "\<lambda>q. key128 (fst q) (snd q)"
  by unfold_locales (simp_all add: v6_end_ge_def v6_start_le_def v6_start_def v6_end_def cmp128_sgn sgn_if)

interpretation asn: range_lookup asn_end_ge asn_start_le asn_Start asn_End "\<lambda>n. n"
  by unfold_locales (simp_all add: asn_end_ge_def asn_start_le_def)

section \<open>What a build collects\<close>

text \<open>
  The rows a list of records stands for, one slice at a time, and the records a build accepts: the
  abstract counterpart of the callback.
\<close>

definition cc_pair :: "rir_record \<Rightarrow> char \<times> char" where
  "cc_pair rec = (rc_CC rec ! 0, rc_CC rec ! 1)"

definition v4_row :: "rir_record \<Rightarrow> v4range option" where
  "v4_row rec =
     (if rc_Type rec \<noteq> TypeIPv4 \<or> length (rc_CC rec) \<noteq> 2 \<or> rc_Value rec = 0 then None
      else (case parse_addr (rc_Start rec) of
        Some (Addr4 u) \<Rightarrow>
          Some \<lparr>v4_Start = u, v4_End = u + ucast (rc_Value rec) - 1, v4_CC = cc_pair rec,
                v4_Registry = registry_from_string (rc_Registry rec),
                v4_Status = rc_Status rec, v4_Date = time_to_days (rc_Date rec)\<rparr>
      | _ \<Rightarrow> None))"

definition v6_row :: "rir_record \<Rightarrow> v6range option" where
  "v6_row rec =
     (if rc_Type rec \<noteq> TypeIPv6 \<or> length (rc_CC rec) \<noteq> 2 then None
      else (case parse_addr (rc_Start rec) of
        Some (Addr6 w _) \<Rightarrow>
          (let e = prefix_end128 (addr_hi w) (addr_lo w) (unat (rc_Value rec)) in
           Some \<lparr>v6_StartHi = addr_hi w, v6_StartLo = addr_lo w, v6_EndHi = fst e, v6_EndLo = snd e,
                 v6_CC = cc_pair rec, v6_Registry = registry_from_string (rc_Registry rec),
                 v6_Status = rc_Status rec, v6_Date = time_to_days (rc_Date rec)\<rparr>)
      | _ \<Rightarrow> None))"

definition asn_row :: "rir_record \<Rightarrow> asnrange option" where
  "asn_row rec =
     (if rc_Type rec \<noteq> TypeASN \<or> length (rc_CC rec) \<noteq> 2 \<or> rc_Value rec = 0 then None
      else (case parse_uint32 (rc_Start rec) of
        Some n \<Rightarrow>
          Some \<lparr>asn_Start = n, asn_End = n + ucast (rc_Value rec) - 1, asn_CC = cc_pair rec,
                asn_Registry = registry_from_string (rc_Registry rec),
                asn_Status = rc_Status rec, asn_Date = time_to_days (rc_Date rec)\<rparr>
      | None \<Rightarrow> None))"

fun collect_rows :: "('a \<Rightarrow> 'b option) \<Rightarrow> 'a list \<Rightarrow> 'b list" where
  "collect_rows f [] = []"
| "collect_rows f (x # xs) = (case f x of None \<Rightarrow> collect_rows f xs | Some y \<Rightarrow> y # collect_rows f xs)"

definition buildable :: "rir_record \<Rightarrow> bool" where
  "buildable rec \<longleftrightarrow>
     length (rc_CC rec) \<noteq> 2 \<or>
     (case rc_Type rec of
        TypeIPv4 \<Rightarrow> (case parse_addr (rc_Start rec) of Some a \<Rightarrow> is4 a | None \<Rightarrow> False)
      | TypeIPv6 \<Rightarrow> (case parse_addr (rc_Start rec) of Some a \<Rightarrow> is6 a | None \<Rightarrow> False)
          \<and> 1 \<le> unat (rc_Value rec) \<and> unat (rc_Value rec) \<le> 128
      | TypeASN \<Rightarrow> list_all is_digit (rc_Start rec)
      | TypeUnknown \<Rightarrow> True)"

definition built_records :: "string \<Rightarrow> rir_record list" where
  "built_records r = fst (record_stream False r)"

lemma parse_uint32_loop_eq:
  "parse_uint32_loop n s =
     (if list_all is_digit s
      then Some (foldl (\<lambda>n c. n * 10 + to_word (digit_val c)) n s) else None)"
  by (induction s arbitrary: n) auto

lemma parse_uint32_digits:
  "foldl (\<lambda>n c. n * 10 + to_word (digit_val c)) (to_word k :: u32) s =
   to_word (foldl (\<lambda>n c. n * 10 + digit_val c) k s)"
proof (induction s arbitrary: k)
  case (Cons c s)
  have "(to_word k :: u32) * 10 + to_word (digit_val c) = to_word (k * 10 + digit_val c)"
    by (simp add: to_word_eq)
  then show ?case using Cons.IH[of "k * 10 + digit_val c"] by simp
qed simp

lemma parse_uint32_eq:
  "parse_uint32 s = (if list_all is_digit s then Some (to_word (digits_val s)) else None)"
proof -
  have z: "(to_word 0 :: u32) = 0" by (simp add: to_word_def)
  show ?thesis
    using parse_uint32_digits[of 0 s]
    by (simp add: parse_uint32_def parse_uint32_loop_eq digits_val_def z)
qed

lemma build_record_ok_iff: "fst (build_record rec db) = None \<longleftrightarrow> buildable rec"
  by (auto simp: build_record_def buildable_def build_v4_def build_v6_def build_asn_def Let_def
      parse_uint32_eq Suc_le_eq word_gt_0 unat_gt_0 unat_eq_zero
      split: record_type.split option.split addr.split prod.split)

lemma build_record_rows:
  assumes "build_record rec db = (None, db')"
  shows "db_V4 db' = db_V4 db @ (case v4_row rec of None \<Rightarrow> [] | Some x \<Rightarrow> [x])"
    and "db_V6 db' = db_V6 db @ (case v6_row rec of None \<Rightarrow> [] | Some x \<Rightarrow> [x])"
    and "db_ASN db' = db_ASN db @ (case asn_row rec of None \<Rightarrow> [] | Some x \<Rightarrow> [x])"
  using assms
  by (auto simp: build_record_def build_v4_def build_v6_def build_asn_def v4_row_def v6_row_def
      asn_row_def cc_pair_def v4_to_u32_def Let_def
      split: if_splits record_type.splits option.splits addr.splits prod.splits)

lemma run_build_rows:
  "run_records build_record recs n db = (None, m, db') \<Longrightarrow>
     db_V4 db' = db_V4 db @ collect_rows v4_row recs \<and>
     db_V6 db' = db_V6 db @ collect_rows v6_row recs \<and>
     db_ASN db' = db_ASN db @ collect_rows asn_row recs"
proof (induction recs arbitrary: n db)
  case (Cons rec recs)
  from Cons.prems obtain db1 where b: "build_record rec db = (None, db1)"
    and r: "run_records build_record recs (Suc n) db1 = (None, m, db')"
    by (auto split: prod.splits option.splits)
  from Cons.IH[OF r] build_record_rows[OF b] show ?case by (auto split: option.splits)
qed simp

lemma run_build_ok:
  "fst (run_records build_record recs n db) = None \<longleftrightarrow> list_all buildable recs"
proof (induction recs arbitrary: n db)
  case (Cons rec recs)
  obtain e db1 where b: "build_record rec db = (e, db1)" by fastforce
  then have "e = None \<longleftrightarrow> buildable rec" using build_record_ok_iff[of rec db] by simp
  with b Cons.IH show ?case by (cases e) simp_all
qed simp

text \<open>The build refines its abstract view.\<close>

lemma build_refines:
  "build r =
     (case record_stream False r of (recs, e) \<Rightarrow>
        (case run_records build_record recs 0 empty_db of
           (Some x, _, _) \<Rightarrow> Inl x
         | (None, _, _) \<Rightarrow>
             (case e of Some x \<Rightarrow> Inl x
              | None \<Rightarrow> Inr (sort_db \<lparr>db_V4 = collect_rows v4_row recs,
                                     db_V6 = collect_rows v6_row recs,
                                     db_ASN = collect_rows asn_row recs\<rparr>))))"
proof -
  obtain recs e where rs: "record_stream False r = (recs, e)" by fastforce
  obtain e' n db where run: "run_records build_record recs 0 empty_db = (e', n, db)"
    by (cases "run_records build_record recs 0 empty_db") auto
  have p: "snd (parse new_parser r build_record empty_db) =
      (n, case e' of None \<Rightarrow> e | Some x \<Rightarrow> Some x, db)"
    by (rule parse_run) (use rs run in \<open>simp_all add: new_parser_def\<close>)
  obtain p' where q: "parse new_parser r build_record empty_db =
      (p', n, case e' of None \<Rightarrow> e | Some x \<Rightarrow> Some x, db)"
    using p by (metis prod.collapse)
  show ?thesis
  proof (cases e')
    case None
    have "db = \<lparr>db_V4 = collect_rows v4_row recs, db_V6 = collect_rows v6_row recs,
        db_ASN = collect_rows asn_row recs\<rparr>"
      using run_build_rows[OF run[unfolded None]] by (simp add: empty_db_def)
    with None q rs run show ?thesis by (auto simp: build_def split: option.splits)
  next
    case (Some x)
    with q rs run show ?thesis by (simp add: build_def)
  qed
qed

lemma build_InrD:
  assumes "build r = Inr db"
  shows "db = sort_db \<lparr>db_V4 = collect_rows v4_row (built_records r),
      db_V6 = collect_rows v6_row (built_records r),
      db_ASN = collect_rows asn_row (built_records r)\<rparr>"
    and "snd (record_stream False r) = None" and "list_all buildable (built_records r)"
  using assms run_build_ok[of "fst (record_stream False r)" 0 empty_db]
  by (auto simp: build_refines built_records_def split: prod.splits option.splits)

section \<open>The last address of a prefix\<close>

lemma unat_or_mask:
  fixes w :: "'a::len word"
  assumes "n \<le> LENGTH('a)"
  shows "unat (w OR (push_bit n 1 - 1)) = (unat w div 2 ^ n) * 2 ^ n + (2 ^ n - 1)"
proof -
  have m: "push_bit n 1 - 1 = (mask n :: 'a word)" by (simp add: mask_eq_decr_exp push_bit_eq_mult)
  have "unat (w OR mask n) = unat w OR mask n"
  proof -
    have "unat (mask n :: 'a word) = mask n"
      by (rule bit_eqI) (use assms in \<open>auto simp: bit_simps\<close>)
    then show ?thesis by (simp add: unsigned_or_eq)
  qed
  also have "\<dots> = push_bit n (drop_bit n (unat w)) + mask n"
  proof -
    have "unat w OR mask n = push_bit n (drop_bit n (unat w)) OR mask n"
      by (rule bit_eqI) (auto simp: bit_simps)
    also have "\<dots> = push_bit n (drop_bit n (unat w)) + mask n"
      by (rule disjunctive_add[symmetric]) (auto simp: bit_simps)
    finally show ?thesis .
  qed
  finally show ?thesis by (simp add: m push_bit_eq_mult drop_bit_eq_div mask_eq_exp_minus_1)
qed

lemma prefix_end128_key:
  assumes "bits \<le> 128" and "prefix_end128 hi lo bits = (eh, el)"
  shows "key128 eh el = (key128 hi lo div 2 ^ (128 - bits)) * 2 ^ (128 - bits) + (2 ^ (128 - bits) - 1)"
proof -
  have lo: "unat lo < 2 ^ 64" using unsigned_less[of lo] by simp
  consider "bits = 128" | "bits \<le> 64" | "64 < bits" "bits < 128" using assms(1) by linarith
  then show ?thesis
  proof cases
    case 1
    then show ?thesis using assms(2) by (simp add: prefix_end128_def)
  next
    case 2
    define k where "k = 64 - bits"
    have k: "k \<le> 64" "128 - bits = k + 64" "64 - bits = k" using 2 by (simp_all add: k_def)
    have e: "eh = hi OR (push_bit k 1 - 1)" "el = NOT 0"
      using assms(2) 2 k(3) by (simp_all add: prefix_end128_def)
    have "unat el = 2 ^ 64 - 1"
      using e(2) by (simp add: unsigned_minus_1_eq_mask mask_eq_exp_minus_1)
    moreover have "unat eh = (unat hi div 2 ^ k) * 2 ^ k + (2 ^ k - 1)"
      using unat_or_mask[of k hi] k(1) e(1) by simp
    moreover have "key128 hi lo div 2 ^ (k + 64) = unat hi div 2 ^ k"
    proof -
      have "key128 hi lo div 2 ^ (k + 64) = key128 hi lo div 2 ^ 64 div 2 ^ k"
        by (simp only: power_add mult.commute[of "2 ^ k"] div_mult2_eq)
      also have "key128 hi lo div 2 ^ 64 = unat hi" using lo by (simp add: key128_def)
      finally show ?thesis .
    qed
    moreover have "(q * 2 ^ k + (2 ^ k - 1)) * 2 ^ 64 + (2 ^ 64 - 1)
        = q * (2 ^ k * 2 ^ 64) + (2 ^ k * 2 ^ 64 - (1::nat))" for q
    proof -
      obtain p where p: "(2::nat) ^ k = Suc p" using not0_implies_Suc[of "(2::nat) ^ k"] by auto
      show ?thesis unfolding p by (simp add: algebra_simps)
    qed
    ultimately show ?thesis by (simp add: key128_def[of eh el] k(2) power_add)
  next
    case 3
    define k where "k = 128 - bits"
    have k: "k < 64" "128 - bits = k" using 3 by (simp_all add: k_def)
    have e: "eh = hi" "el = lo OR (push_bit k 1 - 1)"
      using assms(2) 3 k(2) by (simp_all add: prefix_end128_def)
    have l: "unat el = (unat lo div 2 ^ k) * 2 ^ k + (2 ^ k - 1)"
      using unat_or_mask[of k lo] k(1) e(2) by simp
    have "(2::nat) ^ 64 = 2 ^ (64 - k) * 2 ^ k" using k(1) by (simp flip: power_add)
    then have "key128 hi lo = unat lo + (unat hi * 2 ^ (64 - k)) * 2 ^ k"
      by (simp add: key128_def)
    then have "key128 hi lo div 2 ^ k = unat lo div 2 ^ k + unat hi * 2 ^ (64 - k)" by simp
    then have "(key128 hi lo div 2 ^ k) * 2 ^ k
        = (unat lo div 2 ^ k) * 2 ^ k + unat hi * (2 ^ (64 - k) * 2 ^ k)"
      by (simp add: algebra_simps)
    also have "2 ^ (64 - k) * 2 ^ k = (2::nat) ^ 64" using k(1) by (simp flip: power_add)
    finally have "(key128 hi lo div 2 ^ k) * 2 ^ k = (unat lo div 2 ^ k) * 2 ^ k + unat hi * 2 ^ 64" .
    moreover obtain p where p: "(2::nat) ^ k = Suc p"
      using not0_implies_Suc[of "(2::nat) ^ k"] by auto
    ultimately show ?thesis using e(1) l by (simp add: key128_def[of hi el] k(2) p)
  qed
qed

section \<open>Properties\<close>

definition covers_v4 :: "u32 \<Rightarrow> v4range \<Rightarrow> bool" where
  "covers_v4 u r \<longleftrightarrow> v4_Start r \<le> u \<and> u \<le> v4_End r"

definition covers_v6 :: "u128 \<Rightarrow> v6range \<Rightarrow> bool" where
  "covers_v6 w r \<longleftrightarrow> v6_start r \<le> unat w \<and> unat w \<le> v6_end r"

definition covers_asn :: "u32 \<Rightarrow> asnrange \<Rightarrow> bool" where
  "covers_asn n r \<longleftrightarrow> asn_Start r \<le> n \<and> n \<le> asn_End r"

lemma key128_addr: "key128 (addr_hi w) (addr_lo w) = unat w"
proof -
  have "unat (addr_hi w) = unat w div 2 ^ 64"
  proof -
    have "unat w div 2 ^ 64 < 2 ^ 64"
      using unsigned_less[of w] by (simp add: div_less_iff_less_mult)
    then show ?thesis
      by (simp add: addr_hi_def unsigned_ucast_eq take_bit_eq_mod drop_bit_eq_div unat_div)
  qed
  moreover have "unat (addr_lo w) = unat w mod 2 ^ 64"
    by (simp add: addr_lo_def unsigned_ucast_eq take_bit_eq_mod)
  ultimately show ?thesis by (simp add: key128_def)
qed

text \<open>
  C8: Whatever database is searched, a country that \<open>LookupIP\<close> returns is the country of a row of
  the slice of the address's family whose inclusive range contains the address; an answer is never
  taken from a row that does not cover the query.
\<close>

theorem lookup_ip_sound:
  assumes "lookup_ip db ip = Some (cc, m)"
  shows "(\<exists>u r. unmap ip = Addr4 u \<and> r \<in> set (db_V4 db) \<and> covers_v4 u r \<and> cc = cc_string (v4_CC r)
            \<and> m_Registry m = registry_string (v4_Registry r) \<and> m_Status m = v4_Status r)
       \<or> (\<exists>w z r. unmap ip = Addr6 w z \<and> r \<in> set (db_V6 db) \<and> covers_v6 w r \<and> cc = cc_string (v6_CC r)
            \<and> m_Registry m = registry_string (v6_Registry r) \<and> m_Status m = v6_Status r)"
proof (cases "unmap ip")
  case AddrZero
  then show ?thesis using assms by (simp add: lookup_ip_def)
next
  case (Addr4 u)
  then obtain r where r: "search_range (v4_end_ge u) (v4_start_le u) (db_V4 db) = Some r"
    "v4_answer r = Some (cc, m)"
    using assms by (auto simp: lookup_ip_def split: option.splits)
  show ?thesis
    using v4.search_sound[OF r(1)] r(2) Addr4
    by (auto simp: covers_v4_def v4_answer_def row_answer_def split: if_splits)
next
  case (Addr6 w z)
  then obtain r where r: "search_range (v6_end_ge (addr_hi w, addr_lo w))
      (v6_start_le (addr_hi w, addr_lo w)) (db_V6 db) = Some r"
    "v6_answer r = Some (cc, m)"
    using assms by (auto simp: lookup_ip_def split: option.splits)
  show ?thesis
    using v6.search_sound[OF r(1)] r(2) Addr6
    by (auto simp: covers_v6_def key128_addr v6_answer_def row_answer_def split: if_splits)
qed

definition sample_db :: rir_db where
  "sample_db = \<lparr>
     db_V4 = [\<lparr>v4_Start = 0x01000000, v4_End = 0x010000FF, v4_CC = (CHR ''A'', CHR ''U''),
               v4_Registry = RegAPNIC, v4_Status = StatusAssigned, v4_Date = 15000\<rparr>,
              \<lparr>v4_Start = 0x0A000000, v4_End = 0x0A0000FF, v4_CC = (CHR ''I'', CHR ''D''),
               v4_Registry = RegAPNIC, v4_Status = StatusAllocated, v4_Date = 0\<rparr>],
     db_V6 = [], db_ASN = []\<rparr>"

theorem lookup_ip_sound_witness:
  "\<exists>r. r \<in> set (db_V4 sample_db) \<and> covers_v4 0x0A000007 r \<and> ''ID'' = cc_string (v4_CC r)"
proof -
  have "lookup_ip sample_db (Addr4 0x0A000007) =
      Some (''ID'', \<lparr>m_Registry = ''apnic'', m_Status = 1, m_Date = zero_date * day_ns, m_CIDR = []\<rparr>)"
    by code_simp
  from lookup_ip_sound[OF this] show ?thesis by auto
qed

lemma lookup_scan_v4:
  assumes "build r = Inr db"
    and "disjoint_ranges v4_Start v4_End (collect_rows v4_row (built_records r))"
    and "unmap ip = Addr4 u"
  shows "lookup_ip db ip =
    Option.bind (find (covers_v4 u) (collect_rows v4_row (built_records r))) v4_answer"
proof -
  have "db_V4 db = slice_sort v4_Start (collect_rows v4_row (built_records r))"
    using build_InrD(1)[OF assms(1)] by (simp add: sort_db_def)
  then show ?thesis
    using v4.search_sorted_find[OF assms(2), of u] assms(3)
    by (simp add: lookup_ip_def covers_v4_def[abs_def] Option.bind_def split: option.splits)
qed

text \<open>
  C1: End to end over a delegated file: when \<open>Build\<close> accepts the input and the IPv4 ranges its records
  stand for do not overlap, \<open>LookupIP\<close> of an IPv4 address (also written as an IPv4-mapped IPv6 address)
  answers exactly what a linear scan of the file's records for the range that contains it answers, "no
  match" included.
\<close>

theorem build_lookup_v4:
  assumes "build r = Inr db"
    and "disjoint_ranges v4_Start v4_End (collect_rows v4_row (built_records r))"
    and "unmap ip = Addr4 u"
  shows "lookup_ip db ip =
    Option.bind (find (covers_v4 u) (collect_rows v4_row (built_records r))) v4_answer"
  by (rule lookup_scan_v4[OF assms])

definition sample_file :: string where
  "sample_file =
     ''2|apnic|20240101|4|19830613|20240101|+1000'' @ [CHR 0x0A] @
     ''apnic|*|ipv4|*|2|summary'' @ [CHR 0x0A] @
     ''apnic|JP|ipv4|10.0.1.0|256|20110811|assigned'' @ [CHR 0x0A] @
     ''apnic|AU|ipv4|10.0.0.0|256|20110811|assigned|A91872ED'' @ [CHR 0x0A] @
     ''apnic|ID|ipv6|2001:db8::|32|20120210|allocated'' @ [CHR 0x0A] @
     ''apnic|CN|asn|4608|4|20020801|allocated'' @ [CHR 0x0A]"

definition sample_records :: "rir_record list" where
  "sample_records =
     [\<lparr>rc_Registry = ''apnic'', rc_CC = ''JP'', rc_Type = TypeIPv4, rc_Start = ''10.0.1.0'', rc_Value = 256,
       rc_Date = 15197, rc_Status = 2, rc_OpaqueID = []\<rparr>,
      \<lparr>rc_Registry = ''apnic'', rc_CC = ''AU'', rc_Type = TypeIPv4, rc_Start = ''10.0.0.0'', rc_Value = 256,
       rc_Date = 15197, rc_Status = 2, rc_OpaqueID = ''A91872ED''\<rparr>,
      \<lparr>rc_Registry = ''apnic'', rc_CC = ''ID'', rc_Type = TypeIPv6, rc_Start = ''2001:db8::'', rc_Value = 32,
       rc_Date = 15380, rc_Status = 1, rc_OpaqueID = []\<rparr>,
      \<lparr>rc_Registry = ''apnic'', rc_CC = ''CN'', rc_Type = TypeASN, rc_Start = ''4608'', rc_Value = 4,
       rc_Date = 11900, rc_Status = 1, rc_OpaqueID = []\<rparr>]"

lemma sample_stream: "record_stream False sample_file = (sample_records, None)"
  by code_simp

lemma sample_v4_rows:
  "collect_rows v4_row sample_records =
     [\<lparr>v4_Start = 0x0A000100, v4_End = 0x0A0001FF, v4_CC = (CHR ''J'', CHR ''P''), v4_Registry = 1, v4_Status = 2, v4_Date = 15197\<rparr>,
      \<lparr>v4_Start = 0x0A000000, v4_End = 0x0A0000FF, v4_CC = (CHR ''A'', CHR ''U''), v4_Registry = 1, v4_Status = 2, v4_Date = 15197\<rparr>]"
  by code_simp

lemma sample_v6_rows:
  "collect_rows v6_row sample_records =
     [\<lparr>v6_StartHi = 0x20010DB800000000, v6_StartLo = 0, v6_EndHi = 0x20010DB8FFFFFFFF, v6_EndLo = 0xFFFFFFFFFFFFFFFF,
       v6_CC = (CHR ''I'', CHR ''D''), v6_Registry = 1, v6_Status = 1, v6_Date = 15380\<rparr>]"
proof -
  have p: "parse_addr ''2001:db8::'' = Some (Addr6 0x20010DB8000000000000000000000000 [])"
    "addr_hi 0x20010DB8000000000000000000000000 = 0x20010DB800000000" "addr_lo 0x20010DB8000000000000000000000000 = 0"
    "registry_from_string ''apnic'' = 1" "time_to_days 15380 = 15380"
    by code_simp+
  have e: "prefix_end128 0x20010DB800000000 0 32 = (0x20010DB8FFFFFFFF, 0xFFFFFFFFFFFFFFFF)"
    by (simp add: prefix_end128_def)
  show ?thesis by (simp add: sample_records_def v6_row_def p e cc_pair_def Let_def)
qed

lemma sample_asn_rows:
  "collect_rows asn_row sample_records =
     [\<lparr>asn_Start = 4608, asn_End = 4611, asn_CC = (CHR ''C'', CHR ''N''), asn_Registry = 1, asn_Status = 1, asn_Date = 11900\<rparr>]"
  by code_simp

lemma sample_run: "fst (run_records build_record sample_records 0 empty_db) = None"
  unfolding run_build_ok by code_simp

lemma sample_build:
  "build sample_file = Inr \<lparr>
     db_V4 = [\<lparr>v4_Start = 0x0A000000, v4_End = 0x0A0000FF, v4_CC = (CHR ''A'', CHR ''U''),
               v4_Registry = 1, v4_Status = 2, v4_Date = 15197\<rparr>,
              \<lparr>v4_Start = 0x0A000100, v4_End = 0x0A0001FF, v4_CC = (CHR ''J'', CHR ''P''),
               v4_Registry = 1, v4_Status = 2, v4_Date = 15197\<rparr>],
     db_V6 = [\<lparr>v6_StartHi = 0x20010DB800000000, v6_StartLo = 0, v6_EndHi = 0x20010DB8FFFFFFFF,
               v6_EndLo = 0xFFFFFFFFFFFFFFFF, v6_CC = (CHR ''I'', CHR ''D''), v6_Registry = 1,
               v6_Status = 1, v6_Date = 15380\<rparr>],
     db_ASN = [\<lparr>asn_Start = 4608, asn_End = 4611, asn_CC = (CHR ''C'', CHR ''N''),
                asn_Registry = 1, asn_Status = 1, asn_Date = 11900\<rparr>]\<rparr>"
proof -
  have "sort_db \<lparr>db_V4 = collect_rows v4_row sample_records, db_V6 = collect_rows v6_row sample_records,
      db_ASN = collect_rows asn_row sample_records\<rparr> = \<lparr>
     db_V4 = [\<lparr>v4_Start = 0x0A000000, v4_End = 0x0A0000FF, v4_CC = (CHR ''A'', CHR ''U''),
               v4_Registry = 1, v4_Status = 2, v4_Date = 15197\<rparr>,
              \<lparr>v4_Start = 0x0A000100, v4_End = 0x0A0001FF, v4_CC = (CHR ''J'', CHR ''P''),
               v4_Registry = 1, v4_Status = 2, v4_Date = 15197\<rparr>],
     db_V6 = [\<lparr>v6_StartHi = 0x20010DB800000000, v6_StartLo = 0, v6_EndHi = 0x20010DB8FFFFFFFF,
               v6_EndLo = 0xFFFFFFFFFFFFFFFF, v6_CC = (CHR ''I'', CHR ''D''), v6_Registry = 1,
               v6_Status = 1, v6_Date = 15380\<rparr>],
     db_ASN = [\<lparr>asn_Start = 4608, asn_End = 4611, asn_CC = (CHR ''C'', CHR ''N''),
                asn_Registry = 1, asn_Status = 1, asn_Date = 11900\<rparr>]\<rparr>"
    unfolding sample_v4_rows sample_v6_rows sample_asn_rows by code_simp
  moreover obtain n db where "run_records build_record sample_records 0 empty_db = (None, n, db)"
    using sample_run by (metis prod.collapse)
  ultimately show ?thesis by (simp add: build_refines sample_stream)
qed

lemma sample_rows:
  "disjoint_ranges v4_Start v4_End (collect_rows v4_row (built_records sample_file))"
  "disjoint_ranges v6_start v6_end (collect_rows v6_row (built_records sample_file))"
  "disjoint_ranges asn_Start asn_End (collect_rows asn_row (built_records sample_file))"
  unfolding built_records_def sample_stream fst_conv sample_v4_rows sample_v6_rows sample_asn_rows by code_simp+

theorem build_lookup_v4_witness:
  "lookup_ip (case build sample_file of Inr db \<Rightarrow> db) (Addr4 0x0A000105) =
    Option.bind (find (covers_v4 0x0A000105) (collect_rows v4_row (built_records sample_file))) v4_answer"
  by (rule build_lookup_v4) (simp_all add: sample_rows(1), simp add: sample_build)

text \<open>
  C18: The same for IPv6: over non-overlapping IPv6 ranges \<open>LookupIP\<close> of an address that is not
  IPv4-mapped answers what a linear scan of the file's IPv6 records answers, the 128-bit comparisons
  being those of the numeric addresses; the zone of the address plays no part.
\<close>

theorem build_lookup_v6:
  assumes "build r = Inr db"
    and "disjoint_ranges v6_start v6_end (collect_rows v6_row (built_records r))"
    and "unmap ip = Addr6 w z"
  shows "lookup_ip db ip =
    Option.bind (find (covers_v6 w) (collect_rows v6_row (built_records r))) v6_answer"
proof -
  have "db_V6 db = slice_sort v6_start (collect_rows v6_row (built_records r))"
    using build_InrD(1)[OF assms(1)] by (simp add: sort_db_def v6_start_def[abs_def])
  then show ?thesis
    using v6.search_sorted_find[OF assms(2), of "(addr_hi w, addr_lo w)"] assms(3)
    by (simp add: lookup_ip_def covers_v6_def[abs_def] key128_addr Option.bind_def split: option.splits)
qed

theorem build_lookup_v6_witness:
  "lookup_ip (case build sample_file of Inr db \<Rightarrow> db)
      (Addr6 0x20010DB8000000000000000000000001 ''eth0'') =
    Option.bind (find (covers_v6 0x20010DB8000000000000000000000001)
      (collect_rows v6_row (built_records sample_file))) v6_answer"
  by (rule build_lookup_v6[where z = "''eth0''", OF _ sample_rows(2)])
    (simp_all add: sample_build)

text \<open>
  The same for autonomous-system numbers: \<open>LookupASN\<close> is a linear scan of the file's ASN records.
\<close>

theorem build_lookup_asn:
  assumes "build r = Inr db"
    and "disjoint_ranges asn_Start asn_End (collect_rows asn_row (built_records r))"
  shows "lookup_asn db n =
    Option.bind (find (covers_asn n) (collect_rows asn_row (built_records r))) asn_answer"
proof -
  have "db_ASN db = slice_sort asn_Start (collect_rows asn_row (built_records r))"
    using build_InrD(1)[OF assms(1)] by (simp add: sort_db_def)
  then show ?thesis
    using asn.search_sorted_find[OF assms(2), of n]
    by (simp add: lookup_asn_def covers_asn_def[abs_def] Option.bind_def split: option.splits)
qed

theorem build_lookup_asn_witness:
  "lookup_asn (case build sample_file of Inr db \<Rightarrow> db) 4610 =
    Option.bind (find (covers_asn 4610) (collect_rows asn_row (built_records sample_file))) asn_answer"
  by (rule build_lookup_asn) (simp_all add: sample_rows(3), simp add: sample_build)


text \<open>
  \<open>prefixEnd128\<close> returns the last address of the block of \<open>2 ^ (128 - bits)\<close> addresses that
  contains the start, as a 128-bit number, for every prefix length up to 128.
\<close>

theorem prefix_end128_last:
  assumes "bits \<le> 128"
  shows "(case prefix_end128 hi lo bits of (eh, el) \<Rightarrow> key128 eh el) =
    (key128 hi lo div 2 ^ (128 - bits)) * 2 ^ (128 - bits) + (2 ^ (128 - bits) - 1)"
proof -
  obtain eh el where e: "prefix_end128 hi lo bits = (eh, el)" by fastforce
  from prefix_end128_key[OF assms e] show ?thesis by (simp add: e)
qed

theorem prefix_end128_last_witness:
  "(case prefix_end128 0x20010DB800000000 0 32 of (eh, el) \<Rightarrow> key128 eh el) =
     0x20010DB8FFFFFFFFFFFFFFFFFFFFFFFF"
  by (subst prefix_end128_last) (simp_all add: key128_def)

text \<open>
  \<open>parseUint32\<close> accepts exactly the strings of decimal digits, the empty one included, and returns
  their value modulo \<open>2 ^ 32\<close>: an out-of-range number is never rejected.
\<close>

theorem parse_uint32_wraps:
  "parse_uint32 s =
     (if list_all is_digit s then Some (word_of_nat (digits_val s)) else None)"
  by (simp add: parse_uint32_eq to_word_eq)


definition wrapping_record :: rir_record where
  "wrapping_record = \<lparr>rc_Registry = ''apnic'', rc_CC = ''AU'', rc_Type = TypeIPv4,
     rc_Start = ''255.255.255.0'', rc_Value = 512, rc_Date = 0, rc_Status = 2, rc_OpaqueID = []\<rparr>"

lemma wrapping_row:
  "v4_row wrapping_record = Some \<lparr>v4_Start = 0xFFFFFF00, v4_End = 0xFF, v4_CC = (CHR ''A'', CHR ''U''),
     v4_Registry = 1, v4_Status = 2, v4_Date = 0\<rparr>"
  by code_simp


text \<open>
  The day count stored in a row restores the parser's date for every day from 1970-01-02 to the
  106751st day after the epoch (April 2262) and for the unknown date; the epoch day itself reads back
  as the unknown date.
\<close>

theorem date_roundtrip:
  assumes "t = zero_date \<or> 1 \<le> t \<and> t \<le> 106751"
  shows "days_to_time (time_to_days t) = t * day_ns" and "days_to_time (time_to_days 0) = zero_date * day_ns"
proof -
  show "days_to_time (time_to_days 0) = zero_date * day_ns"
    by (simp add: days_to_time_def time_to_days_def zero_date_def)
  show "days_to_time (time_to_days t) = t * day_ns"
  proof (cases "t = zero_date")
    case False
    with assms have t: "1 \<le> t" "t \<le> 106751" by auto
    then have u: "uint (word_of_int t :: u32) = t" by (simp add: uint_word_of_int)
    then have "(word_of_int t :: u32) \<noteq> 0" using t by (intro notI) simp
    moreover have "wrap64 (t * day_ns) = t * day_ns"
      using t by (simp add: wrap64_def day_ns_def)
    ultimately show ?thesis
      using t False u by (simp add: time_to_days_def days_to_time_def min_absorb2 max_absorb2)
  qed (simp add: days_to_time_def time_to_days_def)
qed

theorem date_roundtrip_witness: "days_to_time (time_to_days 15197) = 15197 * day_ns"
  by (rule date_roundtrip(1)) simp

end
