(* ===== verification/RirSnapshot.thy ===== *)
theory RirSnapshot
  imports RirDB
begin

text \<open>
  The binary snapshot of \<open>internal/rir/serialize.go\<close>: little-endian words, three tables of fixed-width
  rows behind a header with the hash of the source file.  The locale \<open>row_codec\<close> is the contract of a
  row format; the table reader is proved right once inside it and used for the three formats.  A writer
  is the byte string it has received, a reader the byte string it will deliver.
\<close>

section \<open>Little-endian words\<close>

fun le_bytes :: "nat \<Rightarrow> nat \<Rightarrow> bytes" where
  "le_bytes 0 v = []"
| "le_bytes (Suc k) v = char_of (v mod 256) # le_bytes k (v div 256)"

fun le_val :: "bytes \<Rightarrow> nat" where
  "le_val [] = 0"
| "le_val (c # cs) = of_char c + 256 * le_val cs"

definition put_u32 :: "u32 \<Rightarrow> bytes" where
  "put_u32 w = le_bytes 4 (unat w)"

definition put_u64 :: "u64 \<Rightarrow> bytes" where
  "put_u64 w = le_bytes 8 (unat w)"

definition get_u32 :: "bytes \<Rightarrow> u32" where
  "get_u32 b = to_word (le_val b)"

definition get_u64 :: "bytes \<Rightarrow> u64" where
  "get_u64 b = to_word (le_val b)"

definition put_u8 :: "u8 \<Rightarrow> char" where
  "put_u8 w = char_of (unat w)"

definition get_u8 :: "char \<Rightarrow> u8" where
  "get_u8 c = to_word (of_char c)"

text \<open>\<open>buf[i:j]\<close>\<close>

definition slice :: "nat \<Rightarrow> nat \<Rightarrow> bytes \<Rightarrow> bytes" where
  "slice i j b = take (j - i) (drop i b)"

lemma length_le_bytes [simp]: "length (le_bytes k v) = k"
  by (induction k arbitrary: v) simp_all

lemma le_val_le_bytes [simp]: "le_val (le_bytes k v) = v mod 256 ^ k"
proof (induction k arbitrary: v)
  case (Suc k)
  have "v mod 256 ^ Suc k = v mod 256 + 256 * (v div 256 mod 256 ^ k)"
    by (simp add: mod_mult2_eq)
  with Suc show ?case by simp
qed simp

lemma le_bytes_le_val [simp]: "le_bytes (length b) (le_val b) = b"
  by (induction b) simp_all

lemma le_val_less: "le_val b < 256 ^ length b"
proof (induction b)
  case (Cons c b)
  have "of_char c + 256 * le_val b < 256 + 256 * le_val b" by simp
  also have "\<dots> \<le> 256 * 256 ^ length b" using Cons by linarith
  finally show ?case by simp
qed simp

lemma length_put [simp]: "length (put_u32 w) = 4" "length (put_u64 v) = 8"
  by (simp_all add: put_u32_def put_u64_def)

lemma get_put_u32 [simp]: "get_u32 (put_u32 w) = w"
  using unat32_less[of w] by (simp add: get_u32_def put_u32_def)

lemma get_put_u64 [simp]: "get_u64 (put_u64 w) = w"
  using unat64_less[of w] by (simp add: get_u64_def put_u64_def)

lemma put_get_u32: "length b = 4 \<Longrightarrow> put_u32 (get_u32 b) = b"
  using le_val_less[of b] le_bytes_le_val[of b]
  by (simp add: put_u32_def get_u32_def unat_to_word)

lemma get_put_u8 [simp]: "get_u8 (put_u8 w) = w"
  using unat8_less[of w] by (simp add: get_u8_def put_u8_def)

lemma put_get_u8 [simp]: "put_u8 (get_u8 c) = c"
  by (simp add: get_u8_def put_u8_def unat_to_word)

lemma put_u32_count: "n < 2 ^ 32 \<Longrightarrow> unat (get_u32 (put_u32 (to_word n))) = n"
  by (simp add: unat_to_word)

section \<open>Row formats\<close>

definition v4_enc :: "v4range \<Rightarrow> bytes" where
  "v4_enc r = put_u32 (v4_Start r) @ put_u32 (v4_End r) @
     [fst (v4_CC r), snd (v4_CC r), put_u8 (v4_Registry r), put_u8 (v4_Status r)] @
     put_u32 (v4_Date r) @ replicate 8 (CHR 0x00)"

definition v4_dec :: "bytes \<Rightarrow> v4range" where
  "v4_dec b = \<lparr>v4_Start = get_u32 (slice 0 4 b), v4_End = get_u32 (slice 4 8 b),
     v4_CC = (b ! 8, b ! 9), v4_Registry = get_u8 (b ! 10), v4_Status = get_u8 (b ! 11),
     v4_Date = get_u32 (slice 12 16 b)\<rparr>"

definition v6_enc :: "v6range \<Rightarrow> bytes" where
  "v6_enc r = put_u64 (v6_StartHi r) @ put_u64 (v6_StartLo r) @ put_u64 (v6_EndHi r) @
     put_u64 (v6_EndLo r) @
     [fst (v6_CC r), snd (v6_CC r), put_u8 (v6_Registry r), put_u8 (v6_Status r)] @
     put_u32 (v6_Date r) @ replicate 4 (CHR 0x00)"

definition v6_dec :: "bytes \<Rightarrow> v6range" where
  "v6_dec b = \<lparr>v6_StartHi = get_u64 (slice 0 8 b), v6_StartLo = get_u64 (slice 8 16 b),
     v6_EndHi = get_u64 (slice 16 24 b), v6_EndLo = get_u64 (slice 24 32 b),
     v6_CC = (b ! 32, b ! 33), v6_Registry = get_u8 (b ! 34), v6_Status = get_u8 (b ! 35),
     v6_Date = get_u32 (slice 36 40 b)\<rparr>"

definition asn_enc :: "asnrange \<Rightarrow> bytes" where
  "asn_enc r = put_u32 (asn_Start r) @ put_u32 (asn_End r) @
     [fst (asn_CC r), snd (asn_CC r), put_u8 (asn_Registry r), put_u8 (asn_Status r)] @
     put_u32 (asn_Date r)"

definition asn_dec :: "bytes \<Rightarrow> asnrange" where
  "asn_dec b = \<lparr>asn_Start = get_u32 (slice 0 4 b), asn_End = get_u32 (slice 4 8 b),
     asn_CC = (b ! 8, b ! 9), asn_Registry = get_u8 (b ! 10), asn_Status = get_u8 (b ! 11),
     asn_Date = get_u32 (slice 12 16 b)\<rparr>"

section \<open>Readers and tables\<close>

datatype snap_error =
    SnapEOF
  | SnapUnexpectedEOF
  | SnapReadMagic snap_error
  | SnapBadMagic bytes
  | SnapVersion u32
  | ErrSnapshotStale

text \<open>\<open>io.ReadFull\<close> of \<open>n > 0\<close> bytes.\<close>

definition read_full :: "nat \<Rightarrow> bytes \<Rightarrow> snap_error + bytes \<times> bytes" where
  "read_full n r =
     (if n \<le> length r then Inr (take n r, drop n r)
      else if r = [] then Inl SnapEOF else Inl SnapUnexpectedEOF)"

definition write_table :: "('r \<Rightarrow> bytes) \<Rightarrow> 'r list \<Rightarrow> bytes" where
  "write_table enc rows = put_u32 (to_word (length rows)) @ concat (map enc rows)"

fun read_rows :: "nat \<Rightarrow> (bytes \<Rightarrow> 'r) \<Rightarrow> nat \<Rightarrow> bytes \<Rightarrow> snap_error + 'r list \<times> bytes" where
  "read_rows width dec 0 r = Inr ([], r)"
| "read_rows width dec (Suc n) r =
     (case read_full width r of
        Inl e \<Rightarrow> Inl e
      | Inr (b, r') \<Rightarrow>
          (case read_rows width dec n r' of
             Inl e \<Rightarrow> Inl e
           | Inr (rows, r'') \<Rightarrow> Inr (dec b # rows, r'')))"

definition read_table :: "nat \<Rightarrow> (bytes \<Rightarrow> 'r) \<Rightarrow> bytes \<Rightarrow> snap_error + 'r list \<times> bytes" where
  "read_table width dec r =
     (case read_full 4 r of
        Inl e \<Rightarrow> Inl e
      | Inr (b, r') \<Rightarrow> read_rows width dec (unat (get_u32 b)) r')"

definition write_v4 :: "v4range list \<Rightarrow> bytes" where "write_v4 = write_table v4_enc"
definition write_v6 :: "v6range list \<Rightarrow> bytes" where "write_v6 = write_table v6_enc"
definition write_asn :: "asnrange list \<Rightarrow> bytes" where "write_asn = write_table asn_enc"

definition read_v4 :: "bytes \<Rightarrow> snap_error + v4range list \<times> bytes" where
  "read_v4 = read_table 24 v4_dec"

definition read_v6 :: "bytes \<Rightarrow> snap_error + v6range list \<times> bytes" where
  "read_v6 = read_table 44 v6_dec"

definition read_asn :: "bytes \<Rightarrow> snap_error + asnrange list \<times> bytes" where
  "read_asn = read_table 16 asn_dec"

section \<open>Snapshot and LoadSnapshot\<close>

definition snapshot_magic :: bytes where "snapshot_magic = ''RCHK''"
definition snapshot_schema_version :: u32 where "snapshot_schema_version = 1"
definition zero_sha :: bytes where "zero_sha = replicate 32 (CHR 0x00)"

definition snapshot :: "rir_db \<Rightarrow> bytes \<Rightarrow> bytes" where
  "snapshot db sha =
     snapshot_magic @ put_u32 snapshot_schema_version @ sha @ replicate 16 (CHR 0x00) @
     write_v4 (db_V4 db) @ write_v6 (db_V6 db) @ write_asn (db_ASN db)"

definition load_tables :: "bytes \<Rightarrow> snap_error + rir_db" where
  "load_tables r =
     (case read_v4 r of
        Inl e \<Rightarrow> Inl e
      | Inr (v4s, r1) \<Rightarrow>
          (case read_v6 r1 of
             Inl e \<Rightarrow> Inl e
           | Inr (v6s, r2) \<Rightarrow>
               (case read_asn r2 of
                  Inl e \<Rightarrow> Inl e
                | Inr (asns, _) \<Rightarrow> Inr \<lparr>db_V4 = v4s, db_V6 = v6s, db_ASN = asns\<rparr>)))"

definition load_snapshot :: "bytes \<Rightarrow> bytes \<Rightarrow> snap_error + rir_db" where
  "load_snapshot r expected =
     (case read_full 4 r of
        Inl e \<Rightarrow> Inl (SnapReadMagic e)
      | Inr (magic, r1) \<Rightarrow>
          if magic \<noteq> snapshot_magic then Inl (SnapBadMagic magic)
          else (case read_full 4 r1 of
            Inl e \<Rightarrow> Inl e
          | Inr (ver, r2) \<Rightarrow>
              if get_u32 ver \<noteq> snapshot_schema_version then Inl (SnapVersion (get_u32 ver))
              else (case read_full 32 r2 of
                Inl e \<Rightarrow> Inl e
              | Inr (sha, r3) \<Rightarrow>
                  if expected \<noteq> zero_sha \<and> sha \<noteq> expected then Inl ErrSnapshotStale
                  else (case read_full 16 r3 of
                    Inl e \<Rightarrow> Inl e
                  | Inr (_, r4) \<Rightarrow> load_tables r4))))"

section \<open>The contract of a row format\<close>

lemma read_full_append [simp]: "length b = n \<Longrightarrow> read_full n (b @ r) = Inr (b, r)"
  by (simp add: read_full_def)

lemma read_full_short: "length r < n \<Longrightarrow> \<exists>e. read_full n r = Inl e"
  by (simp add: read_full_def)

lemma read_full_InrD: "read_full n r = Inr (b, r') \<Longrightarrow> r = b @ r' \<and> length b = n"
  by (auto simp: read_full_def split: if_splits)

locale row_codec =
  fixes enc :: "'r \<Rightarrow> bytes" and dec :: "bytes \<Rightarrow> 'r" and width :: nat
  assumes length_enc [simp]: "length (enc x) = width"
    and dec_enc [simp]: "dec (enc x) = x"
begin

lemma read_rows_enc: "read_rows width dec (length xs) (concat (map enc xs) @ r) = Inr (xs, r)"
  by (induction xs) simp_all

lemma read_rows_short:
  "length r < n * width \<Longrightarrow> \<exists>e. read_rows width dec n r = Inl e"
proof (induction n arbitrary: r)
  case (Suc n)
  show ?case
  proof (cases "read_full width r")
    case (Inr p)
    then obtain b r' where p: "read_full width r = Inr (b, r')" by (cases p) simp
    then have "length r' < n * width" using Suc.prems read_full_InrD[OF p] by simp
    from Suc.IH[OF this] p show ?thesis by auto
  qed simp
qed simp

lemma length_write_table: "length (write_table enc xs) = 4 + width * length xs"
  by (induction xs) (simp_all add: write_table_def)

text \<open>A table reads back, whatever follows it.\<close>

lemma read_write_table:
  "length xs < 2 ^ 32 \<Longrightarrow> read_table width dec (write_table enc xs @ r) = Inr (xs, r)"
  by (simp add: read_table_def write_table_def put_u32_count[simplified] read_rows_enc unat_to_word)

text \<open>A cut table does not read.\<close>

lemma read_table_cut:
  assumes "length xs < 2 ^ 32" and "write_table enc xs = t @ u" and "u \<noteq> []"
  shows "\<exists>e. read_table width dec t = Inl e"
proof (cases "length t < 4")
  case True
  then show ?thesis using read_full_short[OF True] by (auto simp: read_table_def)
next
  case False
  define n where "n = put_u32 (to_word (length xs))"
  have ln: "length n = 4" by (simp add: n_def)
  define t' where "t' = drop 4 t"
  have eq: "n @ concat (map enc xs) = t @ u" using assms(2) by (simp add: write_table_def n_def)
  have "n = take 4 t" using arg_cong[OF eq, of "take 4"] ln False by simp
  moreover have "concat (map enc xs) = t' @ u"
    using arg_cong[OF eq, of "drop 4"] ln False by (simp add: t'_def)
  ultimately have t': "t = n @ t'" "concat (map enc xs) = t' @ u" by (simp_all add: t'_def)
  have "length (concat (map enc xs)) = length xs * width" by (induction xs) simp_all
  then have "length t' + length u = length xs * width" using t'(2) by simp
  moreover have "0 < length u" using assms(3) by simp
  ultimately have "length t' < length xs * width" by linarith
  from read_rows_short[OF this] show ?thesis
    using assms(1) t'(1) ln by (simp add: read_table_def n_def unat_to_word)
qed

end

text \<open>A format without reserved bytes also loses nothing on the way in: what reads was written.\<close>

locale exact_codec = row_codec +
  assumes enc_dec: "length b = width \<Longrightarrow> enc (dec b) = b"
begin

lemma read_rows_exact:
  "read_rows width dec n r = Inr (xs, r') \<Longrightarrow> r = concat (map enc xs) @ r' \<and> length xs = n"
proof (induction n arbitrary: r xs)
  case (Suc n)
  then obtain b r1 ys where "read_full width r = Inr (b, r1)" "read_rows width dec n r1 = Inr (ys, r')"
    "xs = dec b # ys"
    by (auto split: sum.splits prod.splits)
  with Suc.IH read_full_InrD show ?case by (fastforce simp: enc_dec)
qed simp

lemma read_table_exact:
  assumes "read_table width dec r = Inr (xs, r')"
  shows "r = write_table enc xs @ r'"
proof -
  obtain b r1 where b: "read_full 4 r = Inr (b, r1)"
    and "read_rows width dec (unat (get_u32 b)) r1 = Inr (xs, r')"
    using assms by (auto simp: read_table_def split: sum.splits prod.splits)
  then have "r1 = concat (map enc xs) @ r'" "length xs = unat (get_u32 b)" "r = b @ r1" "length b = 4"
    using read_rows_exact read_full_InrD by blast+
  then show ?thesis by (simp add: write_table_def put_get_u32)
qed

end

lemma slice_append [simp]:
  "i = length a \<Longrightarrow> j = i + length b \<Longrightarrow> slice i j (a @ b @ c) = b"
  "j = length a \<Longrightarrow> slice 0 j (a @ c) = a"
  by (simp_all add: slice_def)

lemma slice_skip: "length a \<le> i \<Longrightarrow> slice i j (a @ b) = slice (i - length a) (j - length a) b"
  by (simp add: slice_def)

interpretation v4: row_codec v4_enc v4_dec 24
  by unfold_locales (simp_all add: v4_enc_def v4_dec_def slice_skip nth_append slice_def)

interpretation v6: row_codec v6_enc v6_dec 44
  by unfold_locales (simp_all add: v6_enc_def v6_dec_def slice_skip nth_append slice_def)

lemma list4: "length b = 4 \<longleftrightarrow> (\<exists>a0 a1 a2 a3. b = [a0, a1, a2, a3])"
  by (auto simp: numeral_eq_Suc length_Suc_conv)

lemma asn_bytes:
  assumes "length b = 16"
  obtains s e cc r st d where "b = s @ e @ [fst cc, snd cc, r, st] @ d"
    "length s = 4" "length e = 4" "length d = 4"
proof -
  have "length (take 4 (drop 8 b)) = 4" using assms by simp
  then obtain a0 a1 a2 a3 where m: "take 4 (drop 8 b) = [a0, a1, a2, a3]"
    by (simp only: list4) (elim exE)
  have "b = take 4 b @ take 4 (drop 4 b) @ take 4 (drop 8 b) @ drop 12 b"
    using append_take_drop_id[of 4 b] append_take_drop_id[of 4 "drop 4 b"]
      append_take_drop_id[of 4 "drop 8 b"] by simp
  then show thesis
    using that[of "take 4 b" "take 4 (drop 4 b)" "(a0, a1)" a2 a3 "drop 12 b"] m assms by simp
qed

interpretation asn: exact_codec asn_enc asn_dec 16
proof
  show "length (asn_enc x) = 16" for x by (simp add: asn_enc_def)
  show "asn_dec (asn_enc x) = x" for x
    by (simp add: asn_enc_def asn_dec_def slice_skip nth_append slice_def)
  show "asn_enc (asn_dec b) = b" if b: "length b = 16" for b
  proof -
    obtain s e cc r st d where "b = s @ e @ [fst cc, snd cc, r, st] @ d"
      "length s = 4" "length e = 4" "length d = 4"
      by (rule asn_bytes[OF b])
    then show ?thesis
      by (simp add: asn_enc_def asn_dec_def slice_skip nth_append slice_def put_get_u32)
  qed
qed

section \<open>The whole snapshot\<close>

definition fits :: "rir_db \<Rightarrow> bool" where
  "fits db \<longleftrightarrow> length (db_V4 db) < 2 ^ 32 \<and> length (db_V6 db) < 2 ^ 32 \<and> length (db_ASN db) < 2 ^ 32"

lemma load_tables_write:
  "fits db \<Longrightarrow>
   load_tables (write_v4 (db_V4 db) @ write_v6 (db_V6 db) @ write_asn (db_ASN db) @ rest) = Inr db"
  by (simp add: load_tables_def fits_def read_v4_def write_v4_def read_v6_def write_v6_def
      read_asn_def write_asn_def v4.read_write_table[simplified] v6.read_write_table[simplified]
      asn.read_write_table[simplified])

lemma snapshot_consts [simp]:
  "length snapshot_magic = 4" "get_u32 (put_u32 snapshot_schema_version) = snapshot_schema_version"
  by (simp_all add: snapshot_magic_def)

lemma load_snapshot_header:
  "length sha = 32 \<Longrightarrow> length res = 16 \<Longrightarrow>
   load_snapshot (snapshot_magic @ put_u32 snapshot_schema_version @ sha @ res @ t) expected =
     (if expected \<noteq> zero_sha \<and> sha \<noteq> expected then Inl ErrSnapshotStale else load_tables t)"
  by (simp add: load_snapshot_def)

text \<open>A proper prefix of three concatenated parts ends inside one of them.\<close>

lemma load_tables_cut:
  assumes "fits db" and "u \<noteq> []"
    and eq: "write_v4 (db_V4 db) @ write_v6 (db_V6 db) @ write_asn (db_ASN db) = t @ u"
  shows "\<exists>e. load_tables t = Inl e"
proof -
  let ?a = "write_v4 (db_V4 db)" and ?b = "write_v6 (db_V6 db)" and ?c = "write_asn (db_ASN db)"
  consider (v4) u' where "?a = t @ u'" "u' \<noteq> []"
    | (v6) t' u' where "t = ?a @ t'" "?b = t' @ u'" "u' \<noteq> []"
    | (asn) t' where "t = ?a @ ?b @ t'" "?c = t' @ u"
  proof -
    from eq consider us where "?a = t @ us" "us @ ?b @ ?c = u" | us where "t = ?a @ us" "?b @ ?c = us @ u"
      by (auto simp: append_eq_append_conv2)
    then show thesis
    proof cases
      case 1
      then show thesis using that(1)[of us] that(2)[of "[]" ?b] that(3)[of "[]"] assms(2)
        by (cases "us = []"; cases "?b = []") auto
    next
      case 2
      then consider vs where "?b = us @ vs" "vs @ ?c = u" | vs where "us = ?b @ vs" "?c = vs @ u"
        by (auto simp: append_eq_append_conv2)
      then show thesis
      proof cases
        case 1
        then show thesis using that(2)[of us vs] that(3)[of "[]"] \<open>t = ?a @ us\<close>
          by (cases "vs = []") auto
      next
        case 2
        then show thesis using that(3)[of vs] \<open>t = ?a @ us\<close> by simp
      qed
    qed
  qed
  then show ?thesis
  proof cases
    case v4
    then obtain e where "read_v4 t = Inl e"
      using v4.read_table_cut[of "db_V4 db" t u'] assms(1)
      by (auto simp: read_v4_def write_v4_def fits_def)
    then show ?thesis by (simp add: load_tables_def)
  next
    case v6
    then obtain e where "read_v6 t' = Inl e"
      using v6.read_table_cut[of "db_V6 db" t' u'] assms(1)
      by (auto simp: read_v6_def write_v6_def fits_def)
    moreover have "read_v4 t = Inr (db_V4 db, t')"
      using v6(1) v4.read_write_table[of "db_V4 db" t'] assms(1)
      by (simp add: read_v4_def write_v4_def fits_def)
    ultimately show ?thesis by (simp add: load_tables_def)
  next
    case asn
    then obtain e where "read_asn t' = Inl e"
      using asn.read_table_cut[of "db_ASN db" t' u] assms(1,2)
      by (auto simp: read_asn_def write_asn_def fits_def)
    moreover have "read_v4 t = Inr (db_V4 db, ?b @ t')"
      using asn(1) v4.read_write_table[of "db_V4 db" "?b @ t'"] assms(1)
      by (simp add: read_v4_def write_v4_def fits_def)
    moreover have "read_v6 (?b @ t') = Inr (db_V6 db, t')"
      using v6.read_write_table[of "db_V6 db" t'] assms(1)
      by (simp add: read_v6_def write_v6_def fits_def)
    ultimately show ?thesis by (simp add: load_tables_def)
  qed
qed

lemma load_snapshot_cut:
  assumes "length sha = 32" and "fits db" and "snapshot db sha = t @ u" and "u \<noteq> []"
  shows "\<exists>e. load_snapshot t expected = Inl e"
proof (cases "length t < 56")
  case True
  show ?thesis
    using True by (auto simp: load_snapshot_def read_full_def split: sum.split)
next
  case False
  let ?h = "snapshot_magic @ put_u32 snapshot_schema_version @ sha @ replicate 16 (CHR 0x00)"
  have lh: "length ?h = 56" using assms(1) by simp
  have eq: "?h @ write_v4 (db_V4 db) @ write_v6 (db_V6 db) @ write_asn (db_ASN db) = t @ u"
    using assms(3) by (simp add: snapshot_def)
  have "?h = take 56 t" using arg_cong[OF eq, of "take 56"] lh False by simp
  moreover have c: "write_v4 (db_V4 db) @ write_v6 (db_V6 db) @ write_asn (db_ASN db) = drop 56 t @ u"
    using arg_cong[OF eq, of "drop 56"] lh False by simp
  ultimately have t: "t = ?h @ drop 56 t" by simp
  show ?thesis
    using load_tables_cut[OF assms(2,4) c] load_snapshot_header[OF assms(1), of "replicate 16 (CHR 0x00)"]
    by (subst t) auto
qed

section \<open>Properties\<close>

text \<open>
  C6: A snapshot reads back: for a database whose slices are below \<open>2 ^ 32\<close> rows, \<open>LoadSnapshot\<close> of the
  bytes \<open>Snapshot\<close> wrote, whatever follows them, returns the database itself, provided no hash is
  expected or the expected hash is the one recorded.
\<close>

theorem snapshot_roundtrip:
  assumes "length sha = 32" and "fits db" and "expected = zero_sha \<or> expected = sha"
  shows "load_snapshot (snapshot db sha @ trailing) expected = Inr db"
  using assms load_tables_write[OF assms(2), of trailing]
    load_snapshot_header[OF assms(1), of "replicate 16 (CHR 0x00)"]
  by (auto simp: snapshot_def)

theorem snapshot_roundtrip_witness:
  "load_snapshot (snapshot sample_db (replicate 32 (CHR ''h'')) @ ''xyz'') zero_sha = Inr sample_db"
  by (rule snapshot_roundtrip) (simp_all add: fits_def sample_db_def)

text \<open>
  When a hash is expected and the snapshot records another one, \<open>LoadSnapshot\<close> returns
  \<open>ErrSnapshotStale\<close> and reads no row.
\<close>

theorem snapshot_stale:
  assumes "length sha = 32" and "expected \<noteq> zero_sha" and "expected \<noteq> sha"
  shows "load_snapshot (snapshot db sha @ trailing) expected = Inl ErrSnapshotStale"
  using assms load_snapshot_header[OF assms(1), of "replicate 16 (CHR 0x00)"]
  by (auto simp: snapshot_def)

theorem snapshot_stale_witness:
  "load_snapshot (snapshot sample_db zero_sha) (replicate 32 (CHR ''h'')) = Inl ErrSnapshotStale"
  using snapshot_stale[of zero_sha "replicate 32 (CHR ''h'')" sample_db "[]"]
  by (simp add: zero_sha_def)

text \<open>
  A truncated snapshot never loads: every proper prefix of what \<open>Snapshot\<close> wrote is an error, under
  any expected hash, so a database is never read with rows missing.
\<close>

theorem snapshot_truncated:
  assumes "length sha = 32" and "fits db" and "n < length (snapshot db sha)"
  shows "\<exists>e. load_snapshot (take n (snapshot db sha)) expected = Inl e"
  by (rule load_snapshot_cut[OF assms(1,2), of _ "drop n (snapshot db sha)"]) (use assms(3) in simp_all)

theorem snapshot_truncated_witness:
  "\<exists>e. load_snapshot (take 60 (snapshot sample_db zero_sha)) zero_sha = Inl e"
  by (rule snapshot_truncated)
    (simp_all add: zero_sha_def fits_def sample_db_def snapshot_def write_v4_def
      v4.length_write_table)

text \<open>
  The size of a snapshot is 68 bytes and 24, 44 and 16 bytes per IPv4, IPv6 and ASN row.
\<close>

theorem snapshot_size:
  assumes "length sha = 32"
  shows "length (snapshot db sha) =
    68 + 24 * length (db_V4 db) + 44 * length (db_V6 db) + 16 * length (db_ASN db)"
  using assms
  by (simp add: snapshot_def write_v4_def write_v6_def write_asn_def v4.length_write_table
      v6.length_write_table asn.length_write_table)

theorem snapshot_size_witness: "length (snapshot sample_db zero_sha) = 116"
  using snapshot_size[of zero_sha sample_db] by (simp add: zero_sha_def sample_db_def)

text \<open>
  \<open>LoadSnapshot\<close> accepts only input that opens with the magic bytes, the schema version and a hash
  that is acceptable, and the ASN rows it returns are, byte for byte, the ones in the input.
\<close>

theorem load_snapshot_accepts:
  assumes "load_snapshot r expected = Inr db"
  shows "\<exists>sha reserved t u. r = snapshot_magic @ put_u32 1 @ sha @ reserved @ t @ write_asn (db_ASN db) @ u \<and>
    length sha = 32 \<and> length reserved = 16 \<and> (expected = zero_sha \<or> expected = sha)"
proof -
  obtain magic r1 ver r2 sha r3 res r4 where
    full: "read_full 4 r = Inr (magic, r1)" "read_full 4 r1 = Inr (ver, r2)"
      "read_full 32 r2 = Inr (sha, r3)" "read_full 16 r3 = Inr (res, r4)"
    and ok: "magic = snapshot_magic" "get_u32 ver = snapshot_schema_version"
      "expected = zero_sha \<or> sha = expected" and lt: "load_tables r4 = Inr db"
    using assms by (auto simp: load_snapshot_def split: sum.splits prod.splits if_splits)
  have r: "r = magic @ ver @ sha @ res @ r4" "length ver = 4" "length sha = 32" "length res = 16"
    using full[THEN read_full_InrD] by auto
  have ver: "ver = put_u32 1"
    using put_get_u32[OF r(2)] ok(2) by (simp add: snapshot_schema_version_def)
  obtain v4s r5 v6s r6 asns r7 where t: "read_v4 r4 = Inr (v4s, r5)" "read_v6 r5 = Inr (v6s, r6)"
    "read_asn r6 = Inr (asns, r7)" "db_ASN db = asns"
    using lt by (auto simp: load_tables_def split: sum.splits prod.splits)
  have suf: "\<exists>t. r = t @ r'" if "read_table w d r = Inr (x, r')" for w r r' and d :: "bytes \<Rightarrow> 'x" and x
  proof -
    have rows: "read_rows w d n r = Inr (x, r') \<Longrightarrow> \<exists>t. r = t @ r'" for n r x
    proof (induction n arbitrary: r x)
      case (Suc n)
      then obtain b r1 y where "read_full w r = Inr (b, r1)" "read_rows w d n r1 = Inr (y, r')"
        by (auto split: sum.splits prod.splits)
      with Suc.IH read_full_InrD show ?case by (metis append.assoc)
    qed simp
    from that obtain b r1 where "read_full 4 r = Inr (b, r1)"
      "read_rows w d (unat (get_u32 b)) r1 = Inr (x, r')"
      by (auto simp: read_table_def split: sum.splits prod.splits)
    with rows read_full_InrD show ?thesis by (metis append.assoc)
  qed
  obtain t1 t2 where "r4 = t1 @ r5" "r5 = t2 @ r6"
    using suf[OF t(1)[unfolded read_v4_def]] suf[OF t(2)[unfolded read_v6_def]] by blast
  moreover have "r6 = write_asn asns @ r7"
    using asn.read_table_exact t(3) by (simp add: read_asn_def write_asn_def)
  ultimately have "r = snapshot_magic @ put_u32 1 @ sha @ res @ (t1 @ t2) @ write_asn (db_ASN db) @ r7"
    using r(1) ok(1) ver t(4) by simp
  then show ?thesis using r(3,4) ok(3) by blast
qed

theorem load_snapshot_accepts_witness:
  "\<exists>sha reserved t u. snapshot sample_db zero_sha =
     snapshot_magic @ put_u32 1 @ sha @ reserved @ t @ write_asn (db_ASN sample_db) @ u \<and>
    length sha = 32 \<and> length reserved = 16 \<and> (zero_sha = zero_sha \<or> zero_sha = sha)"
proof (rule load_snapshot_accepts)
  show "load_snapshot (snapshot sample_db zero_sha) zero_sha = Inr sample_db"
    using load_tables_write[of sample_db "[]"]
    by (simp add: snapshot_def load_snapshot_header zero_sha_def fits_def sample_db_def)
qed

end
