(* ===== verification/Bogon.thy ===== *)
theory Bogon
  imports NetIP
begin

text \<open>
  \<open>internal/bogon/bogon.go\<close>: the table of reserved ranges, parsed and sorted longest prefix first by
  \<open>init\<close>, and \<open>Match\<close>, which returns the category of the first prefix that contains the address.
  The lemmas tie the sorted table to explicit address intervals and to longest-prefix matching.
\<close>

section \<open>Categories and the table\<close>

datatype category =
    CatPublic | CatPrivate | CatLoopback | CatLinkLocal | CatCGNAT | CatMulticast | CatReserved
  | CatDocumentation | CatBenchmark | CatBroadcast | CatUnspecified | CatULA | CatDiscard
  | CatTeredo | CatV4Mapped

fun category_string :: "category \<Rightarrow> string" where
  "category_string CatPublic = ''''"
| "category_string CatPrivate = ''private''"
| "category_string CatLoopback = ''loopback''"
| "category_string CatLinkLocal = ''link-local''"
| "category_string CatCGNAT = ''cgnat''"
| "category_string CatMulticast = ''multicast''"
| "category_string CatReserved = ''reserved''"
| "category_string CatDocumentation = ''documentation''"
| "category_string CatBenchmark = ''benchmark''"
| "category_string CatBroadcast = ''broadcast''"
| "category_string CatUnspecified = ''unspecified''"
| "category_string CatULA = ''ula''"
| "category_string CatDiscard = ''discard''"
| "category_string CatTeredo = ''teredo''"
| "category_string CatV4Mapped = ''v4-mapped''"

record bogon_entry =
  e_prefix :: ip_prefix
  e_cat :: category

definition bogon_defs :: "(string \<times> category) list" where
  "bogon_defs =
     [(''0.0.0.0/8'', CatUnspecified),
      (''10.0.0.0/8'', CatPrivate),
      (''100.64.0.0/10'', CatCGNAT),
      (''127.0.0.0/8'', CatLoopback),
      (''169.254.0.0/16'', CatLinkLocal),
      (''172.16.0.0/12'', CatPrivate),
      (''192.0.0.0/24'', CatReserved),
      (''192.0.2.0/24'', CatDocumentation),
      (''192.88.99.0/24'', CatReserved),
      (''192.168.0.0/16'', CatPrivate),
      (''198.18.0.0/15'', CatBenchmark),
      (''198.51.100.0/24'', CatDocumentation),
      (''203.0.113.0/24'', CatDocumentation),
      (''224.0.0.0/4'', CatMulticast),
      (''240.0.0.0/4'', CatReserved),
      (''255.255.255.255/32'', CatBroadcast),
      (''::/128'', CatUnspecified),
      (''::1/128'', CatLoopback),
      (''::ffff:0:0/96'', CatV4Mapped),
      (''64:ff9b::/96'', CatReserved),
      (''100::/64'', CatDiscard),
      (''2001::/32'', CatTeredo),
      (''2001:db8::/32'', CatDocumentation),
      (''fc00::/7'', CatULA),
      (''fe80::/10'', CatLinkLocal),
      (''ff00::/8'', CatMulticast)]"

text \<open>
  \<open>init\<close>: parse every CIDR (\<open>Inl\<close> carries the panic's CIDR), then \<open>sort.SliceStable\<close> by
  descending length.
\<close>

fun parse_defs :: "(string \<times> category) list \<Rightarrow> string + bogon_entry list" where
  "parse_defs [] = Inr []"
| "parse_defs ((cidr, cat) # ds) =
     (case parse_prefix cidr of
        None \<Rightarrow> Inl cidr
      | Some p \<Rightarrow>
          (case parse_defs ds of
             Inl e \<Rightarrow> Inl e
           | Inr es \<Rightarrow> Inr (\<lparr>e_prefix = p, e_cat = cat\<rparr> # es)))"

definition sort_prefixes :: "bogon_entry list \<Rightarrow> bogon_entry list" where
  "sort_prefixes es = slice_sort (\<lambda>e. - int (p_bits (e_prefix e))) es"

definition bogon_init :: "string + bogon_entry list" where
  "bogon_init = (case parse_defs bogon_defs of Inl e \<Rightarrow> Inl e | Inr es \<Rightarrow> Inr (sort_prefixes es))"

definition prefixes :: "bogon_entry list" where
  "prefixes = (case bogon_init of Inl _ \<Rightarrow> [] | Inr es \<Rightarrow> es)"

section \<open>Match and IsBogon\<close>

definition match_bogon :: "addr \<Rightarrow> category" where
  "match_bogon ip =
     (if \<not> is_valid ip then CatReserved
      else
        (case find (\<lambda>e. prefix_contains (e_prefix e) (unmap ip)) prefixes of
           None \<Rightarrow> CatPublic
         | Some e \<Rightarrow> e_cat e))"

definition is_bogon :: "addr \<Rightarrow> bool" where
  "is_bogon ip \<longleftrightarrow> match_bogon ip \<noteq> CatPublic"

section \<open>The sorted table\<close>

definition mk_entry :: "addr \<Rightarrow> nat \<Rightarrow> category \<Rightarrow> bogon_entry" where
  "mk_entry a n c = \<lparr>e_prefix = \<lparr>p_addr = a, p_bits = n\<rparr>, e_cat = c\<rparr>"

lemma mk_entry_sel [simp]:
  "e_prefix (mk_entry a n c) = \<lparr>p_addr = a, p_bits = n\<rparr>" "e_cat (mk_entry a n c) = c"
  by (simp_all add: mk_entry_def)

definition table4 :: "(u32 \<times> nat \<times> category) list" where
  "table4 =
     [(0xFFFFFFFF, 32, CatBroadcast), (0xC0000000, 24, CatReserved),
      (0xC0000200, 24, CatDocumentation), (0xC0586300, 24, CatReserved),
      (0xC6336400, 24, CatDocumentation), (0xCB007100, 24, CatDocumentation),
      (0xA9FE0000, 16, CatLinkLocal), (0xC0A80000, 16, CatPrivate),
      (0xC6120000, 15, CatBenchmark), (0xAC100000, 12, CatPrivate),
      (0x64400000, 10, CatCGNAT), (0x00000000, 8, CatUnspecified),
      (0x0A000000, 8, CatPrivate), (0x7F000000, 8, CatLoopback),
      (0xE0000000, 4, CatMulticast), (0xF0000000, 4, CatReserved)]"

definition table6 :: "(u128 \<times> nat \<times> category) list" where
  "table6 =
     [(0, 128, CatUnspecified), (1, 128, CatLoopback),
      (0xFFFF00000000, 96, CatV4Mapped),
      (0x0064FF9B000000000000000000000000, 96, CatReserved),
      (0x01000000000000000000000000000000, 64, CatDiscard),
      (0x20010000000000000000000000000000, 32, CatTeredo),
      (0x20010DB8000000000000000000000000, 32, CatDocumentation),
      (0xFE800000000000000000000000000000, 10, CatLinkLocal),
      (0xFF000000000000000000000000000000, 8, CatMulticast),
      (0xFC000000000000000000000000000000, 7, CatULA)]"

definition entries4 :: "bogon_entry list" where
  "entries4 = map (\<lambda>(q, n, c). mk_entry (Addr4 q) n c) table4"

definition entries6 :: "bogon_entry list" where
  "entries6 = map (\<lambda>(q, n, c). mk_entry (Addr6 q []) n c) table6"

definition parsed_defs :: "bogon_entry list" where
  "parsed_defs = map (\<lambda>(q, n, c). mk_entry (Addr4 q) n c)
     [(0x00000000, 8, CatUnspecified), (0x0A000000, 8, CatPrivate), (0x64400000, 10, CatCGNAT),
      (0x7F000000, 8, CatLoopback), (0xA9FE0000, 16, CatLinkLocal), (0xAC100000, 12, CatPrivate),
      (0xC0000000, 24, CatReserved), (0xC0000200, 24, CatDocumentation),
      (0xC0586300, 24, CatReserved), (0xC0A80000, 16, CatPrivate), (0xC6120000, 15, CatBenchmark),
      (0xC6336400, 24, CatDocumentation), (0xCB007100, 24, CatDocumentation),
      (0xE0000000, 4, CatMulticast), (0xF0000000, 4, CatReserved), (0xFFFFFFFF, 32, CatBroadcast)] @
     map (\<lambda>(q, n, c). mk_entry (Addr6 q []) n c)
     [(0, 128, CatUnspecified), (1, 128, CatLoopback), (0xFFFF00000000, 96, CatV4Mapped),
      (0x0064FF9B000000000000000000000000, 96, CatReserved),
      (0x01000000000000000000000000000000, 64, CatDiscard),
      (0x20010000000000000000000000000000, 32, CatTeredo),
      (0x20010DB8000000000000000000000000, 32, CatDocumentation),
      (0xFC000000000000000000000000000000, 7, CatULA),
      (0xFE800000000000000000000000000000, 10, CatLinkLocal),
      (0xFF000000000000000000000000000000, 8, CatMulticast)]"

lemma parse_defs_append:
  "parse_defs xs = Inr a \<Longrightarrow> parse_defs ys = Inr b \<Longrightarrow> parse_defs (xs @ ys) = Inr (a @ b)"
  by (induction xs arbitrary: a rule: parse_defs.induct) (auto split: option.splits sum.splits)

lemma parse_defs_part1: "parse_defs (take 16 bogon_defs) = Inr (take 16 parsed_defs)"
  by code_simp

lemma parse_defs_part2:
  "parse_defs (take 4 (drop 16 bogon_defs)) = Inr (take 4 (drop 16 parsed_defs))"
  by code_simp

lemma parse_defs_part3:
  "parse_defs (take 3 (drop 20 bogon_defs)) = Inr (take 3 (drop 20 parsed_defs))"
  by code_simp

lemma parse_defs_part4: "parse_defs (drop 23 bogon_defs) = Inr (drop 23 parsed_defs)"
  by code_simp

lemma four_parts: "take 16 xs @ take 4 (drop 16 xs) @ take 3 (drop 20 xs) @ drop 23 xs = xs"
proof -
  have "take 3 (drop 20 xs) @ drop 23 xs = drop 20 xs"
    using append_take_drop_id[of 3 "drop 20 xs"] by simp
  moreover have "take 4 (drop 16 xs) @ drop 20 xs = drop 16 xs"
    using append_take_drop_id[of 4 "drop 16 xs"] by simp
  ultimately show ?thesis by simp
qed

lemma parse_defs_ok: "parse_defs bogon_defs = Inr parsed_defs"
  using parse_defs_append[OF parse_defs_part1 parse_defs_append[OF parse_defs_part2
      parse_defs_append[OF parse_defs_part3 parse_defs_part4]]]
  by (simp only: four_parts)

lemma sort_parsed_defs:
  "filter (\<lambda>e. is4 (p_addr (e_prefix e))) (sort_prefixes parsed_defs) = entries4"
  "filter (\<lambda>e. is6 (p_addr (e_prefix e))) (sort_prefixes parsed_defs) = entries6"
  "list_all (\<lambda>e. is4 (p_addr (e_prefix e)) \<or> is6 (p_addr (e_prefix e))) (sort_prefixes parsed_defs)"
  by code_simp+

lemma bogon_init_eq: "bogon_init = Inr (sort_prefixes parsed_defs)"
  by (simp add: bogon_init_def parse_defs_ok)

lemma prefixes_eq: "prefixes = sort_prefixes parsed_defs"
  by (simp add: prefixes_def bogon_init_eq)

lemma sorted_prefixes: "sorted (map (\<lambda>e. - int (p_bits (e_prefix e))) prefixes)"
  by (simp add: prefixes_eq sort_prefixes_def)

lemma set_prefixes: "set prefixes = set parsed_defs"
  by (simp add: prefixes_eq sort_prefixes_def)

lemma prefix_contains_is4: "prefix_contains p (Addr4 w) \<Longrightarrow> is4 (p_addr p)"
  by (auto simp: prefix_contains.simps split: addr.splits)

lemma prefix_contains_is6: "prefix_contains p (Addr6 w z) \<Longrightarrow> is6 (p_addr p)"
  by (auto simp: prefix_contains.simps split: addr.splits)

lemma find_prefixes4:
  "find (\<lambda>e. prefix_contains (e_prefix e) (Addr4 w)) prefixes =
   find (\<lambda>e. prefix_contains (e_prefix e) (Addr4 w)) entries4"
  unfolding prefixes_eq sort_parsed_defs(1)[symmetric]
  by (rule find_filter_imp[symmetric], erule prefix_contains_is4)

lemma find_prefixes6:
  "find (\<lambda>e. prefix_contains (e_prefix e) (Addr6 w z)) prefixes =
   find (\<lambda>e. prefix_contains (e_prefix e) (Addr6 w z)) entries6"
  unfolding prefixes_eq sort_parsed_defs(2)[symmetric]
  by (rule find_filter_imp[symmetric], erule prefix_contains_is6)

lemma tables_aligned:
  "list_all (\<lambda>(q, n, c). 2 ^ (32 - n) dvd unat q) table4"
  "list_all (\<lambda>(q, n, c). 2 ^ (128 - n) dvd unat q) table6"
  by (simp_all add: table4_def table6_def)

section \<open>Intervals\<close>

text \<open>The reserved ranges as address intervals, in the order \<open>Match\<close> tries them.\<close>

definition ip4 :: "nat \<Rightarrow> nat \<Rightarrow> nat \<Rightarrow> nat \<Rightarrow> nat" where
  "ip4 a b c d = ((a * 256 + b) * 256 + c) * 256 + d"

definition intervals4 :: "(nat \<times> nat \<times> category) list" where
  "intervals4 =
     [(ip4 255 255 255 255, ip4 255 255 255 255, CatBroadcast),
      (ip4 192 0 0 0, ip4 192 0 0 255, CatReserved),
      (ip4 192 0 2 0, ip4 192 0 2 255, CatDocumentation),
      (ip4 192 88 99 0, ip4 192 88 99 255, CatReserved),
      (ip4 198 51 100 0, ip4 198 51 100 255, CatDocumentation),
      (ip4 203 0 113 0, ip4 203 0 113 255, CatDocumentation),
      (ip4 169 254 0 0, ip4 169 254 255 255, CatLinkLocal),
      (ip4 192 168 0 0, ip4 192 168 255 255, CatPrivate),
      (ip4 198 18 0 0, ip4 198 19 255 255, CatBenchmark),
      (ip4 172 16 0 0, ip4 172 31 255 255, CatPrivate),
      (ip4 100 64 0 0, ip4 100 127 255 255, CatCGNAT),
      (ip4 0 0 0 0, ip4 0 255 255 255, CatUnspecified),
      (ip4 10 0 0 0, ip4 10 255 255 255, CatPrivate),
      (ip4 127 0 0 0, ip4 127 255 255 255, CatLoopback),
      (ip4 224 0 0 0, ip4 239 255 255 255, CatMulticast),
      (ip4 240 0 0 0, ip4 255 255 255 255, CatReserved)]"

definition intervals6 :: "(nat \<times> nat \<times> category) list" where
  "intervals6 =
     [(0, 0, CatUnspecified), (1, 1, CatLoopback),
      (0xFFFF00000000, 0xFFFFFFFFFFFF, CatV4Mapped),
      (0x0064FF9B000000000000000000000000, 0x0064FF9B0000000000000000FFFFFFFF, CatReserved),
      (0x01000000000000000000000000000000, 0x0100000000000000FFFFFFFFFFFFFFFF, CatDiscard),
      (0x20010000000000000000000000000000, 0x20010000FFFFFFFFFFFFFFFFFFFFFFFF, CatTeredo),
      (0x20010DB8000000000000000000000000, 0x20010DB8FFFFFFFFFFFFFFFFFFFFFFFF, CatDocumentation),
      (0xFE800000000000000000000000000000, 0xFEBFFFFFFFFFFFFFFFFFFFFFFFFFFFFF, CatLinkLocal),
      (0xFF000000000000000000000000000000, 0xFFFFFFFFFFFFFFFFFFFFFFFFFFFFFFFF, CatMulticast),
      (0xFC000000000000000000000000000000, 0xFDFFFFFFFFFFFFFFFFFFFFFFFFFFFFFF, CatULA)]"

definition in_interval :: "nat \<Rightarrow> nat \<times> nat \<times> category \<Rightarrow> bool" where
  "in_interval n i = (case i of (lo, hi, c) \<Rightarrow> lo \<le> n \<and> n \<le> hi)"

definition interval_category :: "(nat \<times> nat \<times> category) list \<Rightarrow> nat \<Rightarrow> category" where
  "interval_category ivs n =
     (case find (in_interval n) ivs of None \<Rightarrow> CatPublic | Some (_, _, c) \<Rightarrow> c)"

lemma intervals_eq:
  "intervals4 = map (\<lambda>(q, n, c). (unat q, unat q + 2 ^ (32 - n) - 1, c)) table4"
  "intervals6 = map (\<lambda>(q, n, c). (unat q, unat q + 2 ^ (128 - n) - 1, c)) table6"
  by (simp_all add: intervals4_def intervals6_def table4_def table6_def ip4_def)

lemma find_entries4:
  "find (\<lambda>e. prefix_contains (e_prefix e) (Addr4 w)) entries4 =
   map_option (\<lambda>(q, n, c). mk_entry (Addr4 q) n c)
     (find (\<lambda>(q, n, c). in_interval (unat w) (unat q, unat q + 2 ^ (32 - n) - 1, c)) table4)"
proof -
  have "find ((\<lambda>e. prefix_contains (e_prefix e) (Addr4 w)) \<circ> (\<lambda>(q, n, c). mk_entry (Addr4 q) n c)) table4
      = find (\<lambda>(q, n, c). in_interval (unat w) (unat q, unat q + 2 ^ (32 - n) - 1, c)) table4"
  proof (rule find_cong_set, clarify)
    fix q n c
    assume "(q, n, c) \<in> set table4"
    with tables_aligned(1) have "2 ^ (32 - n) dvd unat q" by (auto simp: list_all_iff)
    then show "((\<lambda>e. prefix_contains (e_prefix e) (Addr4 w)) \<circ>
        (\<lambda>(q, n, c). mk_entry (Addr4 q) n c)) (q, n, c) =
        in_interval (unat w) (unat q, unat q + 2 ^ (32 - n) - 1, c)"
      using prefix_contains4_iff[of "\<lparr>p_addr = Addr4 q, p_bits = n\<rparr>" q w]
      by (simp only: in_interval_def block_bound_le prod.case comp_def mk_entry_sel ip_prefix.simps)
  qed
  then show ?thesis by (simp add: entries4_def find_map)
qed

lemma find_entries6:
  "find (\<lambda>e. prefix_contains (e_prefix e) (Addr6 w [])) entries6 =
   map_option (\<lambda>(q, n, c). mk_entry (Addr6 q []) n c)
     (find (\<lambda>(q, n, c). in_interval (unat w) (unat q, unat q + 2 ^ (128 - n) - 1, c)) table6)"
proof -
  have "find ((\<lambda>e. prefix_contains (e_prefix e) (Addr6 w [])) \<circ> (\<lambda>(q, n, c). mk_entry (Addr6 q []) n c)) table6
      = find (\<lambda>(q, n, c). in_interval (unat w) (unat q, unat q + 2 ^ (128 - n) - 1, c)) table6"
  proof (rule find_cong_set, clarify)
    fix q n c
    assume "(q, n, c) \<in> set table6"
    with tables_aligned(2) have "2 ^ (128 - n) dvd unat q" by (auto simp: list_all_iff)
    then show "((\<lambda>e. prefix_contains (e_prefix e) (Addr6 w [])) \<circ>
        (\<lambda>(q, n, c). mk_entry (Addr6 q []) n c)) (q, n, c) =
        in_interval (unat w) (unat q, unat q + 2 ^ (128 - n) - 1, c)"
      using prefix_contains6_iff[of "\<lparr>p_addr = Addr6 q [], p_bits = n\<rparr>" q "[]" w]
      by (simp only: in_interval_def block_bound_le prod.case comp_def mk_entry_sel ip_prefix.simps)
  qed
  then show ?thesis by (simp add: entries6_def find_map)
qed

lemma match_bogon4: "match_bogon (Addr4 w) = interval_category intervals4 (unat w)"
  by (auto simp: match_bogon_def is_valid_def find_prefixes4 find_entries4 interval_category_def
      intervals_eq(1) find_map comp_def case_prod_unfold split: option.split)

lemma match_bogon6:
  "drop_bit 32 w \<noteq> 0xFFFF \<Longrightarrow>
   match_bogon (Addr6 w []) = interval_category intervals6 (unat w)"
  by (auto simp: match_bogon_def is_valid_def find_prefixes6 find_entries6 interval_category_def
      intervals_eq(2) find_map comp_def case_prod_unfold split: option.split)

lemma match_bogon_unmap: "match_bogon (unmap a) = match_bogon a"
  by (simp add: match_bogon_def)

lemma match_bogon_zone:
  "z \<noteq> [] \<Longrightarrow> drop_bit 32 w \<noteq> 0xFFFF \<Longrightarrow> match_bogon (Addr6 w z) = CatPublic"
  by (auto simp: match_bogon_def is_valid_def prefix_contains_zone
      split: option.split dest!: find_SomeD)

lemma interval_category_mem:
  "interval_category ivs n = c \<Longrightarrow> c \<noteq> CatPublic \<Longrightarrow> \<exists>lo hi. (lo, hi, c) \<in> set ivs \<and> lo \<le> n \<and> n \<le> hi"
  by (force simp: interval_category_def in_interval_def split: option.splits prod.splits dest: find_SomeD)

text \<open>Evaluation by intervals instead of the parsed and sorted table.\<close>

lemma match_bogon_code [code]:
  "match_bogon a =
     (case unmap a of
        AddrZero \<Rightarrow> CatReserved
      | Addr4 w \<Rightarrow> interval_category intervals4 (unat w)
      | Addr6 w z \<Rightarrow> if z = [] then interval_category intervals6 (unat w) else CatPublic)"
  using match_bogon_unmap[of a]
  by (cases a rule: unmap_cases)
    (auto simp: match_bogon4 match_bogon6 match_bogon_zone, simp add: match_bogon_def is_valid_def)

section \<open>Properties\<close>

text \<open>
  \<open>init\<close> never panics: all 26 literals of the table parse, and the slice \<open>Match\<close> walks is a
  permutation of the parsed table ordered from the longest prefix to the shortest.
\<close>

theorem bogon_init_ok:
  "\<exists>es. parse_defs bogon_defs = Inr es \<and> bogon_init = Inr prefixes \<and>
     mset prefixes = mset es \<and> length prefixes = 26 \<and>
     sorted_wrt (\<lambda>a b. p_bits (e_prefix b) \<le> p_bits (e_prefix a)) prefixes"
proof -
  have "sorted_wrt (\<lambda>a b. p_bits (e_prefix b) \<le> p_bits (e_prefix a)) prefixes"
    using sorted_prefixes by (simp add: sorted_map)
  moreover have "length parsed_defs = 26" by (simp add: parsed_defs_def)
  ultimately show ?thesis
    using parse_defs_ok bogon_init_eq
    by (intro exI[of _ parsed_defs]) (simp add: prefixes_eq sort_prefixes_def)
qed

text \<open>
  C17: For every IPv4 address, also one written as an IPv4-mapped IPv6 address, \<open>Match\<close> returns the
  category of the reserved interval that contains it and \<open>CatPublic\<close> outside all sixteen of them.
\<close>

theorem match_v4_intervals:
  assumes "unmap a = Addr4 w"
  shows "match_bogon a = interval_category intervals4 (unat w)"
proof -
  have "match_bogon a = match_bogon (Addr4 w)" using assms match_bogon_unmap[of a] by simp
  then show ?thesis by (simp add: match_bogon4)
qed

theorem match_v4_intervals_witness:
  "match_bogon (Addr6 0xFFFFC0A80101 []) = CatPrivate"
  using match_v4_intervals[of "Addr6 0xFFFFC0A80101 []" "0xC0A80101"]
  by (simp add: interval_category_def intervals4_def in_interval_def ip4_def)

text \<open>
  For every IPv6 address without a zone that is not IPv4-mapped, \<open>Match\<close> returns the category of the
  first reserved IPv6 interval that contains it and \<open>CatPublic\<close> outside all ten of them.
\<close>

theorem match_v6_intervals:
  assumes "unmap a = Addr6 w []"
  shows "match_bogon a = interval_category intervals6 (unat w)"
proof -
  have nm: "drop_bit 32 w \<noteq> 0xFFFF"
    using assms by (cases a) (auto split: if_splits)
  have "match_bogon a = match_bogon (Addr6 w [])" using assms match_bogon_unmap[of a] by simp
  then show ?thesis by (simp add: match_bogon6[OF nm])
qed

theorem match_v6_intervals_witness: "match_bogon (Addr6 0xFE800000000000000000000000000001 []) = CatLinkLocal"
  using match_v6_intervals[of "Addr6 0xFE800000000000000000000000000001 []"]
  by (simp add: interval_category_def intervals6_def in_interval_def)

text \<open>
  Longest prefix wins: when any prefix of the table contains the (unmapped) address, \<open>Match\<close> returns
  the category of one that contains it and is at least as long.
\<close>

theorem match_longest_prefix:
  assumes "is_valid a" and "e \<in> set prefixes" and "prefix_contains (e_prefix e) (unmap a)"
  shows "\<exists>e' \<in> set prefixes. prefix_contains (e_prefix e') (unmap a) \<and>
    p_bits (e_prefix e) \<le> p_bits (e_prefix e') \<and> match_bogon a = e_cat e'"
proof -
  let ?P = "\<lambda>e. prefix_contains (e_prefix e) (unmap a)"
  obtain e' where f: "find ?P prefixes = Some e'"
    using assms(2,3) by (cases "find ?P prefixes") (auto simp: find_None_iff)
  have "- int (p_bits (e_prefix e')) \<le> - int (p_bits (e_prefix e))"
    using find_sorted_least[OF sorted_prefixes f assms(2,3)] .
  then show ?thesis
    using find_SomeD[OF f] f assms(1) by (intro bexI[of _ e']) (simp_all add: match_bogon_def)
qed

theorem match_longest_prefix_witness:
  "match_bogon (Addr4 0xFFFFFFFF) = CatBroadcast \<and>
   (\<exists>e' \<in> set prefixes. prefix_contains (e_prefix e') (Addr4 0xFFFFFFFF) \<and>
     4 \<le> p_bits (e_prefix e') \<and> match_bogon (Addr4 0xFFFFFFFF) = e_cat e')"
proof
  show "match_bogon (Addr4 0xFFFFFFFF) = CatBroadcast"
    by (simp add: match_bogon4 interval_category_def intervals4_def in_interval_def ip4_def)
  have "mk_entry (Addr4 0xF0000000) 4 CatReserved \<in> set prefixes"
    by (simp add: set_prefixes parsed_defs_def)
  moreover have "prefix_contains (e_prefix (mk_entry (Addr4 0xF0000000) 4 CatReserved)) (Addr4 0xFFFFFFFF)"
    by (simp add: prefix_contains4_iff)
  ultimately show "\<exists>e' \<in> set prefixes. prefix_contains (e_prefix e') (Addr4 0xFFFFFFFF) \<and>
     4 \<le> p_bits (e_prefix e') \<and> match_bogon (Addr4 0xFFFFFFFF) = e_cat e'"
    using match_longest_prefix[of "Addr4 0xFFFFFFFF" "mk_entry (Addr4 0xF0000000) 4 CatReserved"]
    by (simp add: is_valid_def)
qed

text \<open>
  \<open>Match\<close> never answers \<open>CatV4Mapped\<close>: the address is unmapped first, so the ::ffff:0:0/96 entry of
  the table is dead.
\<close>

theorem match_never_v4mapped: "match_bogon a \<noteq> CatV4Mapped"
proof (cases a rule: unmap_cases)
  case zero
  then show ?thesis using match_bogon_unmap[of a] by (simp add: match_bogon_def is_valid_def)
next
  case (v4 w)
  then have "match_bogon a = interval_category intervals4 (unat w)"
    using match_bogon_unmap[of a] by (simp add: match_bogon4)
  then show ?thesis
    using interval_category_mem[of intervals4 "unat w" CatV4Mapped] by (auto simp: intervals4_def)
next
  case (v6 w z)
  show ?thesis
  proof (cases "z = []")
    case True
    then have "match_bogon a = interval_category intervals6 (unat w)"
      using match_bogon_unmap[of a] v6 by (simp add: match_bogon6)
    moreover have "\<not> (0xFFFF00000000 \<le> unat w \<and> unat w \<le> 0xFFFFFFFFFFFF)"
    proof
      assume b: "0xFFFF00000000 \<le> unat w \<and> unat w \<le> 0xFFFFFFFFFFFF"
      have "unat (drop_bit 32 w) = unat w div 2 ^ 32"
        by (simp add: drop_bit_eq_div unat_div)
      also have "\<dots> = 0xFFFF" using b by (intro div_nat_eqI) simp_all
      finally show False using v6 by (simp add: word_unat_eq_iff)
    qed
    ultimately show ?thesis
      using interval_category_mem[of intervals6 "unat w" CatV4Mapped] by (auto simp: intervals6_def)
  next
    case False
    then show ?thesis using v6 match_bogon_unmap[of a] by (simp add: match_bogon_zone)
  qed
qed

text \<open>
  An address with an IPv6 zone is never reserved for \<open>Match\<close>, not even a link-local one:
  \<open>Prefix.Contains\<close> is false for zoned addresses and \<open>Match\<close> does not strip the zone.
\<close>

theorem match_zone_public:
  assumes "unmap a = Addr6 w z" and "z \<noteq> []"
  shows "match_bogon a = CatPublic"
proof -
  have "drop_bit 32 w \<noteq> 0xFFFF" using assms(1) by (cases a) (auto split: if_splits)
  then show ?thesis using match_bogon_zone[OF assms(2)] match_bogon_unmap[of a] assms(1) by simp
qed

theorem match_zone_public_witness:
  "parse_addr ''fe80::1%eth0'' = Some (Addr6 0xFE800000000000000000000000000001 ''eth0'') \<and>
   match_bogon (Addr6 0xFE800000000000000000000000000001 ''eth0'') = CatPublic"
proof
  show "parse_addr ''fe80::1%eth0'' = Some (Addr6 0xFE800000000000000000000000000001 ''eth0'')"
    by code_simp
  show "match_bogon (Addr6 0xFE800000000000000000000000000001 ''eth0'') = CatPublic"
    using match_zone_public[of "Addr6 0xFE800000000000000000000000000001 ''eth0''"] by simp
qed

end
