(* ===== verification/Domain.thy ===== *)
theory Domain
  imports NetIP
begin

text \<open>
  \<open>internal/domain\<close>: the suffix tables of \<open>cctld.go\<close>, \<open>idn.go\<close> and \<open>gtld.go\<close> and \<open>Country\<close> of
  \<open>suffix.go\<close>.  The public-suffix list (\<open>golang.org/x/net/publicsuffix\<close>) and the IDNA conversion
  (\<open>golang.org/x/net/idna\<close>) are not part of the repository: they are the parameters \<open>psl\<close> and
  \<open>to_ascii\<close> of the definitions that call them.
\<close>

section \<open>The suffix tables\<close>

text \<open>The entries of \<open>ccTLDMap\<close>, in the order of the source.\<close>

definition cctld_a_l :: "(string \<times> string) list" where
  "cctld_a_l =
     [(''ac'', ''SH''), (''ad'', ''AD''), (''ae'', ''AE''), (''af'', ''AF''), (''ag'', ''AG''), (''ai'', ''AI''),
      (''al'', ''AL''), (''am'', ''AM''), (''ao'', ''AO''), (''aq'', ''AQ''), (''ar'', ''AR''), (''as'', ''AS''),
      (''at'', ''AT''), (''au'', ''AU''), (''aw'', ''AW''), (''ax'', ''AX''), (''az'', ''AZ''), (''ba'', ''BA''),
      (''bb'', ''BB''), (''bd'', ''BD''), (''be'', ''BE''), (''bf'', ''BF''), (''bg'', ''BG''), (''bh'', ''BH''),
      (''bi'', ''BI''), (''bj'', ''BJ''), (''bm'', ''BM''), (''bn'', ''BN''), (''bo'', ''BO''), (''br'', ''BR''),
      (''bs'', ''BS''), (''bt'', ''BT''), (''bv'', ''BV''), (''bw'', ''BW''), (''by'', ''BY''), (''bz'', ''BZ''),
      (''ca'', ''CA''), (''cc'', ''CC''), (''cd'', ''CD''), (''cf'', ''CF''), (''cg'', ''CG''), (''ch'', ''CH''),
      (''ci'', ''CI''), (''ck'', ''CK''), (''cl'', ''CL''), (''cm'', ''CM''), (''cn'', ''CN''), (''co'', ''CO''),
      (''cr'', ''CR''), (''cu'', ''CU''), (''cv'', ''CV''), (''cw'', ''CW''), (''cx'', ''CX''), (''cy'', ''CY''),
      (''cz'', ''CZ''), (''de'', ''DE''), (''dj'', ''DJ''), (''dk'', ''DK''), (''dm'', ''DM''), (''do'', ''DO''),
      (''dz'', ''DZ''), (''ec'', ''EC''), (''ee'', ''EE''), (''eg'', ''EG''), (''er'', ''ER''), (''es'', ''ES''),
      (''et'', ''ET''), (''eu'', ''EU''), (''fi'', ''FI''), (''fj'', ''FJ''), (''fk'', ''FK''), (''fm'', ''FM''),
      (''fo'', ''FO''), (''fr'', ''FR''), (''ga'', ''GA''), (''gb'', ''GB''), (''gd'', ''GD''), (''ge'', ''GE''),
      (''gf'', ''GF''), (''gg'', ''GG''), (''gh'', ''GH''), (''gi'', ''GI''), (''gl'', ''GL''), (''gm'', ''GM''),
      (''gn'', ''GN''), (''gp'', ''GP''), (''gq'', ''GQ''), (''gr'', ''GR''), (''gs'', ''GS''), (''gt'', ''GT''),
      (''gu'', ''GU''), (''gw'', ''GW''), (''gy'', ''GY''), (''hk'', ''HK''), (''hm'', ''HM''), (''hn'', ''HN''),
      (''hr'', ''HR''), (''ht'', ''HT''), (''hu'', ''HU''), (''id'', ''ID''), (''ie'', ''IE''), (''il'', ''IL''),
      (''im'', ''IM''), (''in'', ''IN''), (''io'', ''IO''), (''iq'', ''IQ''), (''ir'', ''IR''), (''is'', ''IS''),
      (''it'', ''IT''), (''je'', ''JE''), (''jm'', ''JM''), (''jo'', ''JO''), (''jp'', ''JP''), (''ke'', ''KE''),
      (''kg'', ''KG''), (''kh'', ''KH''), (''ki'', ''KI''), (''km'', ''KM''), (''kn'', ''KN''), (''kp'', ''KP''),
      (''kr'', ''KR''), (''kw'', ''KW''), (''ky'', ''KY''), (''kz'', ''KZ''), (''la'', ''LA''), (''lb'', ''LB''),
      (''lc'', ''LC''), (''li'', ''LI''), (''lk'', ''LK''), (''lr'', ''LR''), (''ls'', ''LS''), (''lt'', ''LT''),
      (''lu'', ''LU''), (''lv'', ''LV''), (''ly'', ''LY'')]"

definition cctld_m_z :: "(string \<times> string) list" where
  "cctld_m_z =
     [(''ma'', ''MA''), (''mc'', ''MC''), (''md'', ''MD''), (''me'', ''ME''), (''mg'', ''MG''), (''mh'', ''MH''),
      (''mk'', ''MK''), (''ml'', ''ML''), (''mm'', ''MM''), (''mn'', ''MN''), (''mo'', ''MO''), (''mp'', ''MP''),
      (''mq'', ''MQ''), (''mr'', ''MR''), (''ms'', ''MS''), (''mt'', ''MT''), (''mu'', ''MU''), (''mv'', ''MV''),
      (''mw'', ''MW''), (''mx'', ''MX''), (''my'', ''MY''), (''mz'', ''MZ''), (''na'', ''NA''), (''nc'', ''NC''),
      (''ne'', ''NE''), (''nf'', ''NF''), (''ng'', ''NG''), (''ni'', ''NI''), (''nl'', ''NL''), (''no'', ''NO''),
      (''np'', ''NP''), (''nr'', ''NR''), (''nu'', ''NU''), (''nz'', ''NZ''), (''om'', ''OM''), (''pa'', ''PA''),
      (''pe'', ''PE''), (''pf'', ''PF''), (''pg'', ''PG''), (''ph'', ''PH''), (''pk'', ''PK''), (''pl'', ''PL''),
      (''pm'', ''PM''), (''pn'', ''PN''), (''pr'', ''PR''), (''ps'', ''PS''), (''pt'', ''PT''), (''pw'', ''PW''),
      (''py'', ''PY''), (''qa'', ''QA''), (''re'', ''RE''), (''ro'', ''RO''), (''rs'', ''RS''), (''ru'', ''RU''),
      (''rw'', ''RW''), (''sa'', ''SA''), (''sb'', ''SB''), (''sc'', ''SC''), (''sd'', ''SD''), (''se'', ''SE''),
      (''sg'', ''SG''), (''sh'', ''SH''), (''si'', ''SI''), (''sj'', ''SJ''), (''sk'', ''SK''), (''sl'', ''SL''),
      (''sm'', ''SM''), (''sn'', ''SN''), (''so'', ''SO''), (''sr'', ''SR''), (''ss'', ''SS''), (''st'', ''ST''),
      (''su'', ''SU''), (''sv'', ''SV''), (''sx'', ''SX''), (''sy'', ''SY''), (''sz'', ''SZ''), (''tc'', ''TC''),
      (''td'', ''TD''), (''tf'', ''TF''), (''tg'', ''TG''), (''th'', ''TH''), (''tj'', ''TJ''), (''tk'', ''TK''),
      (''tl'', ''TL''), (''tm'', ''TM''), (''tn'', ''TN''), (''to'', ''TO''), (''tr'', ''TR''), (''tt'', ''TT''),
      (''tv'', ''TV''), (''tw'', ''TW''), (''tz'', ''TZ''), (''ua'', ''UA''), (''ug'', ''UG''), (''uk'', ''GB''),
      (''us'', ''US''), (''uy'', ''UY''), (''uz'', ''UZ''), (''va'', ''VA''), (''vc'', ''VC''), (''ve'', ''VE''),
      (''vg'', ''VG''), (''vi'', ''VI''), (''vn'', ''VN''), (''vu'', ''VU''), (''wf'', ''WF''), (''ws'', ''WS''),
      (''ye'', ''YE''), (''yt'', ''YT''), (''za'', ''ZA''), (''zm'', ''ZM''), (''zw'', ''ZW'')]"

definition ccTLDMap :: "string \<rightharpoonup> string" where
  "ccTLDMap = map_of (cctld_a_l @ cctld_m_z)"

definition geo_gtld_entries :: "(string \<times> string) list" where
  "geo_gtld_entries =
     [(''tokyo'', ''JP''), (''kyoto'', ''JP''), (''nagoya'', ''JP''), (''osaka'', ''JP''),
      (''yokohama'', ''JP''), (''berlin'', ''DE''), (''hamburg'', ''DE''), (''koeln'', ''DE''),
      (''cologne'', ''DE''), (''bayern'', ''DE''), (''nrw'', ''DE''), (''ruhr'', ''DE''),
      (''saarland'', ''DE''), (''london'', ''GB''), (''scot'', ''GB''), (''wales'', ''GB''),
      (''cymru'', ''GB''), (''paris'', ''FR''), (''alsace'', ''FR''), (''bzh'', ''FR''),
      (''corsica'', ''FR''), (''nyc'', ''US''), (''vegas'', ''US''), (''miami'', ''US''),
      (''boston'', ''US''), (''lat'', ''US''), (''moscow'', ''RU''), (''tatar'', ''RU''),
      (''amsterdam'', ''NL''), (''frl'', ''NL''), (''barcelona'', ''ES''), (''madrid'', ''ES''),
      (''bcn'', ''ES''), (''gal'', ''ES''), (''eus'', ''ES''), (''istanbul'', ''TR''),
      (''brussels'', ''BE''), (''vlaanderen'', ''BE''), (''gent'', ''BE''), (''wien'', ''AT''),
      (''tirol'', ''AT''), (''quebec'', ''CA''), (''melbourne'', ''AU''), (''sydney'', ''AU''),
      (''dubai'', ''AE''), (''abudhabi'', ''AE''), (''capetown'', ''ZA''), (''durban'', ''ZA''),
      (''joburg'', ''ZA''), (''rio'', ''BR''), (''saarland2'', ''DE''), (''budapest'', ''HU''),
      (''helsinki'', ''FI''), (''stockholm'', ''SE''), (''zuerich'', ''CH''), (''swiss'', ''CH''),
      (''taipei'', ''TW''), (''seoul'', ''KR''), (''okinawa'', ''JP''), (''ryukyu'', ''JP'')]"

definition geoGTLDMap :: "string \<rightharpoonup> string" where
  "geoGTLDMap = map_of geo_gtld_entries"

definition idn_tld_entries :: "(string \<times> string) list" where
  "idn_tld_entries =
     [(''xn--p1ai'', ''RU''), (''xn--90a3ac'', ''RS''), (''xn--j1amh'', ''UA''),
      (''xn--fiqs8s'', ''CN''), (''xn--fiqz9s'', ''CN''), (''xn--kpry57d'', ''TW''),
      (''xn--kprw13d'', ''TW''), (''xn--3e0b707e'', ''KR''), (''xn--mgbaam7a8h'', ''AE''),
      (''xn--mgberp4a5d4ar'', ''SA''), (''xn--mgba3a4f16a'', ''IR''), (''xn--wgbh1c'', ''EG''),
      (''xn--wgbl6a'', ''QA''), (''xn--mgbbh1a71e'', ''IN''), (''xn--h2brj9c'', ''IN''),
      (''xn--fpcrj9c3d'', ''IN''), (''xn--gecrj9c'', ''IN''), (''xn--s9brj9c'', ''IN''),
      (''xn--xkc2dl3a5ee0h'', ''IN''), (''xn--45brj9c'', ''IN''), (''xn--2scrj9c'', ''IN''),
      (''xn--rvc1e0am3e'', ''IN''), (''xn--o3cw4h'', ''TH''), (''xn--q7ce6a'', ''LA''),
      (''xn--mix891f'', ''MO''), (''xn--node'', ''GE''), (''xn--qxa6a'', ''EU''),
      (''xn--ygbi2ammx'', ''PS''), (''xn--d1alf'', ''MK''), (''xn--clchc0ea0b2g2a9gcd'', ''SG''),
      (''xn--lgbbat1ad8j'', ''DZ''), (''xn--mgb9awbf'', ''OM''), (''xn--mgbai9azgqp6j'', ''PK''),
      (''xn--mgbtx2b'', ''IQ''), (''xn--mgbx4cd0ab'', ''MY''), (''xn--pgbs0dh'', ''TN''),
      (''xn--ygbi2ammj'', ''JO''), (''xn--54b7fta0cc'', ''BD''), (''xn--mgbc0a9azcg'', ''MA''),
      (''xn--l1acc'', ''MN'')]"

definition idnTLDMap :: "string \<rightharpoonup> string" where
  "idnTLDMap = map_of idn_tld_entries"

definition geo_country :: "string \<Rightarrow> string option" where
  "geo_country tld = geoGTLDMap (to_lower tld)"

definition idn_country :: "string \<Rightarrow> string option" where
  "idn_country tld = idnTLDMap (to_lower tld)"

section \<open>Country of a host name\<close>

text \<open>The tail of \<open>Country\<close>: the three maps in order, on the rightmost label of the public suffix.\<close>

definition country_of_tld :: "string \<Rightarrow> string \<times> string \<times> string" where
  "country_of_tld tld =
     (case ccTLDMap tld of
        Some mapped \<Rightarrow>
          if tld = ''eu'' then (mapped, ''cctld'', ''low'')
          else if tld = ''su'' then (mapped, ''cctld'', ''medium'')
          else (mapped, ''cctld'', ''high'')
      | None \<Rightarrow>
          (case idn_country tld of
             Some mapped \<Rightarrow> (mapped, ''idn'', ''high'')
           | None \<Rightarrow>
               (case geo_country tld of
                  Some mapped \<Rightarrow> (mapped, ''geo-gtld'', ''medium'')
                | None \<Rightarrow> ([], ''generic'', ''low''))))"

text \<open>
  \<open>to_ascii\<close> is the conversion with \<open>None\<close> for an error, \<open>psl\<close> the public suffix and whether ICANN
  manages it.
\<close>

definition country ::
  "(string \<Rightarrow> string option) \<Rightarrow> (string \<Rightarrow> string \<times> bool) \<Rightarrow> string \<Rightarrow> string \<times> string \<times> string" where
  "country to_ascii psl host0 =
     (if host0 = [] then ([], [], ''unknown'')
      else if net_parse_ip_ok host0 then ([], [], ''unknown'')
      else
        let host1 = to_lower (trim_suffix host0 ''.'') in
        if 253 < length host1 then ([], [], ''unknown'')
        else if \<not> contains host1 ''.'' then ([], [], ''unknown'')
        else
          let host = (case to_ascii host1 of Some ascii \<Rightarrow> ascii | None \<Rightarrow> host1);
              etld = fst (psl host) in
          if etld = [] then ([], ''generic'', ''low'')
          else country_of_tld (after_last CHR ''.'' etld))"

section \<open>The tables\<close>

definition cc_ok :: "string \<Rightarrow> bool" where
  "cc_ok cc \<longleftrightarrow> length cc = 2 \<and> list_all is_upper cc"

lemma tables_cc_ok:
  "list_all (\<lambda>(k, v). cc_ok v) (cctld_a_l @ cctld_m_z)"
  "list_all (\<lambda>(k, v). cc_ok v) idn_tld_entries"
  "list_all (\<lambda>(k, v). cc_ok v) geo_gtld_entries"
  by code_simp+

lemma maps_cc_ok:
  "ccTLDMap k = Some v \<Longrightarrow> cc_ok v" "idnTLDMap k = Some v \<Longrightarrow> cc_ok v" "geoGTLDMap k = Some v \<Longrightarrow> cc_ok v"
  using tables_cc_ok
  by (auto simp: ccTLDMap_def idnTLDMap_def geoGTLDMap_def list_all_iff dest!: map_of_SomeD
      simp del: map_of_append)

text \<open>
  The keys of the three tables differ already in length or in the prefix \<open>xn--\<close>; the ccTLD table is in
  alphabetical order.
\<close>

lemma tables_keys:
  "list_all (\<lambda>(k, v). length k = 2) (cctld_a_l @ cctld_m_z)"
  "list_all (\<lambda>(k, v). prefix ''xn--'' k) idn_tld_entries"
  "list_all (\<lambda>(k, v). 2 < length k \<and> \<not> prefix ''xn--'' k) geo_gtld_entries"
  by code_simp+

fun ascending :: "nat list \<Rightarrow> bool" where
  "ascending (x # y # zs) = (x < y \<and> ascending (y # zs))"
| "ascending _ = True"

lemma ascending_less: "ascending (x # xs) \<Longrightarrow> y \<in> set xs \<Longrightarrow> x < y"
  by (induction xs arbitrary: x) force+

lemma ascending_distinct: "ascending xs \<Longrightarrow> distinct xs"
proof (induction xs)
  case (Cons x xs)
  have "ascending xs" using Cons.prems by (cases xs) auto
  with Cons.IH ascending_less[OF Cons.prems] show ?case by auto
qed simp

lemma cctld_alphabetical: "ascending (map (\<lambda>(k, v). be_val (map of_char k)) (cctld_a_l @ cctld_m_z))"
  by code_simp

lemma tables_distinct:
  "distinct (map fst (cctld_a_l @ cctld_m_z))" "distinct (map fst idn_tld_entries)"
  "distinct (map fst geo_gtld_entries)"
proof -
  have "distinct (map (\<lambda>k. be_val (map of_char k)) (map fst (cctld_a_l @ cctld_m_z)))"
    using ascending_distinct[OF cctld_alphabetical]
    by (simp only: map_map comp_def case_prod_unfold)
  then show "distinct (map fst (cctld_a_l @ cctld_m_z))" by (simp only: distinct_map)
qed code_simp+

lemma tables_identity:
  "list_all (\<lambda>(k, v). v = to_upper k \<or> (k, v) = (''ac'', ''SH'') \<or> (k, v) = (''uk'', ''GB''))
     (cctld_a_l @ cctld_m_z)"
  by code_simp

lemma ccTLDMap_mem: "ccTLDMap k = Some v \<Longrightarrow> (k, v) \<in> set (cctld_a_l @ cctld_m_z)"
  unfolding ccTLDMap_def by (rule map_of_SomeD)

lemma idnTLDMap_mem: "idnTLDMap k = Some v \<Longrightarrow> (k, v) \<in> set idn_tld_entries"
  unfolding idnTLDMap_def by (rule map_of_SomeD)

lemma geoGTLDMap_mem: "geoGTLDMap k = Some v \<Longrightarrow> (k, v) \<in> set geo_gtld_entries"
  unfolding geoGTLDMap_def by (rule map_of_SomeD)

lemma country_of_tld_cases:
  obtains (cctld) v conf where "country_of_tld tld = (v, ''cctld'', conf)" "cc_ok v"
      "conf = (if tld = ''eu'' then ''low'' else if tld = ''su'' then ''medium'' else ''high'')"
  | (idn) v where "country_of_tld tld = (v, ''idn'', ''high'')" "cc_ok v"
  | (geo) v where "country_of_tld tld = (v, ''geo-gtld'', ''medium'')" "cc_ok v"
  | (generic) "country_of_tld tld = ([], ''generic'', ''low'')"
  by (cases "ccTLDMap tld"; cases "idn_country tld"; cases "geo_country tld")
    (auto simp: country_of_tld_def idn_country_def geo_country_def dest: maps_cc_ok)

lemma country_cases:
  obtains (none) "country ta psl host = ([], [], ''unknown'')"
  | (generic) "country ta psl host = ([], ''generic'', ''low'')"
  | (tld) t where "country ta psl host = country_of_tld t"
proof -
  have "country ta psl host = ([], [], ''unknown'') \<or> country ta psl host = ([], ''generic'', ''low'') \<or>
      (\<exists>t. country ta psl host = country_of_tld t)"
    unfolding country_def Let_def by auto
  with that show thesis by blast
qed

text \<open>The rightmost label of a suffix cut at a label boundary is the rightmost label of the whole.\<close>

lemma after_last_boundary: "after_last d (pre @ d # e) = after_last d e"
proof (cases "d \<in> set e")
  case True
  then show ?thesis by (simp add: after_last_def takeWhile_append1)
next
  case False
  then show ?thesis by simp
qed

lemma after_last_split: "after_last d s = s \<or> (\<exists>pre. s = pre @ d # after_last d s)"
proof (cases "d \<in> set s")
  case True
  then obtain u v where "s = u @ d # v" "d \<notin> set v" using split_list_last by metis
  then show ?thesis by auto
qed simp

lemma country_of_tld_Nil [simp]: "country_of_tld [] = ([], ''generic'', ''low'')"
  by code_simp

section \<open>Properties\<close>

text \<open>
  What \<open>Country\<close> returns: a country, when there is one, is two upper-case letters; it is absent
  exactly when the suffix type is generic or empty; and the suffix type and the confidence are one of
  seven pairs.
\<close>

theorem country_result:
  "case country to_ascii psl host of (cc, ty, conf) \<Rightarrow>
     (cc = [] \<longleftrightarrow> ty \<in> {'''', ''generic''}) \<and> (cc = [] \<or> cc_ok cc) \<and>
     (ty, conf) \<in> {(''cctld'', ''high''), (''cctld'', ''medium''), (''cctld'', ''low''), (''idn'', ''high''),
       (''geo-gtld'', ''medium''), (''generic'', ''low''), ('''', ''unknown'')}"
proof (cases rule: country_cases[of to_ascii psl host])
  case (tld t)
  then show ?thesis
    by (cases rule: country_of_tld_cases[of t]) (auto simp: cc_ok_def)
qed simp_all

text \<open>
  C40: The public-suffix list does not influence \<open>Country\<close>: for every list whose answer is a suffix of
  the host cut at a label boundary (the documented behaviour of \<open>PublicSuffix\<close>), the result is the one
  of the trivial list that answers the last label.
\<close>

theorem country_last_label:
  assumes "\<And>h. fst (psl h) = h \<or> (\<exists>pre. h = pre @ ''.'' @ fst (psl h))"
  shows "country to_ascii psl host = country to_ascii (\<lambda>h. (after_last CHR ''.'' h, False)) host"
proof -
  have "after_last CHR ''.'' (fst (psl h)) = after_last CHR ''.'' h" for h
  proof -
    from assms[of h] show ?thesis
    proof
      assume "\<exists>pre. h = pre @ ''.'' @ fst (psl h)"
      then obtain pre where "h = pre @ CHR ''.'' # fst (psl h)" by auto
      then show ?thesis using after_last_boundary[of "CHR ''.''" pre "fst (psl h)"] by simp
    qed simp
  qed
  moreover have "after_last CHR ''.'' (after_last CHR ''.'' h) = after_last CHR ''.'' h" for h
    using after_last_no_sep[of "CHR ''.''" h] by simp
  moreover have "(if e = [] then ([], ''generic'', ''low'') else country_of_tld (after_last CHR ''.'' e))
      = country_of_tld (after_last CHR ''.'' e)" for e
    by (simp add: after_last_def)
  ultimately show ?thesis by (simp add: country_def Let_def)
qed

definition sample_psl :: "string \<Rightarrow> string \<times> bool" where
  "sample_psl h = (if suffix ''.co.id'' h then (''co.id'', True) else (after_last CHR ''.'' h, True))"

theorem country_last_label_witness:
  "country Some sample_psl ''Shop.Co.ID.'' =
     country Some (\<lambda>h. (after_last CHR ''.'' h, False)) ''Shop.Co.ID.'' \<and>
   country Some sample_psl ''Shop.Co.ID.'' = (''ID'', ''cctld'', ''high'')"
proof
  have "fst (sample_psl h) = h \<or> (\<exists>pre. h = pre @ ''.'' @ fst (sample_psl h))" for h
    using after_last_split[of "CHR ''.''" h] by (auto simp: sample_psl_def suffix_def)
  then show "country Some sample_psl ''Shop.Co.ID.'' =
      country Some (\<lambda>h. (after_last CHR ''.'' h, False)) ''Shop.Co.ID.''"
    by (rule country_last_label)
  show "country Some sample_psl ''Shop.Co.ID.'' = (''ID'', ''cctld'', ''high'')" by code_simp
qed

text \<open>
  The three suffix tables have no key in common and no key twice, so neither the order in which
  \<open>Country\<close> consults them nor the order of their entries matters.
\<close>

theorem suffix_tables_disjoint:
  "dom ccTLDMap \<inter> dom idnTLDMap = {} \<and> dom ccTLDMap \<inter> dom geoGTLDMap = {} \<and>
   dom idnTLDMap \<inter> dom geoGTLDMap = {} \<and>
   distinct (map fst (cctld_a_l @ cctld_m_z)) \<and> distinct (map fst idn_tld_entries) \<and>
   distinct (map fst geo_gtld_entries)"
proof -
  have "idnTLDMap k = None" "geoGTLDMap k = None" if "ccTLDMap k = Some v" for k v
  proof -
    have k: "length k = 2" using ccTLDMap_mem[OF that] tables_keys(1) by (auto simp: list_all_iff)
    show "idnTLDMap k = None"
      using k idnTLDMap_mem[of k] tables_keys(2)
      by (cases "idnTLDMap k") (auto simp: list_all_iff prefix_def)
    show "geoGTLDMap k = None"
      using k geoGTLDMap_mem[of k] tables_keys(3)
      by (cases "geoGTLDMap k") (auto simp: list_all_iff)
  qed
  moreover have "geoGTLDMap k = None" if "idnTLDMap k = Some v" for k v
    using idnTLDMap_mem[OF that] geoGTLDMap_mem[of k] tables_keys(2,3)
    by (cases "geoGTLDMap k") (auto simp: list_all_iff)
  ultimately have "dom ccTLDMap \<inter> dom idnTLDMap = {} \<and> dom ccTLDMap \<inter> dom geoGTLDMap = {} \<and>
      dom idnTLDMap \<inter> dom geoGTLDMap = {}"
    by fastforce
  then show ?thesis using tables_distinct by simp
qed

text \<open>
  Every entry of the ccTLD table maps a suffix to its own upper-case form, except ac to SH and uk to
  GB; the suffix tp, which the comment of the table lists, is not in it.
\<close>

theorem cctld_identity:
  assumes "ccTLDMap tld = Some cc"
  shows "(tld = ''ac'' \<and> cc = ''SH'') \<or> (tld = ''uk'' \<and> cc = ''GB'') \<or> (cc = to_upper tld \<and> tld \<noteq> ''tp'')"
proof -
  have "list_all (\<lambda>(k, v). k \<noteq> ''tp'') (cctld_a_l @ cctld_m_z)" by code_simp
  then show ?thesis using ccTLDMap_mem[OF assms] tables_identity by (auto simp: list_all_iff)
qed

theorem cctld_identity_witness: "''GB'' \<noteq> to_upper ''uk'' \<and> ccTLDMap ''uk'' = Some ''GB'' \<and> ''ID'' = to_upper ''id''"
proof -
  have "ccTLDMap ''id'' = Some ''ID''" by code_simp
  from cctld_identity[OF this] have "''ID'' = to_upper ''id''" by auto
  moreover have "''GB'' \<noteq> to_upper ''uk''" "ccTLDMap ''uk'' = Some ''GB''" by code_simp+
  ultimately show ?thesis by simp
qed

end
