(* ===== verification/Regex.thy ===== *)
theory Regex
  imports GoStrings
begin

text \<open>
  The fragment of Go's \<open>regexp\<close> the program uses: byte classes, case-folded literals, sequence,
  ordered alternation, \<open>?\<close>, \<open>*\<close> and \<open>\b\<close>.  A position is the text before it (reversed) and the text
  after it; a matcher returns the end positions in the order of preference of a leftmost-first search.
  The engine is proved equal to a relational semantics of the expressions.
\<close>

section \<open>Expressions\<close>

type_synonym pos = "string \<times> string"

datatype re =
    Eps
  | Cls "char \<Rightarrow> bool"
  | Lit string
  | Seq re re
  | Alt re re
  | Star re
  | WordB

definition is_word_char :: "char \<Rightarrow> bool" where
  "is_word_char c \<longleftrightarrow> is_digit c \<or> is_upper c \<or> is_lower c \<or> c = CHR ''_''"

text \<open>\<open>\b\<close>: exactly one of the two neighbours is an ASCII word character.\<close>

definition at_word_boundary :: "pos \<Rightarrow> bool" where
  "at_word_boundary p = (case p of (b, a) \<Rightarrow>
     (b \<noteq> [] \<and> is_word_char (hd b)) \<noteq> (a \<noteq> [] \<and> is_word_char (hd a)))"

definition step_class :: "(char \<Rightarrow> bool) \<Rightarrow> pos \<Rightarrow> pos list" where
  "step_class f p = (case p of (b, []) \<Rightarrow> [] | (b, c # a) \<Rightarrow> if f c then [(c # b, a)] else [])"

definition step_lit :: "string \<Rightarrow> pos \<Rightarrow> pos list" where
  "step_lit w p = (case p of (b, a) \<Rightarrow>
     if prefix w a then [(rev w @ b, drop (length w) a)] else [])"

text \<open>Greedy repetition; an iteration that consumes nothing is not taken.\<close>

fun step_star :: "(pos \<Rightarrow> pos list) \<Rightarrow> nat \<Rightarrow> pos \<Rightarrow> pos list" where
  "step_star m 0 p = [p]"
| "step_star m (Suc n) p =
     concat (map (step_star m n) (filter (\<lambda>q. length (snd q) < length (snd p)) (m p))) @ [p]"

primrec ends :: "re \<Rightarrow> pos \<Rightarrow> pos list" where
  "ends Eps p = [p]"
| "ends (Cls f) p = step_class f p"
| "ends (Lit w) p = step_lit w p"
| "ends (Seq r s) p = concat (map (ends s) (ends r p))"
| "ends (Alt r s) p = ends r p @ ends s p"
| "ends (Star r) p = step_star (ends r) (length (snd p)) p"
| "ends WordB p = (if at_word_boundary p then [p] else [])"

definition Opt :: "re \<Rightarrow> re" where
  "Opt r = Alt r Eps"

definition Plus :: "re \<Rightarrow> re" where
  "Plus r = Seq r (Star r)"

text \<open>
  A literal letter under \<open>(?i)\<close>: both cases, and the two characters outside ASCII that Unicode folds to
  an ASCII letter, KELVIN SIGN for k and LATIN SMALL LETTER LONG S for s, in UTF-8.
\<close>

definition ci_char :: "char \<Rightarrow> re" where
  "ci_char c =
     (let ascii = Cls (\<lambda>x. lower_char x = lower_char c) in
      if lower_char c = CHR ''k'' then Alt ascii (Lit [CHR 0xE2, CHR 0x84, CHR 0xAA])
      else if lower_char c = CHR ''s'' then Alt ascii (Lit [CHR 0xC5, CHR 0xBF])
      else ascii)"

fun ci_lit :: "string \<Rightarrow> re" where
  "ci_lit [] = Eps"
| "ci_lit (c # w) = Seq (ci_char c) (ci_lit w)"

fun alts :: "re list \<Rightarrow> re" where
  "alts [] = Cls (\<lambda>_. False)"
| "alts [r] = r"
| "alts (r # s # rs) = Alt r (alts (s # rs))"

definition is_space_char :: "char \<Rightarrow> bool" where
  "is_space_char c \<longleftrightarrow> c \<in> {CHR 0x09, CHR 0x0A, CHR 0x0C, CHR 0x0D, CHR 0x20}"

section \<open>Searching\<close>

text \<open>\<open>MatchString\<close>: some position of the input starts a match.\<close>

fun search_from :: "re \<Rightarrow> string \<Rightarrow> string \<Rightarrow> bool" where
  "search_from r b [] = (ends r (b, []) \<noteq> [])"
| "search_from r b (c # a) = (ends r (b, c # a) \<noteq> [] \<or> search_from r (c # b) a)"

definition match_string :: "re \<Rightarrow> string \<Rightarrow> bool" where
  "match_string r s = search_from r [] s"

section \<open>Relational semantics\<close>

inductive matches :: "re \<Rightarrow> pos \<Rightarrow> pos \<Rightarrow> bool" where
  m_eps: "matches Eps p p"
| m_cls: "f c \<Longrightarrow> matches (Cls f) (b, c # a) (c # b, a)"
| m_lit: "matches (Lit w) (b, w @ a) (rev w @ b, a)"
| m_seq: "matches r p q \<Longrightarrow> matches s q t \<Longrightarrow> matches (Seq r s) p t"
| m_alt1: "matches r p q \<Longrightarrow> matches (Alt r s) p q"
| m_alt2: "matches s p q \<Longrightarrow> matches (Alt r s) p q"
| m_star0: "matches (Star r) p p"
| m_star: "matches r p q \<Longrightarrow> matches (Star r) q t \<Longrightarrow> matches (Star r) p t"
| m_wordb: "at_word_boundary p \<Longrightarrow> matches WordB p p"

inductive_simps matches_simps [simp]:
  "matches Eps p q" "matches (Cls f) p q" "matches (Lit w) p q" "matches (Seq r s) p q"
  "matches (Alt r s) p q" "matches WordB p q"

text \<open>A match moves forward over the same text.\<close>

lemma matches_text: "matches r p q \<Longrightarrow> \<exists>w. snd p = w @ snd q \<and> fst q = rev w @ fst p"
proof (induction rule: matches.induct)
  case (m_seq r p q s t)
  then show ?case by (metis append.assoc rev_append)
next
  case (m_star r p q t)
  then show ?case by (metis append.assoc rev_append)
qed auto

lemma matches_length: "matches r p q \<Longrightarrow> length (snd q) \<le> length (snd p)"
  using matches_text by fastforce

lemma matches_same: "matches r p q \<Longrightarrow> length (snd p) \<le> length (snd q) \<Longrightarrow> q = p"
proof -
  assume "matches r p q" "length (snd p) \<le> length (snd q)"
  with matches_text[of r p q] show ?thesis by (cases p; cases q) auto
qed

lemma star_sound:
  assumes "\<And>p q. q \<in> set (m p) \<Longrightarrow> matches r p q"
  shows "q \<in> set (step_star m n p) \<Longrightarrow> matches (Star r) p q"
  by (induction n arbitrary: p) (auto intro: m_star0 m_star assms)

lemma star_complete:
  assumes "\<And>p q. matches r p q \<Longrightarrow> q \<in> set (m p)"
  shows "matches (Star r) p q \<Longrightarrow> length (snd p) \<le> n \<Longrightarrow> q \<in> set (step_star m n p)"
proof (induction "Star r" p q arbitrary: n rule: matches.induct)
  case (m_star0 p)
  then show ?case by (cases n) auto
next
  case (m_star p q t)
  show ?case
  proof (cases "length (snd q) < length (snd p)")
    case True
    then obtain k where k: "n = Suc k" using m_star.prems by (cases n) auto
    have "t \<in> set (step_star m k q)" using True m_star.prems k by (intro m_star.hyps(4)) simp
    moreover have "q \<in> set (m p)" by (rule assms) (rule m_star.hyps(1))
    ultimately show ?thesis using True k by (auto simp del: split_paired_Ex split_paired_All)
  next
    case False
    then have "q = p" using matches_same[OF m_star.hyps(1)] by simp
    then show ?thesis using m_star.hyps(4) m_star.prems by simp
  qed
qed

text \<open>The engine computes exactly the end positions of the relation.\<close>

lemma ends_iff: "q \<in> set (ends r p) \<longleftrightarrow> matches r p q"
proof (induction r arbitrary: p q)
  case (Cls f)
  then show ?case by (cases p; cases "snd p") (auto simp: step_class_def)
next
  case (Lit w)
  then show ?case by (cases p; cases q) (auto simp: step_lit_def prefix_def)
next
  case (Star r)
  show ?case
    using star_sound[of "ends r" r q "length (snd p)" p] star_complete[of r "ends r" p q "length (snd p)"] Star
    by auto
next
  case (Seq r s)
  have "q \<in> set (ends (Seq r s) p) \<longleftrightarrow> (\<exists>t \<in> set (ends r p). q \<in> set (ends s t))" by simp
  also have "\<dots> \<longleftrightarrow> (\<exists>t. matches r p t \<and> matches s t q)" by (simp only: Seq Bex_def)
  finally show ?case by simp
qed auto

lemma search_from_iff:
  "search_from r b s \<longleftrightarrow> (\<exists>u v q. s = u @ v \<and> matches r (rev u @ b, v) q)"
proof (induction s arbitrary: b)
  case Nil
  have "ends r (b, []) \<noteq> [] \<longleftrightarrow> (\<exists>q. matches r (b, []) q)"
    using ends_iff[of _ r "(b, [])"] by (metis list.set_intros(1) neq_Nil_conv list.set(1) empty_iff)
  then show ?case by simp
next
  case (Cons c s)
  have e: "ends r (b, c # s) \<noteq> [] \<longleftrightarrow> (\<exists>q. matches r (b, c # s) q)"
    using ends_iff[of _ r "(b, c # s)"] by (metis list.set_intros(1) neq_Nil_conv list.set(1) empty_iff)
  show ?case
  proof
    assume "search_from r b (c # s)"
    then consider "\<exists>q. matches r (b, c # s) q" | "search_from r (c # b) s" using e by auto
    then show "\<exists>u v q. c # s = u @ v \<and> matches r (rev u @ b, v) q"
    proof cases
      case 1
      then show ?thesis by (intro exI[of _ "[]"] exI[of _ "c # s"]) simp
    next
      case 2
      then obtain u v q where "s = u @ v" "matches r (rev u @ c # b, v) q" using Cons.IH by blast
      then show ?thesis by (intro exI[of _ "c # u"] exI[of _ v] exI[of _ q]) simp
    qed
  next
    assume "\<exists>u v q. c # s = u @ v \<and> matches r (rev u @ b, v) q"
    then obtain u v q where uv: "c # s = u @ v" "matches r (rev u @ b, v) q" by blast
    show "search_from r b (c # s)"
    proof (cases u)
      case Nil
      then show ?thesis using uv e by (auto simp del: split_paired_Ex split_paired_All)
    next
      case (Cons c' u')
      then have "s = u' @ v" "matches r (rev u' @ c # b, v) q" using uv by simp_all
      then have "search_from r (c # b) s" unfolding Cons.IH by blast
      then show ?thesis by simp
    qed
  qed
qed

lemma match_string_iff:
  "match_string r s \<longleftrightarrow> (\<exists>u v q. s = u @ v \<and> matches r (rev u, v) q)"
  by (simp add: match_string_def search_from_iff)

end
