(* ===== verification/Asn.thy ===== *)
theory Asn
  imports Regex NetIP
begin

text \<open>
  \<open>internal/asn\<close>: the brand patterns of \<open>orgregex.go\<close>, the field merging of the MMDB reader (\<open>mmdb.go\<close>,
  whose decoder is a parameter) and the names and answers of the Team Cymru DNS service (\<open>cymru.go\<close>,
  whose resolver is a parameter).
\<close>

section \<open>Brand patterns\<close>

text \<open>An alternative of a pattern: a word, or two words with at most one hyphen or space between.\<close>

type_synonym brand_word = "string \<times> string option"

definition brand_sep :: "char \<Rightarrow> bool" where
  "brand_sep c \<longleftrightarrow> c = CHR ''-'' \<or> is_space_char c"

definition word_re :: "brand_word \<Rightarrow> re" where
  "word_re v =
     (case v of
        (w, None) \<Rightarrow> ci_lit w
      | (w, Some u) \<Rightarrow> Seq (ci_lit w) (Seq (Opt (Cls brand_sep)) (ci_lit u)))"

definition brand_re :: "brand_word list \<Rightarrow> re" where
  "brand_re vs = Seq WordB (Seq (alts (map word_re vs)) WordB)"

definition carrier_words :: "brand_word list" where
  "carrier_words =
     [(''TELKOM'', None), (''TELKOMSEL'', None), (''BIZNET'', None), (''INDIHOME'', None),
      (''LINKNET'', None), (''CBN'', None), (''INDOSAT'', None), (''AXIATA'', None),
      (''SMARTFREN'', None), (''FIRST'', Some ''MEDIA''), (''HYPERNET'', None),
      (''NIAGAHOSTER'', None), (''DEWAWEB'', None), (''IDWEBHOST'', None), (''DATACIPTA'', None),
      (''MYREPUBLIC'', Some ''INDONESIA''), (''MORATELINDO'', None)]"

definition company_words :: "brand_word list" where
  "company_words =
     [(''TOKOPEDIA'', None), (''BUKALAPAK'', None), (''GOJEK'', None), (''TRAVELOKA'', None),
      (''BLIBLI'', None), (''HALODOC'', None), (''JNE'', None), (''DETIK'', None),
      (''KOMPAS'', Some ''GRAMEDIA'')]"

definition default_brands :: "(re \<times> string) list" where
  "default_brands = [(brand_re carrier_words, ''ID''), (brand_re company_words, ''ID'')]"

definition brand_country :: "string \<Rightarrow> string option" where
  "brand_country org =
     (if org = [] then None
      else map_option snd (find (\<lambda>r. match_string (fst r) org) default_brands))"

definition boost_country :: "string \<Rightarrow> string option" where
  "boost_country org = brand_country org"

definition org_suffixes :: "string list" where
  "org_suffixes = ['', LTD'', '', INC'', '', LLC'', '' PT'', '' CORP'']"

definition normalize_org :: "string \<Rightarrow> string" where
  "normalize_org org = go_join '' '' (go_fields (foldl trim_suffix (trim_space org) org_suffixes))"

section \<open>MMDB\<close>

record mmdb_record =
  mr_ASNumber :: u32
  mr_ASOrg :: string
  mr_ASNString :: string
  mr_ASName :: string

definition parse_asn :: "string \<Rightarrow> u32" where
  "parse_asn s =
     (case parse_uint 32 (trim_prefix (to_upper (trim_space s)) ''AS'') of
        (n, None) \<Rightarrow> to_word n
      | (_, Some _) \<Rightarrow> 0)"

text \<open>
  \<open>Lookup\<close> of an open reader (\<open>None\<close> is the nil one) with its decoder (\<open>None\<close> for an error); a result
  \<open>None\<close> is \<open>(0, "", false)\<close>.
\<close>

definition mmdb_lookup :: "(addr \<Rightarrow> mmdb_record option) option \<Rightarrow> addr \<Rightarrow> (u32 \<times> string) option" where
  "mmdb_lookup reader ip =
     (case reader of
        None \<Rightarrow> None
      | Some decode \<Rightarrow>
          (case decode ip of
             None \<Rightarrow> None
           | Some rec \<Rightarrow>
               let num = (if mr_ASNumber rec = 0 \<and> mr_ASNString rec \<noteq> []
                          then parse_asn (mr_ASNString rec) else mr_ASNumber rec);
                   org = (if mr_ASOrg rec = [] \<and> mr_ASName rec \<noteq> [] then mr_ASName rec
                          else mr_ASOrg rec) in
               if num = 0 then None else Some (num, org)))"

section \<open>Team Cymru\<close>

record asn_result =
  ar_ASN :: u32
  ar_Prefix :: string
  ar_Country :: string
  ar_Registry :: string
  ar_Date :: string

datatype cymru_error =
    CymruUnsupported
  | CymruNotFound
  | CymruShort string
  | CymruEmptyASN string
  | CymruParse string num_error

text \<open>Byte \<open>i\<close> of an address, the most significant one first.\<close>

definition byte_of :: "nat \<Rightarrow> nat \<Rightarrow> nat \<Rightarrow> nat" where
  "byte_of width n i = n div 256 ^ (width - 1 - i) mod 256"

definition hex_nibble :: "nat \<Rightarrow> string" where
  "hex_nibble n = [if n < 10 then char_of (48 + n) else char_of (87 + n)]"

definition cymru_query_name :: "addr \<Rightarrow> string" where
  "cymru_query_name ip0 =
     (case unmap ip0 of
        Addr4 w \<Rightarrow>
          let b = byte_of 4 (unat w) in
          dec_digits (b 3) @ ''.'' @ dec_digits (b 2) @ ''.'' @ dec_digits (b 1) @ ''.'' @
            dec_digits (b 0) @ ''.origin.asn.cymru.com''
      | Addr6 w _ \<Rightarrow>
          let b = byte_of 16 (unat w);
              parts = concat (map (\<lambda>i. [hex_nibble (b i mod 16), hex_nibble (b i div 16)]) (rev [0..<16])) in
          go_join ''.'' parts @ ''.origin6.asn.cymru.com''
      | AddrZero \<Rightarrow> [])"

definition parse_cymru_txt :: "string \<Rightarrow> cymru_error + asn_result" where
  "parse_cymru_txt s =
     (let fields0 = go_split CHR ''|'' s in
      if length fields0 < 5 then Inl (CymruShort s)
      else
        let fields = map trim_space fields0;
            asn_field = go_fields (fields ! 0) in
        if asn_field = [] then Inl (CymruEmptyASN s)
        else
          (case parse_uint 32 (asn_field ! 0) of
             (_, Some e) \<Rightarrow> Inl (CymruParse (asn_field ! 0) e)
           | (n, None) \<Rightarrow>
               Inr \<lparr>ar_ASN = to_word n, ar_Prefix = fields ! 1, ar_Country = fields ! 2,
                    ar_Registry = fields ! 3, ar_Date = fields ! 4\<rparr>))"

text \<open>\<open>lookup_txt\<close> is the resolver's answer, \<open>None\<close> an error (a timeout included).\<close>

definition cymru_lookup :: "(string \<Rightarrow> string list option) \<Rightarrow> addr \<Rightarrow> cymru_error + asn_result" where
  "cymru_lookup lookup_txt ip =
     (let q = cymru_query_name ip in
      if q = [] then Inl CymruUnsupported
      else
        (case lookup_txt q of
           None \<Rightarrow> Inl CymruNotFound
         | Some [] \<Rightarrow> Inl CymruNotFound
         | Some (r # _) \<Rightarrow> parse_cymru_txt r))"

section \<open>What the patterns accept\<close>

text \<open>The text a case-folded character, word or brand stands for.\<close>

definition folds_char :: "char \<Rightarrow> string \<Rightarrow> bool" where
  "folds_char c x \<longleftrightarrow>
     (\<exists>y. x = [y] \<and> lower_char y = lower_char c) \<or>
     lower_char c = CHR ''k'' \<and> x = [CHR 0xE2, CHR 0x84, CHR 0xAA] \<or>
     lower_char c = CHR ''s'' \<and> x = [CHR 0xC5, CHR 0xBF]"

fun folds_word :: "string \<Rightarrow> string \<Rightarrow> bool" where
  "folds_word [] t \<longleftrightarrow> t = []"
| "folds_word (c # w) t \<longleftrightarrow> (\<exists>x r. t = x @ r \<and> folds_char c x \<and> folds_word w r)"

definition brand_text :: "brand_word \<Rightarrow> string \<Rightarrow> bool" where
  "brand_text v t \<longleftrightarrow>
     (case v of
        (w, None) \<Rightarrow> folds_word w t
      | (w, Some u) \<Rightarrow> \<exists>t1 s t2. t = t1 @ s @ t2 \<and> folds_word w t1 \<and> folds_word u t2 \<and>
          (s = [] \<or> (\<exists>c. s = [c] \<and> brand_sep c)))"

lemma matches_one:
  "matches (Cls f) (b, a) q \<longleftrightarrow> (\<exists>y r. a = [y] @ r \<and> f y \<and> q = (rev [y] @ b, r))"
  "matches (Lit w) (b, a) q \<longleftrightarrow> (\<exists>r. a = w @ r \<and> q = (rev w @ b, r))"
  by auto

lemma matches_ci_char:
  "matches (ci_char c) (b, a) q \<longleftrightarrow> (\<exists>x r. a = x @ r \<and> folds_char c x \<and> q = (rev x @ b, r))"
proof -
  have alt: "matches (Alt r s) p q \<longleftrightarrow> matches r p q \<or> matches s p q" for r s p q by simp
  consider "lower_char c = CHR ''k''" | "lower_char c = CHR ''s''"
    | "lower_char c \<noteq> CHR ''k''" "lower_char c \<noteq> CHR ''s''" by blast
  then show ?thesis
    by cases (simp_all only: ci_char_def Let_def folds_char_def alt matches_one if_True if_False
        char.inject simp_thms, blast+)
qed

lemma matches_ci_lit:
  "matches (ci_lit w) (b, a) q \<longleftrightarrow> (\<exists>t r. a = t @ r \<and> folds_word w t \<and> q = (rev t @ b, r))"
proof (induction w arbitrary: b a)
  case (Cons c w)
  have "matches (ci_lit (c # w)) (b, a) q \<longleftrightarrow>
      (\<exists>x r. a = x @ r \<and> folds_char c x \<and> matches (ci_lit w) (rev x @ b, r) q)"
    by (auto simp: matches_ci_char simp del: split_paired_Ex)
  also have "\<dots> \<longleftrightarrow> (\<exists>x t r. a = x @ t @ r \<and> folds_char c x \<and> folds_word w t \<and> q = (rev t @ rev x @ b, r))"
    by (auto simp: Cons.IH)
  also have "\<dots> \<longleftrightarrow> (\<exists>t r. a = t @ r \<and> folds_word (c # w) t \<and> q = (rev t @ b, r))"
    by (auto 0 4)
  finally show ?case .
qed auto

lemma matches_word_re:
  "matches (word_re v) (b, a) q \<longleftrightarrow> (\<exists>t r. a = t @ r \<and> brand_text v t \<and> q = (rev t @ b, r))"
proof (cases v)
  case (Pair w ou)
  show ?thesis
  proof (cases ou)
    case None
    then show ?thesis using Pair by (simp add: word_re_def brand_text_def matches_ci_lit)
  next
    case (Some u)
    have sep: "matches (Opt (Cls brand_sep)) (b, a) p \<longleftrightarrow>
        (\<exists>s r. a = s @ r \<and> (s = [] \<or> (\<exists>c. s = [c] \<and> brand_sep c)) \<and> p = (rev s @ b, r))" for b a p
      by (auto simp: Opt_def)
    have seq: "matches (Seq r s) p q \<longleftrightarrow> (\<exists>t. matches r p t \<and> matches s t q)" for r s p q by simp
    show ?thesis
    proof
      assume "matches (word_re v) (b, a) q"
      then obtain p1 p2 where m: "matches (ci_lit w) (b, a) p1" "matches (Opt (Cls brand_sep)) p1 p2"
        "matches (ci_lit u) p2 q"
        using Pair Some by (auto simp: word_re_def simp del: split_paired_Ex)
      obtain t1 r1 where 1: "a = t1 @ r1" "folds_word w t1" "p1 = (rev t1 @ b, r1)"
        using m(1) unfolding matches_ci_lit by blast
      obtain x r2 where 2: "r1 = x @ r2" "x = [] \<or> (\<exists>c. x = [c] \<and> brand_sep c)"
        "p2 = (rev x @ rev t1 @ b, r2)"
        using m(2) unfolding 1(3) sep by blast
      obtain t2 r3 where 3: "r2 = t2 @ r3" "folds_word u t2" "q = (rev t2 @ rev x @ rev t1 @ b, r3)"
        using m(3) unfolding 2(3) matches_ci_lit by blast
      have "brand_text v (t1 @ x @ t2)"
        using 1(2) 2(2) 3(2) Pair Some unfolding brand_text_def by auto
      then show "\<exists>t r. a = t @ r \<and> brand_text v t \<and> q = (rev t @ b, r)"
        using 1(1) 2(1) 3(1,3) by (intro exI[of _ "t1 @ x @ t2"] exI[of _ r3]) simp
    next
      assume "\<exists>t r. a = t @ r \<and> brand_text v t \<and> q = (rev t @ b, r)"
      then obtain tt r where tt: "a = tt @ r" "brand_text v tt" "q = (rev tt @ b, r)" by blast
      have "\<exists>t1 x t2. tt = t1 @ x @ t2 \<and> folds_word w t1 \<and> folds_word u t2 \<and>
          (x = [] \<or> (\<exists>c. x = [c] \<and> brand_sep c))"
        using tt(2) Pair Some by (simp add: brand_text_def)
      then obtain t1 x t2 where x: "tt = t1 @ x @ t2" "folds_word w t1" "folds_word u t2"
        "x = [] \<or> (\<exists>c. x = [c] \<and> brand_sep c)"
        by (elim exE conjE) (rule that)
      have t: "a = (t1 @ x @ t2) @ r" "q = (rev (t1 @ x @ t2) @ b, r)"
        using tt(1,3) x(1) by simp_all
      note t = t(1) x(2-4) t(2)
      have "matches (ci_lit w) (b, a) (rev t1 @ b, x @ t2 @ r)"
        unfolding matches_ci_lit using t by (intro exI[of _ t1] exI[of _ "x @ t2 @ r"]) simp
      moreover have "matches (Opt (Cls brand_sep)) (rev t1 @ b, x @ t2 @ r) (rev x @ rev t1 @ b, t2 @ r)"
        unfolding sep using t by (intro exI[of _ x] exI[of _ "t2 @ r"]) simp
      moreover have "matches (ci_lit u) (rev x @ rev t1 @ b, t2 @ r) q"
        unfolding matches_ci_lit using t by (intro exI[of _ t2] exI[of _ r]) simp
      ultimately show "matches (word_re v) (b, a) q"
        using Pair Some by (simp add: word_re_def seq del: split_paired_Ex) blast
    qed
  qed
qed

lemma matches_alts: "matches (alts rs) p q \<longleftrightarrow> (\<exists>r \<in> set rs. matches r p q)"
  by (induction rs rule: alts.induct) auto

lemma match_brand_re:
  "match_string (brand_re vs) org \<longleftrightarrow>
     (\<exists>pre t post. org = pre @ t @ post \<and> (\<exists>v \<in> set vs. brand_text v t) \<and>
        at_word_boundary (rev pre, t @ post) \<and> at_word_boundary (rev t @ rev pre, post))"
proof -
  have "(\<exists>q. matches (brand_re vs) (b, a) q) \<longleftrightarrow>
      (\<exists>t post. a = t @ post \<and> (\<exists>v \<in> set vs. brand_text v t) \<and>
        at_word_boundary (b, a) \<and> at_word_boundary (rev t @ b, post))" for b a
    by (auto simp: brand_re_def matches_alts matches_word_re simp del: split_paired_Ex)
  then show ?thesis by (auto simp: match_string_iff) blast+
qed

lemma match_brand_append:
  "match_string (brand_re (vs @ ws)) org \<longleftrightarrow>
     match_string (brand_re vs) org \<or> match_string (brand_re ws) org"
  unfolding match_brand_re set_append bex_Un by blast

lemma match_brand_Nil: "\<not> match_string (brand_re vs) []"
  by (simp add: match_brand_re at_word_boundary_def)

section \<open>Properties\<close>

text \<open>
  \<open>BrandCountry\<close> finds a country exactly when the organisation name contains one of the 26 brand
  words, in any letter case (and with the Unicode variants of k and s), delimited on both sides by word
  boundaries; the country is always ID.
\<close>

theorem brand_country_iff:
  "brand_country org = Some cc \<longleftrightarrow>
     cc = ''ID'' \<and>
     (\<exists>pre t post. org = pre @ t @ post \<and>
        (\<exists>v \<in> set (carrier_words @ company_words). brand_text v t) \<and>
        at_word_boundary (rev pre, t @ post) \<and> at_word_boundary (rev t @ rev pre, post))"
proof -
  have "brand_country org = Some cc \<longleftrightarrow> org \<noteq> [] \<and> cc = ''ID'' \<and>
      match_string (brand_re (carrier_words @ company_words)) org"
    by (auto simp: brand_country_def default_brands_def match_brand_append)
  also have "\<dots> \<longleftrightarrow> cc = ''ID'' \<and> match_string (brand_re (carrier_words @ company_words)) org"
    using match_brand_Nil by blast
  finally show ?thesis unfolding match_brand_re .
qed

text \<open>
  \<open>parseASN\<close> reads a number below \<open>2 ^ 32\<close> back from its decimal form, with or without the prefix AS
  in either case.
\<close>

theorem parse_asn_roundtrip:
  assumes "pre \<in> {'''', ''AS'', ''as'', ''As'', ''aS''}" and "n < 2 ^ 32"
  shows "unat (parse_asn (pre @ dec_digits n)) = n"
proof -
  let ?d = "dec_digits n"
  obtain c t where d: "?d = c # t" using dec_digits_not_Nil by (meson neq_Nil_conv)
  have dig: "is_digit c" using is_digit_dec[of c n] d by simp
  then have cA: "c \<noteq> CHR ''A''" by (auto simp: is_digit_def)
  have vis: "visible (last (pre @ ?d))"
    using is_digit_dec[of "last ?d" n] by (simp add: is_digit_visible)
  have hd: "visible (hd (pre @ ?d))"
    using assms(1) d dig is_digit_visible by (auto simp: visible_def)
  have "trim_space (pre @ ?d) = pre @ ?d"
    by (rule trim_space_visible) (use vis hd in simp_all)
  moreover have "to_upper (pre @ ?d) = to_upper pre @ ?d"
    using to_upper_digits[of ?d] by (simp add: to_upper_def)
  moreover have "to_upper pre \<in> {'''', ''AS''}"
  proof -
    have "to_upper '''' = ''''" "to_upper ''AS'' = ''AS''" "to_upper ''as'' = ''AS''"
      "to_upper ''As'' = ''AS''" "to_upper ''aS'' = ''AS''"
      by code_simp+
    then show ?thesis using assms(1) by (elim insertE emptyE) simp_all
  qed
  then have "trim_prefix (to_upper pre @ ?d) ''AS'' = ?d"
    using cA d by (auto simp: trim_prefix_def simp del: length_to_upper)
  ultimately have "parse_asn (pre @ ?d) = to_word n"
    using assms(2) parse_uint_dec[of n 32] by (simp add: parse_asn_def)
  then show ?thesis using assms(2) by (simp add: to_word_eq unat_of_nat)
qed

theorem parse_asn_roundtrip_witness: "unat (parse_asn (''AS'' @ dec_digits 15169)) = 15169"
  by (rule parse_asn_roundtrip) simp_all

text \<open>
  The MMDB lookup never reports success with AS number zero, prefers the numeric field over the
  textual one and the MaxMind organisation over the ipinfo one, and a nil reader or a decoding error is
  a miss.
\<close>

theorem mmdb_lookup_iff:
  "mmdb_lookup reader ip = Some (num, org) \<longleftrightarrow>
     (\<exists>decode rec. reader = Some decode \<and> decode ip = Some rec \<and> num \<noteq> 0 \<and>
        num = (if mr_ASNumber rec \<noteq> 0 then mr_ASNumber rec else parse_asn (mr_ASNString rec)) \<and>
        org = (if mr_ASOrg rec = [] then mr_ASName rec else mr_ASOrg rec))"
proof -
  have e: "parse_asn [] = 0"
    by (simp add: parse_asn_def trim_space_def to_upper_def trim_prefix_def parse_uint_def)
  show ?thesis
  proof (cases reader)
    case None
    then show ?thesis by (simp add: mmdb_lookup_def)
  next
    case (Some decode)
    show ?thesis
    proof (cases "decode ip")
      case None
      then show ?thesis using Some by (simp add: mmdb_lookup_def)
    next
      case rec: (Some rec)
      show ?thesis
        using Some rec e
        by (cases "mr_ASNumber rec = 0"; cases "mr_ASNString rec = []"; cases "mr_ASOrg rec = []";
            cases "mr_ASName rec = []") (auto simp: mmdb_lookup_def Let_def)
    qed
  qed
qed

definition octets_and_zone :: "u32 \<Rightarrow> string list" where
  "octets_and_zone w =
     map dec_digits [unat w mod 256, unat w div 256 mod 256, unat w div 256 ^ 2 mod 256,
       unat w div 256 ^ 3 mod 256] @ [''origin'', ''asn'', ''cymru'', ''com'']"

lemma cymru_labels:
  assumes "unmap a = Addr4 v"
  shows "go_split CHR ''.'' (cymru_query_name a) = octets_and_zone v"
proof -
  have n: "cymru_query_name a = go_join ''.'' (octets_and_zone v)"
    using assms by (simp add: octets_and_zone_def cymru_query_name_def byte_of_def Let_def)
  show ?thesis
    unfolding n by (rule go_split_go_join) (auto simp: octets_and_zone_def dec_digits_no_sep is_digit_def)
qed

lemma dec_digits_inject: "dec_digits m = dec_digits n \<longleftrightarrow> m = n"
  using digits_val_dec by metis

lemma octets_inject: "octets_and_zone v = octets_and_zone w \<Longrightarrow> v = w"
proof -
  assume eq: "octets_and_zone v = octets_and_zone w"
  have split: "n = n mod 256 + 256 * (n div 256 mod 256) + 256 ^ 2 * (n div 256 ^ 2 mod 256)
      + 256 ^ 3 * (n div 256 ^ 3 mod 256)" if "n < 256 ^ 4" for n :: nat
  proof -
    define a where "a = n div 256"
    define b where "b = a div 256"
    define c where "c = b div 256"
    have "n div 256 ^ 2 = b" by (simp add: b_def a_def flip: div_mult2_eq)
    moreover have "n div 256 ^ 3 = c" by (simp add: c_def b_def a_def flip: div_mult2_eq)
    moreover have "c < 256" using that by (simp add: c_def b_def a_def flip: div_mult2_eq)
    moreover have "n = n mod 256 + 256 * a" "a = a mod 256 + 256 * b" "b = b mod 256 + 256 * c"
      by (simp_all add: a_def b_def c_def)
    ultimately show ?thesis by (simp add: a_def[symmetric])
  qed
  have b: "unat u < 256 ^ 4" for u :: u32 using unat32_less[of u] by simp
  have "unat v = unat w"
    using eq by (subst split[OF b, of v], subst split[OF b, of w]) (simp add: octets_and_zone_def dec_digits_inject)
  then show ?thesis by (simp add: word_unat_eq_iff)
qed

text \<open>
  The query name of an IPv4 address, also one written as an IPv4-mapped IPv6 address, consists of the
  decimal octets from the last to the first and the four labels of the zone; two addresses have the same
  name only when they are the same.
\<close>

theorem cymru_name_v4:
  assumes "unmap a = Addr4 v" and "unmap b = Addr4 w"
  shows "go_split CHR ''.'' (cymru_query_name a) = octets_and_zone v \<and>
    (cymru_query_name a = cymru_query_name b \<longleftrightarrow> v = w)"
proof -
  have "cymru_query_name a = cymru_query_name b \<longleftrightarrow> v = w"
    using cymru_labels[OF assms(1)] cymru_labels[OF assms(2)] octets_inject[of v w] assms
    by (auto simp: cymru_query_name_def)
  then show ?thesis using cymru_labels[OF assms(1)] by simp
qed

theorem cymru_name_v4_witness:
  "cymru_query_name (Addr6 0xFFFF08080404 []) \<noteq> cymru_query_name (Addr4 0x08080808)"
  using cymru_name_v4[of "Addr6 0xFFFF08080404 []" "0x08080404" "Addr4 0x08080808" "0x08080808"] by simp

end
