(* ===== verification/Classifier.thy ===== *)
theory Classifier
  imports Bogon RirDB Domain Asn
begin

text \<open>
  \<open>internal/classifier/classifier.go\<close>: the early-exit ladder that merges the signals.  The online
  layers, the resolver and the clock act on a world \<open>'w\<close> that every call passes on, so the order and
  the number of their calls are part of the model.  An optional layer is an option (\<open>None\<close> is the nil
  interface).  The suffix list and the IDNA conversion are the parameter \<open>host_env\<close>.
\<close>

section \<open>Types\<close>

datatype classify_error = ErrBogon | ErrUnresolvable | ErrInvalidInput | ErrUnknownCountry

definition ConfHigh :: string where "ConfHigh = ''high''"
definition ConfHighASNBrand :: string where "ConfHighASNBrand = ''high-asn-brand''"
definition ConfHighSSLCert :: string where "ConfHighSSLCert = ''high-ssl-cert''"
definition ConfHighCTLog :: string where "ConfHighCTLog = ''high-ct-log''"
definition ConfHighContent :: string where "ConfHighContent = ''high-content-scan''"
definition ConfHighRDAPRegistrant :: string where "ConfHighRDAPRegistrant = ''high-rdap-registrant''"
definition ConfMediumWayback :: string where "ConfMediumWayback = ''medium-wayback-snapshot''"
definition ConfMediumDomainIDOffshore :: string where
  "ConfMediumDomainIDOffshore = ''medium-domain-id-offshore-host''"
definition ConfMediumGenericTLDIDHost :: string where
  "ConfMediumGenericTLDIDHost = ''medium-generic-tld-id-host''"
definition ConfMediumDomainCCMismatch :: string where
  "ConfMediumDomainCCMismatch = ''medium-domain-cc-mismatch''"
definition ConfLowDNSFailed :: string where "ConfLowDNSFailed = ''low-dns-failed''"
definition ConfIPOnly :: string where "ConfIPOnly = ''ip-only''"
definition ConfUnknown :: string where "ConfUnknown = ''unknown''"

lemmas conf_defs = ConfHigh_def ConfHighASNBrand_def ConfHighSSLCert_def ConfHighCTLog_def
  ConfHighContent_def ConfHighRDAPRegistrant_def ConfMediumWayback_def ConfMediumDomainIDOffshore_def
  ConfMediumGenericTLDIDHost_def ConfMediumDomainCCMismatch_def ConfLowDNSFailed_def ConfIPOnly_def
  ConfUnknown_def

text \<open>\<open>Lookup(ctx, host) (cc, ok)\<close> of the five online layers.\<close>

type_synonym 'w layer = "string \<Rightarrow> 'w \<Rightarrow> (string \<times> bool) \<times> 'w"

record result =
  r_Input :: string
  r_Type :: string
  r_Resolved :: "addr list"
  r_DomainCountry :: string
  r_DomainSuffix :: string
  r_IPCountry :: string
  r_ASN :: u32
  r_ASNOrg :: string
  r_ASNCountry :: string
  r_CertCountry :: string
  r_CTLogCountry :: string
  r_RegistrantCountry :: string
  r_ContentCountry :: string
  r_WaybackCountry :: string
  r_Registry :: string
  r_FinalCountry :: string
  r_Confidence :: string
  r_Reason :: string
  r_LookupDuration :: int

definition empty_result :: result where
  "empty_result = \<lparr>r_Input = [], r_Type = [], r_Resolved = [], r_DomainCountry = [], r_DomainSuffix = [],
     r_IPCountry = [], r_ASN = 0, r_ASNOrg = [], r_ASNCountry = [], r_CertCountry = [],
     r_CTLogCountry = [], r_RegistrantCountry = [], r_ContentCountry = [], r_WaybackCountry = [],
     r_Registry = [], r_FinalCountry = [], r_Confidence = [], r_Reason = [], r_LookupDuration = 0\<rparr>"

record 'w classifier =
  c_IP :: "addr \<Rightarrow> string \<times> meta \<times> bool"
  c_Resolver :: "(string \<Rightarrow> 'w \<Rightarrow> (addr list \<times> bool) \<times> 'w) option"
  c_Clock :: "'w \<Rightarrow> int \<times> 'w"
  c_ASN :: "(addr \<Rightarrow> u32 \<times> string \<times> bool) option"
  c_TLSCert :: "'w layer option"
  c_RDAP :: "'w layer option"
  c_ContentScan :: "'w layer option"
  c_Wayback :: "'w layer option"
  c_CTLog :: "'w layer option"

text \<open>The third-party functions: \<open>he_etld1\<close> is \<open>EffectiveTLDPlusOne\<close> with \<open>None\<close> for an error.\<close>

record host_env =
  he_to_ascii :: "string \<Rightarrow> string option"
  he_psl :: "string \<Rightarrow> string \<times> bool"
  he_etld1 :: "string \<Rightarrow> string option"

definition registered_domain :: "host_env \<Rightarrow> string \<Rightarrow> string option" where
  "registered_domain env host = he_etld1 env host"

definition new_classifier ::
  "('w \<Rightarrow> int \<times> 'w) \<Rightarrow> (addr \<Rightarrow> string \<times> meta \<times> bool)
     \<Rightarrow> (string \<Rightarrow> 'w \<Rightarrow> (addr list \<times> bool) \<times> 'w) option \<Rightarrow> ('w \<Rightarrow> int \<times> 'w) option \<Rightarrow> 'w classifier" where
  "new_classifier real ip r c =
     \<lparr>c_IP = ip, c_Resolver = r, c_Clock = (case c of None \<Rightarrow> real | Some k \<Rightarrow> k), c_ASN = None,
      c_TLSCert = None, c_RDAP = None, c_ContentScan = None, c_Wayback = None, c_CTLog = None\<rparr>"

section \<open>Steps of the ladder\<close>

text \<open>A layer consulted when it is present: the country of a hit.\<close>

definition try_layer :: "'w layer option \<Rightarrow> string \<Rightarrow> 'w \<Rightarrow> string option \<times> 'w" where
  "try_layer l host w =
     (case l of
        None \<Rightarrow> (None, w)
      | Some look \<Rightarrow>
          (case look host w of ((cc, ok), w') \<Rightarrow> (if ok then Some cc else None, w')))"

definition overrides_ip :: "string \<Rightarrow> string \<Rightarrow> string" where
  "overrides_ip ip_cc cc = (if ip_cc \<noteq> [] \<and> ip_cc \<noteq> cc then '' overrides ip '' @ ip_cc else [])"

text \<open>\<open>Inl r\<close> is an early return of \<open>r\<close>, \<open>Inr r\<close> goes on with the next layer.\<close>

type_synonym 'w step = "result \<Rightarrow> 'w \<Rightarrow> (result + result) \<times> 'w"

definition and_then :: "'w step \<Rightarrow> 'w step \<Rightarrow> 'w step" where
  "and_then f g r w =
     (case f r w of (Inl r', w') \<Rightarrow> (Inl r', w') | (Inr r', w') \<Rightarrow> g r' w')"

definition set_final :: "string \<Rightarrow> string \<Rightarrow> string \<Rightarrow> result \<Rightarrow> result" where
  "set_final cc conf reason r =
     r\<lparr>r_FinalCountry := cc, r_Confidence := conf, r_Reason := reason\<rparr>"

definition enrich_apex :: "'w classifier \<Rightarrow> string \<Rightarrow> 'w \<Rightarrow> (string \<times> string) \<times> 'w" where
  "enrich_apex c apex w0 =
     (case try_layer (c_TLSCert c) apex w0 of
        (Some cc, w1) \<Rightarrow> ((cc, ''tls''), w1)
      | (None, w1) \<Rightarrow>
     (case try_layer (c_CTLog c) apex w1 of
        (Some cc, w2) \<Rightarrow> ((cc, ''ctlog''), w2)
      | (None, w2) \<Rightarrow>
     (case try_layer (c_ContentScan c) apex w2 of
        (Some cc, w3) \<Rightarrow> ((cc, ''scan''), w3)
      | (None, w3) \<Rightarrow>
     (case try_layer (c_RDAP c) apex w3 of
        (Some cc, w4) \<Rightarrow> ((cc, ''rdap''), w4)
      | (None, w4) \<Rightarrow>
     (case try_layer (c_Wayback c) apex w4 of
        (Some cc, w5) \<Rightarrow> ((cc, ''wayback''), w5)
      | (None, w5) \<Rightarrow> (([], []), w5))))))"

section \<open>IP input\<close>

definition ip_brand_step :: "'w classifier \<Rightarrow> addr \<Rightarrow> string \<Rightarrow> 'w step" where
  "ip_brand_step c addr cc r w =
     (case c_ASN c of
        None \<Rightarrow> (Inr r, w)
      | Some look \<Rightarrow>
          (case look addr of
             (num, org, _) \<Rightarrow>
               let r1 = r\<lparr>r_ASN := num, r_ASNOrg := org\<rparr> in
               if org \<noteq> [] then
                 (case brand_country org of
                    Some brand \<Rightarrow>
                      (Inl (set_final brand ConfHighASNBrand
                             (''asn brand '' @ brand @ overrides_ip cc brand)
                             (r1\<lparr>r_ASNCountry := brand\<rparr>)), w)
                  | None \<Rightarrow> (Inr r1, w))
               else (Inr r1, w)))"

definition stamp :: "'w classifier \<Rightarrow> int \<Rightarrow> (result + result) \<times> 'w \<Rightarrow> result \<times> 'w" where
  "stamp c start p =
     (case p of (s, w) \<Rightarrow>
        let r = (case s of Inl r \<Rightarrow> r | Inr r \<Rightarrow> r); (now, w') = c_Clock c w in
        (r\<lparr>r_LookupDuration := now - start\<rparr>, w'))"

definition classify_ip ::
  "'w classifier \<Rightarrow> addr \<Rightarrow> string \<Rightarrow> int \<Rightarrow> 'w \<Rightarrow> (classify_error + result) \<times> 'w" where
  "classify_ip c addr0 input start w =
     (let addr = unmap addr0 in
      if match_bogon addr \<noteq> CatPublic then (Inl ErrBogon, w)
      else
        (case c_IP c addr of
           (cc, meta, _) \<Rightarrow>
             let r = empty_result\<lparr>r_Input := input, r_Type := ''ip'', r_Resolved := [addr],
                       r_IPCountry := cc, r_Registry := m_Registry meta\<rparr>;
                 last = (\<lambda>r w. (Inl
                   (if cc \<noteq> [] then set_final cc ConfIPOnly ''raw ip input; rir lookup'' r
                    else r\<lparr>r_Confidence := ConfUnknown, r_Reason := ''no country signal''\<rparr>), w));
                 (r', w') = stamp c start (and_then (ip_brand_step c addr cc) last r w)
             in (Inr r', w')))"

section \<open>Host input\<close>

definition agree_step :: "string \<Rightarrow> string \<Rightarrow> string \<Rightarrow> 'w step" where
  "agree_step dcc ty ip r w =
     (if dcc \<noteq> [] \<and> ip = dcc then
        (Inl (set_final dcc ConfHigh (''domain '' @ ty @ '' matches ip country'') r), w)
      else (Inr r, w))"

definition mismatch_step :: "string \<Rightarrow> string \<Rightarrow> 'w step" where
  "mismatch_step dcc ip r w =
     (if dcc \<noteq> [] \<and> ip \<noteq> [] \<and> dcc \<noteq> ip then
        (Inl (if dcc = ''ID''
              then set_final dcc ConfMediumDomainIDOffshore (''domain .id but host ip in '' @ ip) r
              else set_final dcc ConfMediumDomainCCMismatch
                     (''domain '' @ dcc @ '' but host ip in '' @ ip) r), w)
      else (Inr r, w))"

text \<open>One online layer on the input: a field of the result, a tier and the words of the reason.\<close>

definition layer_step ::
  "'w layer option \<Rightarrow> string \<Rightarrow> (string \<Rightarrow> result \<Rightarrow> result) \<Rightarrow> string \<Rightarrow> string \<Rightarrow> string \<Rightarrow> 'w step" where
  "layer_step l host set_field conf words ip r w =
     (case try_layer l host w of
        (Some cc, w') \<Rightarrow>
          (Inl (set_final cc conf (words @ cc @ overrides_ip ip cc) (set_field cc r)), w')
      | (None, w') \<Rightarrow> (Inr r, w'))"

text \<open>The apex switch of the branch after a DNS failure: it has no case for the Wayback source.\<close>

definition failed_apex_fields :: "string \<Rightarrow> string \<Rightarrow> result \<Rightarrow> result" where
  "failed_apex_fields src cc r =
     (if src = ''tls'' then r\<lparr>r_Confidence := ConfHighSSLCert, r_CertCountry := cc\<rparr>
      else if src = ''ctlog'' then r\<lparr>r_Confidence := ConfHighCTLog, r_CTLogCountry := cc\<rparr>
      else if src = ''scan'' then r\<lparr>r_Confidence := ConfHighContent, r_ContentCountry := cc\<rparr>
      else if src = ''rdap'' then r\<lparr>r_Confidence := ConfHighRDAPRegistrant, r_RegistrantCountry := cc\<rparr>
      else r)"

definition apex_fields :: "string \<Rightarrow> string \<Rightarrow> result \<Rightarrow> result" where
  "apex_fields src cc r =
     (if src = ''tls'' then r\<lparr>r_Confidence := ConfHighSSLCert, r_CertCountry := cc\<rparr>
      else if src = ''ctlog'' then r\<lparr>r_Confidence := ConfHighCTLog, r_CTLogCountry := cc\<rparr>
      else if src = ''scan'' then r\<lparr>r_Confidence := ConfHighContent, r_ContentCountry := cc\<rparr>
      else if src = ''rdap'' then r\<lparr>r_Confidence := ConfHighRDAPRegistrant, r_RegistrantCountry := cc\<rparr>
      else if src = ''wayback'' then r\<lparr>r_Confidence := ConfMediumWayback, r_WaybackCountry := cc\<rparr>
      else r)"

definition apex_step ::
  "'w classifier \<Rightarrow> host_env \<Rightarrow> string \<Rightarrow> (string \<Rightarrow> string \<Rightarrow> result \<Rightarrow> result) \<Rightarrow> string \<Rightarrow> string \<Rightarrow> 'w step" where
  "apex_step c env input set_src words ip r w =
     (case registered_domain env input of
        None \<Rightarrow> (Inr r, w)
      | Some apex \<Rightarrow>
          if apex \<noteq> [] \<and> apex \<noteq> input then
            (case enrich_apex c apex w of
               ((cc, src), w') \<Rightarrow>
                 if cc \<noteq> [] then
                   (Inl ((set_src src cc (r\<lparr>r_FinalCountry := cc\<rparr>))
                          \<lparr>r_Reason := words @ apex @ '' '' @ src @ '' '' @ cc @ overrides_ip ip cc\<rparr>), w')
                 else (Inr r, w'))
          else (Inr r, w))"

definition dns_failed_last :: "string \<Rightarrow> string \<Rightarrow> 'w step" where
  "dns_failed_last dcc ty r w =
     (Inl (if dcc \<noteq> [] then set_final dcc ConfLowDNSFailed (''dns failed; used '' @ ty @ '' signal'') r
           else r\<lparr>r_Confidence := ConfUnknown, r_Reason := ''dns failed; no enrichment signal''\<rparr>), w)"

definition dns_failed_steps :: "'w classifier \<Rightarrow> host_env \<Rightarrow> string \<Rightarrow> string \<Rightarrow> string \<Rightarrow> 'w step" where
  "dns_failed_steps c env input dcc ty =
     and_then (layer_step (c_RDAP c) input (\<lambda>cc r. r\<lparr>r_RegistrantCountry := cc\<rparr>) ConfHighRDAPRegistrant
                 ''dns failed; rdap registrant '' [])
     (and_then (apex_step c env input failed_apex_fields ''dns failed; apex '' [])
     (and_then (layer_step (c_Wayback c) input (\<lambda>cc r. r\<lparr>r_WaybackCountry := cc\<rparr>) ConfMediumWayback
                  ''dns failed; wayback snapshot '' [])
     (dns_failed_last dcc ty)))"

definition brand_step :: "'w classifier \<Rightarrow> addr \<Rightarrow> string \<Rightarrow> 'w step" where
  "brand_step c first ip r w =
     (if is_valid first then ip_brand_step c first ip r w else (Inr r, w))"

definition generic_id_step :: "string \<Rightarrow> string \<Rightarrow> string \<Rightarrow> 'w step" where
  "generic_id_step dcc ty ip r w =
     (if dcc = [] \<and> (ty = ''generic'' \<or> ty = []) \<and> ip = ''ID'' then
        (Inl (set_final ''ID'' ConfMediumGenericTLDIDHost ''generic tld resolved to id host'' r), w)
      else (Inr r, w))"

definition single_signal_last :: "string \<Rightarrow> string \<Rightarrow> string \<Rightarrow> 'w step" where
  "single_signal_last dcc ty ip r w =
     (Inl (if dcc \<noteq> [] \<and> ip = [] then set_final dcc ConfLowDNSFailed (''domain '' @ ty @ '' signal only'') r
           else if ip \<noteq> [] then set_final ip ConfIPOnly ''ip country only'' r
           else r\<lparr>r_Confidence := ConfUnknown, r_Reason := ''no country signal''\<rparr>), w)"

definition generic_steps ::
  "'w classifier \<Rightarrow> host_env \<Rightarrow> string \<Rightarrow> addr \<Rightarrow> string \<Rightarrow> string \<Rightarrow> string \<Rightarrow> 'w step" where
  "generic_steps c env input first dcc ty ip =
     and_then (brand_step c first ip)
     (and_then (layer_step (c_TLSCert c) input (\<lambda>cc r. r\<lparr>r_CertCountry := cc\<rparr>) ConfHighSSLCert
                  ''tls cert subject '' ip)
     (and_then (layer_step (c_CTLog c) input (\<lambda>cc r. r\<lparr>r_CTLogCountry := cc\<rparr>) ConfHighCTLog
                  ''ct log historical cert subject '' ip)
     (and_then (layer_step (c_ContentScan c) input (\<lambda>cc r. r\<lparr>r_ContentCountry := cc\<rparr>) ConfHighContent
                  ''content scan '' ip)
     (and_then (layer_step (c_RDAP c) input (\<lambda>cc r. r\<lparr>r_RegistrantCountry := cc\<rparr>) ConfHighRDAPRegistrant
                  ''rdap registrant '' ip)
     (and_then (generic_id_step dcc ty ip)
     (and_then (apex_step c env input apex_fields ''apex '' ip)
     (and_then (layer_step (c_Wayback c) input (\<lambda>cc r. r\<lparr>r_WaybackCountry := cc\<rparr>) ConfMediumWayback
                  ''wayback snapshot '' ip)
     (single_signal_last dcc ty ip))))))))"

definition host_steps ::
  "'w classifier \<Rightarrow> host_env \<Rightarrow> string \<Rightarrow> addr \<Rightarrow> string \<Rightarrow> string \<Rightarrow> string \<Rightarrow> bool \<Rightarrow> 'w step" where
  "host_steps c env input first dcc ty ip dns_failed =
     and_then (agree_step dcc ty ip)
     (and_then (mismatch_step dcc ip)
     (if dns_failed then dns_failed_steps c env input dcc ty
      else generic_steps c env input first dcc ty ip))"

definition first_public :: "addr list \<Rightarrow> addr" where
  "first_public addrs =
     (case find (\<lambda>a. match_bogon a = CatPublic) addrs of None \<Rightarrow> AddrZero | Some a \<Rightarrow> a)"

definition host_ip :: "'w classifier \<Rightarrow> addr \<Rightarrow> string \<times> string" where
  "host_ip c first =
     (if is_valid first then (case c_IP c first of (cc, meta, _) \<Rightarrow> (cc, m_Registry meta)) else ([], []))"

definition host_result :: "string \<Rightarrow> addr list \<Rightarrow> string \<Rightarrow> string \<Rightarrow> string \<Rightarrow> string \<Rightarrow> result" where
  "host_result input addrs dcc ty ip registry =
     empty_result\<lparr>r_Input := input, r_Type := ''domain'', r_Resolved := addrs, r_DomainCountry := dcc,
       r_DomainSuffix := ty, r_IPCountry := ip, r_Registry := registry\<rparr>"

definition classify_host ::
  "'w classifier \<Rightarrow> host_env \<Rightarrow> (string \<Rightarrow> 'w \<Rightarrow> (addr list \<times> bool) \<times> 'w) \<Rightarrow> string \<Rightarrow> int \<Rightarrow> 'w
     \<Rightarrow> (classify_error + result) \<times> 'w" where
  "classify_host c env resolve input start w0 =
     (case country (he_to_ascii env) (he_psl env) input of
        (dcc, ty, _) \<Rightarrow>
     (case resolve input w0 of
        ((addrs, dns_failed), w1) \<Rightarrow>
          let first = first_public addrs;
              (ip, registry) = host_ip c first;
              r = host_result input addrs dcc ty ip registry;
              (r', w2) = stamp c start (host_steps c env input first dcc ty ip dns_failed r w1)
          in (Inr r', w2)))"

definition classify ::
  "'w classifier \<Rightarrow> host_env \<Rightarrow> string \<Rightarrow> 'w \<Rightarrow> (classify_error + result) \<times> 'w" where
  "classify c env input w0 =
     (let (start, w) = c_Clock c w0 in
      if input = [] then (Inl ErrInvalidInput, w)
      else
        (case parse_addr input of
           Some addr \<Rightarrow> classify_ip c addr input start w
         | None \<Rightarrow>
             (case c_Resolver c of
                None \<Rightarrow> (Inl ErrInvalidInput, w)
              | Some resolve \<Rightarrow> classify_host c env resolve input start w)))"

section \<open>Running a ladder\<close>

text \<open>
  \<open>keeps P Q f\<close>: from a pending result with \<open>P\<close>, the step either returns one with \<open>Q\<close> or goes on with
  \<open>P\<close>; \<open>finishes P Q f\<close>: it returns.  The two compose along \<open>and_then\<close>.
\<close>

definition keeps :: "(result \<Rightarrow> bool) \<Rightarrow> (result \<Rightarrow> bool) \<Rightarrow> 'w step \<Rightarrow> bool" where
  "keeps P Q f \<longleftrightarrow> (\<forall>r w. P r \<longrightarrow> (case fst (f r w) of Inl r' \<Rightarrow> Q r' | Inr r' \<Rightarrow> P r'))"

definition finishes :: "(result \<Rightarrow> bool) \<Rightarrow> (result \<Rightarrow> bool) \<Rightarrow> 'w step \<Rightarrow> bool" where
  "finishes P Q f \<longleftrightarrow> (\<forall>r w. P r \<longrightarrow> (\<exists>r'. fst (f r w) = Inl r' \<and> Q r'))"

lemma keepsI:
  "(\<And>r w r' w'. P r \<Longrightarrow> f r w = (Inl r', w') \<Longrightarrow> Q r') \<Longrightarrow>
   (\<And>r w r' w'. P r \<Longrightarrow> f r w = (Inr r', w') \<Longrightarrow> P r') \<Longrightarrow> keeps P Q f"
  unfolding keeps_def by (auto split: sum.split simp: prod_eq_iff)

lemma keepsD:
  "keeps P Q f \<Longrightarrow> P r \<Longrightarrow> f r w = (Inl r', w') \<Longrightarrow> Q r'"
  "keeps P Q f \<Longrightarrow> P r \<Longrightarrow> f r w = (Inr r', w') \<Longrightarrow> P r'"
  unfolding keeps_def by (metis fst_conv sum.case(1), metis fst_conv sum.case(2))

lemma finishesI: "(\<And>r w. P r \<Longrightarrow> \<exists>r' w'. f r w = (Inl r', w') \<and> Q r') \<Longrightarrow> finishes P Q f"
  unfolding finishes_def by (metis fst_conv)

lemma finishesD:
  assumes "finishes P Q f" and "P r"
  obtains r' w' where "f r w = (Inl r', w')" "Q r'"
proof -
  obtain r' where "fst (f r w) = Inl r'" "Q r'" using assms by (auto simp: finishes_def)
  then show thesis by (intro that[of r' "snd (f r w)"]) (simp_all add: prod_eq_iff)
qed

lemma and_then_simps:
  "f r w = (Inl r', w') \<Longrightarrow> and_then f g r w = (Inl r', w')"
  "f r w = (Inr r', w') \<Longrightarrow> and_then f g r w = g r' w'"
  by (simp_all add: and_then_def)

lemma keeps_and_then: "keeps P Q f \<Longrightarrow> keeps P Q g \<Longrightarrow> keeps P Q (and_then f g)"
proof (rule keepsI)
  fix r w r' w'
  assume k: "keeps P Q f" "keeps P Q g" "P r"
  obtain s w1 where f: "f r w = (s, w1)" by fastforce
  show "Q r'" if "and_then f g r w = (Inl r', w')"
    using that k f by (cases s) (auto simp: and_then_simps dest: keepsD)
  show "P r'" if "and_then f g r w = (Inr r', w')"
    using that k f by (cases s) (auto simp: and_then_simps dest: keepsD)
qed

lemma finishes_and_then: "keeps P Q f \<Longrightarrow> finishes P Q g \<Longrightarrow> finishes P Q (and_then f g)"
proof (rule finishesI)
  fix r w
  assume k: "keeps P Q f" "finishes P Q g" "P r"
  obtain s w1 where f: "f r w = (s, w1)" by fastforce
  show "\<exists>r' w'. and_then f g r w = (Inl r', w') \<and> Q r'"
  proof (cases s)
    case (Inl r1)
    with k f show ?thesis by (auto simp: and_then_simps dest: keepsD)
  next
    case (Inr r1)
    with k f have "P r1" by (auto dest: keepsD)
    from finishesD[OF k(2) this, of w1] Inr f show ?thesis by (metis and_then_simps(2))
  qed
qed

lemma finishes_weaken: "finishes P Q f \<Longrightarrow> (\<And>r. Q r \<Longrightarrow> Q' r) \<Longrightarrow> finishes P Q' f"
  by (fastforce simp: finishes_def)

lemma finishes_stamp:
  assumes "finishes P Q f" and "P r" and "stamp c start (f r w) = (r', w')"
  shows "\<exists>r0. Q r0 \<and> r' = r0\<lparr>r_LookupDuration := r_LookupDuration r'\<rparr>"
proof -
  obtain r0 where "fst (f r w) = Inl r0" "Q r0" using assms(1,2) by (auto simp: finishes_def)
  then show ?thesis
    using assms(3) by (cases "f r w") (auto simp: stamp_def Let_def split: prod.splits)
qed

section \<open>The contract of a layer\<close>

text \<open>
  What the ladder relies on: a layer that answers ok answers a country.  The clients of the contract
  are the ladder's steps; the layers of the program provide it.
\<close>

locale country_layer =
  fixes look :: "'w layer"
  assumes answers: "look host w = ((cc, True), w') \<Longrightarrow> cc \<noteq> []"
begin

lemma try_answers: "try_layer (Some look) host w = (Some cc, w') \<Longrightarrow> cc \<noteq> []"
  by (auto simp: try_layer_def split: prod.splits if_splits dest: answers)

end

definition layer_ok :: "'w layer option \<Rightarrow> bool" where
  "layer_ok l \<longleftrightarrow> (case l of None \<Rightarrow> True | Some look \<Rightarrow> country_layer look)"

definition layers_ok :: "'w classifier \<Rightarrow> bool" where
  "layers_ok c \<longleftrightarrow> layer_ok (c_TLSCert c) \<and> layer_ok (c_CTLog c) \<and> layer_ok (c_ContentScan c) \<and>
     layer_ok (c_RDAP c) \<and> layer_ok (c_Wayback c)"

lemma try_layer_ok: "layer_ok l \<Longrightarrow> try_layer l host w = (Some cc, w') \<Longrightarrow> cc \<noteq> []"
  by (cases l) (auto simp: layer_ok_def try_layer_def country_layer.try_answers[unfolded try_layer_def])

lemma layer_ok_None [simp]: "layer_ok None"
  by (simp add: layer_ok_def)

section \<open>What a tier says\<close>

definition explained :: "result \<Rightarrow> bool" where
  "explained r \<longleftrightarrow>
     (let cc = r_FinalCountry r; conf = r_Confidence r in
      conf = ConfUnknown \<and> cc = [] \<or>
      cc \<noteq> [] \<and>
      (conf = ConfHigh \<and> cc = r_DomainCountry r \<and> cc = r_IPCountry r \<or>
       conf = ConfMediumDomainIDOffshore \<and> cc = ''ID'' \<and> cc = r_DomainCountry r \<and>
         r_IPCountry r \<notin> {[], cc} \<or>
       conf = ConfMediumDomainCCMismatch \<and> cc \<noteq> ''ID'' \<and> cc = r_DomainCountry r \<and>
         r_IPCountry r \<notin> {[], cc} \<or>
       conf = ConfHighASNBrand \<and> cc = r_ASNCountry r \<and> brand_country (r_ASNOrg r) = Some cc \<or>
       conf = ConfHighSSLCert \<and> cc = r_CertCountry r \<or>
       conf = ConfHighCTLog \<and> cc = r_CTLogCountry r \<or>
       conf = ConfHighContent \<and> cc = r_ContentCountry r \<or>
       conf = ConfHighRDAPRegistrant \<and> cc = r_RegistrantCountry r \<or>
       conf = ConfMediumWayback \<and> cc = r_WaybackCountry r \<or>
       conf = ConfMediumGenericTLDIDHost \<and> cc = ''ID'' \<and> cc = r_IPCountry r \<and> r_DomainCountry r = [] \<or>
       conf = ConfLowDNSFailed \<and> cc = r_DomainCountry r \<or>
       conf = ConfIPOnly \<and> cc = r_IPCountry r))"

text \<open>The result the DNS-failure branch builds from an archived page of the apex: a country without a tier.\<close>

definition unlabelled :: "'w classifier \<Rightarrow> result \<Rightarrow> bool" where
  "unlabelled c r \<longleftrightarrow> c_Wayback c \<noteq> None \<and> r_FinalCountry r \<noteq> [] \<and> r_Confidence r = [] \<and> r_WaybackCountry r = []"

definition pending :: "string \<Rightarrow> string \<Rightarrow> result \<Rightarrow> bool" where
  "pending dcc ip r \<longleftrightarrow> r_DomainCountry r = dcc \<and> r_IPCountry r = ip \<and> r_FinalCountry r = [] \<and>
     r_Confidence r = [] \<and> r_WaybackCountry r = []"

lemma explained_duration [simp]: "explained (r\<lparr>r_LookupDuration := d\<rparr>) = explained r"
  by (simp add: explained_def)

lemma unlabelled_duration [simp]: "unlabelled c (r\<lparr>r_LookupDuration := d\<rparr>) = unlabelled c r"
  by (simp add: unlabelled_def)

lemma brand_country_ID: "brand_country org = Some cc \<Longrightarrow> cc = ''ID''"
  by (auto simp: brand_country_def default_brands_def split: if_splits)

lemma keeps_brand: "keeps (pending dcc ip) explained (ip_brand_step c a ip)"
  by (auto simp: keeps_def ip_brand_step_def pending_def explained_def Let_def set_final_def
      dest: brand_country_ID split: option.split prod.split)

lemma keeps_brand_step: "keeps (pending dcc ip) explained (brand_step c a ip)"
  using keeps_brand[of dcc ip c a] by (auto simp: keeps_def brand_step_def)

lemma keeps_layer:
  assumes "layer_ok l"
    and "\<And>cc r. cc \<noteq> [] \<Longrightarrow> pending dcc ip r \<Longrightarrow> explained (set_final cc conf reason (f cc r))"
  shows "keeps (pending dcc ip) explained (layer_step l host f conf words ip')"
proof -
  have "explained (set_final cc conf x (f cc r))" if "cc \<noteq> []" "pending dcc ip r" for cc r x
    using assms(2)[OF that] by (simp add: set_final_def explained_def)
  then show ?thesis
    using try_layer_ok[OF assms(1)] by (auto simp: keeps_def layer_step_def split: prod.split option.split)
qed

lemma explained_fields:
  "cc \<noteq> [] \<Longrightarrow> explained (set_final cc ConfHighSSLCert x (r\<lparr>r_CertCountry := cc\<rparr>))"
  "cc \<noteq> [] \<Longrightarrow> explained (set_final cc ConfHighCTLog x (r\<lparr>r_CTLogCountry := cc\<rparr>))"
  "cc \<noteq> [] \<Longrightarrow> explained (set_final cc ConfHighContent x (r\<lparr>r_ContentCountry := cc\<rparr>))"
  "cc \<noteq> [] \<Longrightarrow> explained (set_final cc ConfHighRDAPRegistrant x (r\<lparr>r_RegistrantCountry := cc\<rparr>))"
  "cc \<noteq> [] \<Longrightarrow> explained (set_final cc ConfMediumWayback x (r\<lparr>r_WaybackCountry := cc\<rparr>))"
  by (simp_all add: explained_def set_final_def)

lemma enrich_apex_src:
  assumes "enrich_apex c apex w = ((cc, src), w')" and "cc \<noteq> []"
  shows "src \<in> {''tls'', ''ctlog'', ''scan'', ''rdap'', ''wayback''}"
    and "src = ''wayback'' \<Longrightarrow> c_Wayback c \<noteq> None"
  using assms
  by (simp add: enrich_apex_def split: prod.splits option.splits,
      cases "c_Wayback c", simp_all add: enrich_apex_def try_layer_def[of None] split: prod.splits option.splits)

lemma keeps_apex: "keeps (pending dcc ip) explained (apex_step c env input apex_fields words ip')"
proof -
  have "explained r'"
    if e: "enrich_apex c apex w = ((cc, src), w')" "cc \<noteq> []"
      and r': "r' = (apex_fields src cc (r\<lparr>r_FinalCountry := cc\<rparr>))\<lparr>r_Reason := x\<rparr>"
    for apex w cc src w' r r' x
    using enrich_apex_src(1)[OF e] e(2) unfolding r'
    by (elim insertE emptyE) (simp_all add: apex_fields_def explained_def)
  then show ?thesis
    by (auto simp: keeps_def apex_step_def split: prod.split option.split)
qed

lemma keeps_failed_apex:
  "keeps (pending dcc ip) (\<lambda>r. explained r \<or> unlabelled c r)
     (apex_step c env input failed_apex_fields words ip')"
proof -
  have "explained r' \<or> unlabelled c r'"
    if e: "enrich_apex c apex w = ((cc, src), w')" "cc \<noteq> []" "pending dcc ip r"
      and r': "r' = (failed_apex_fields src cc (r\<lparr>r_FinalCountry := cc\<rparr>))\<lparr>r_Reason := x\<rparr>"
    for apex w cc src w' r r' x
    using enrich_apex_src(1)[OF e(1,2)] enrich_apex_src(2)[OF e(1,2)] e(2,3) unfolding r'
    by (elim insertE emptyE)
      (simp_all add: failed_apex_fields_def explained_def unlabelled_def pending_def)
  then show ?thesis
    by (auto simp: keeps_def apex_step_def split: prod.split option.split)
qed

lemma keeps_weaken: "keeps P Q f \<Longrightarrow> (\<And>r. Q r \<Longrightarrow> Q' r) \<Longrightarrow> keeps P Q' f"
  by (fastforce simp: keeps_def split: sum.splits)

lemma finishes_dns_failed:
  assumes "layers_ok c"
  shows "finishes (pending dcc ip) (\<lambda>r. explained r \<or> unlabelled c r) (dns_failed_steps c env input dcc ty)"
  unfolding dns_failed_steps_def
proof (intro finishes_and_then)
  show "finishes (pending dcc ip) (\<lambda>r. explained r \<or> unlabelled c r) (dns_failed_last dcc ty)"
    by (auto simp: finishes_def dns_failed_last_def explained_def set_final_def pending_def)
  show "keeps (pending dcc ip) (\<lambda>r. explained r \<or> unlabelled c r)
      (apex_step c env input failed_apex_fields ''dns failed; apex '' [])"
    by (rule keeps_failed_apex)
qed (rule keeps_weaken, rule keeps_layer, use assms in \<open>simp_all add: layers_ok_def explained_fields\<close>)+

lemma finishes_generic:
  assumes "layers_ok c" and "dcc = [] \<or> ip = []"
  shows "finishes (pending dcc ip) explained (generic_steps c env input first dcc ty ip)"
  unfolding generic_steps_def
proof (intro finishes_and_then)
  show "keeps (pending dcc ip) explained (brand_step c first ip)" by (rule keeps_brand_step)
  show "keeps (pending dcc ip) explained (generic_id_step dcc ty ip)"
    by (auto simp: keeps_def generic_id_step_def explained_def set_final_def pending_def)
  show "keeps (pending dcc ip) explained (apex_step c env input apex_fields ''apex '' ip)"
    by (rule keeps_apex)
  show "finishes (pending dcc ip) explained (single_signal_last dcc ty ip)"
    using assms(2)
    by (auto simp: finishes_def single_signal_last_def explained_def set_final_def pending_def)
qed (rule keeps_layer, use assms in \<open>simp_all add: layers_ok_def explained_fields\<close>)+

lemma finishes_host:
  assumes "layers_ok c"
  shows "finishes (pending dcc ip) (\<lambda>r. explained r \<or> failed \<and> unlabelled c r)
    (host_steps c env input first dcc ty ip failed)"
proof (cases "dcc \<noteq> [] \<and> ip \<noteq> []")
  case True
  then show ?thesis
    by (cases "ip = dcc")
      (auto simp: host_steps_def finishes_def and_then_def agree_step_def mismatch_step_def explained_def
        pending_def set_final_def conf_defs)
next
  case False
  have "keeps (pending dcc ip) (\<lambda>r. explained r \<or> failed \<and> unlabelled c r) (agree_step dcc ty ip)"
    by (auto simp: keeps_def agree_step_def explained_def pending_def set_final_def)
  moreover have "keeps (pending dcc ip) (\<lambda>r. explained r \<or> failed \<and> unlabelled c r) (mismatch_step dcc ip)"
    using False by (auto simp: keeps_def mismatch_step_def)
  moreover have "finishes (pending dcc ip) (\<lambda>r. explained r \<or> failed \<and> unlabelled c r)
      (if failed then dns_failed_steps c env input dcc ty else generic_steps c env input first dcc ty ip)"
  proof (cases failed)
    case True
    then show ?thesis using finishes_dns_failed[OF assms, of dcc ip env input ty] by simp
  next
    case nf: False
    have "finishes (pending dcc ip) explained (generic_steps c env input first dcc ty ip)"
      using finishes_generic[OF assms] False by blast
    then show ?thesis using nf by (simp add: finishes_weaken)
  qed
  ultimately show ?thesis unfolding host_steps_def by (intro finishes_and_then)
qed

lemma host_result_pending: "pending dcc ip (host_result input addrs dcc ty ip reg)"
  by (simp add: pending_def host_result_def empty_result_def)

lemma finishes_ip:
  "finishes (pending [] cc) explained
     (and_then (ip_brand_step c addr cc)
       (\<lambda>r w. (Inl (if cc \<noteq> [] then set_final cc ConfIPOnly ''raw ip input; rir lookup'' r
               else r\<lparr>r_Confidence := ConfUnknown, r_Reason := ''no country signal''\<rparr>), w)))"
  by (rule finishes_and_then[OF keeps_brand])
    (auto simp: finishes_def explained_def set_final_def pending_def)

lemma classify_ip_result:
  assumes "classify_ip c addr input start w = (Inr r, w')"
  shows "explained r"
proof -
  obtain cc m ok where ip: "c_IP c (unmap addr) = (cc, m, ok)" by (metis prod_cases3)
  have pend: "pending [] cc (empty_result\<lparr>r_Input := input, r_Type := ''ip'', r_Resolved := [unmap addr],
      r_IPCountry := cc, r_Registry := m_Registry m\<rparr>)"
    by (simp add: pending_def empty_result_def)
  from assms ip have "stamp c start (and_then (ip_brand_step c (unmap addr) cc)
       (\<lambda>r w. (Inl (if cc \<noteq> [] then set_final cc ConfIPOnly ''raw ip input; rir lookup'' r
               else r\<lparr>r_Confidence := ConfUnknown, r_Reason := ''no country signal''\<rparr>), w))
       (empty_result\<lparr>r_Input := input, r_Type := ''ip'', r_Resolved := [unmap addr],
          r_IPCountry := cc, r_Registry := m_Registry m\<rparr>) w) = (r, w')"
    by (auto simp: classify_ip_def Let_def split: if_splits prod.splits)
  from finishes_stamp[OF finishes_ip pend this] show ?thesis
    by (metis explained_duration)
qed

lemma classify_host_result:
  assumes "layers_ok c" and "classify_host c env resolve input start w = (Inr r, w')"
  shows "explained r \<or> unlabelled c r"
proof -
  obtain dcc ty conf where d: "country (he_to_ascii env) (he_psl env) input = (dcc, ty, conf)"
    by (metis prod_cases3)
  obtain addrs failed w1 where rs: "resolve input w = ((addrs, failed), w1)" by (metis surj_pair)
  obtain ip reg where ip: "host_ip c (first_public addrs) = (ip, reg)" by fastforce
  from assms(2) d rs ip have "stamp c start (host_steps c env input (first_public addrs) dcc ty ip failed
      (host_result input addrs dcc ty ip reg) w1) = (r, w')"
    by (auto simp: classify_host_def Let_def split: prod.splits)
  from finishes_stamp[OF finishes_host[OF assms(1)] host_result_pending this] show ?thesis
    by (metis explained_duration unlabelled_duration)
qed

lemma fst_classify_host: "\<exists>r. fst (classify_host c env resolve input start w) = Inr r"
  by (auto simp: classify_host_def Let_def split: prod.split)

section \<open>The offline part\<close>

definition offline :: "'w classifier \<Rightarrow> 'w classifier" where
  "offline c = c\<lparr>c_ASN := None, c_TLSCert := None, c_RDAP := None, c_ContentScan := None,
     c_Wayback := None, c_CTLog := None\<rparr>"

lemma offline_sel [simp]:
  "c_IP (offline c) = c_IP c" "c_Resolver (offline c) = c_Resolver c" "c_Clock (offline c) = c_Clock c"
  "c_ASN (offline c) = None" "c_TLSCert (offline c) = None" "c_RDAP (offline c) = None"
  "c_ContentScan (offline c) = None" "c_Wayback (offline c) = None" "c_CTLog (offline c) = None"
  by (simp_all add: offline_def)

definition domain_tiers :: "string set" where
  "domain_tiers = {ConfHigh, ConfMediumDomainIDOffshore, ConfMediumDomainCCMismatch}"

lemma try_layer_None [simp]: "try_layer None h w = (None, w)"
  by (simp add: try_layer_def)

lemma offline_host_steps:
  assumes "dcc = [] \<or> ip = []" and "r_Confidence r \<notin> domain_tiers"
    and "host_steps (offline c) env input first dcc ty ip failed r w = (s, w')"
  shows "\<exists>r'. s = Inl r' \<and> r_Confidence r' \<notin> domain_tiers"
proof -
  have "agree_step dcc ty ip r w = (Inr r, w)" "mismatch_step dcc ip r w = (Inr r, w)"
    using assms(1) by (auto simp: agree_step_def mismatch_step_def)
  moreover have "enrich_apex (offline c) apex w = (([], []), w)" for apex w
    by (simp add: enrich_apex_def)
  then have "apex_step (offline c) env input f words ip' r w = (Inr r, w)" for f words ip'
    by (simp add: apex_step_def split: option.split)
  ultimately have "s = (if failed then fst (dns_failed_last dcc ty r w)
      else fst (and_then (generic_id_step dcc ty ip) (single_signal_last dcc ty ip) r w))"
    using assms(3)
    by (auto simp: host_steps_def and_then_def dns_failed_steps_def generic_steps_def layer_step_def
        brand_step_def ip_brand_step_def generic_id_step_def single_signal_last_def dns_failed_last_def
        split: if_splits)
  then show ?thesis
    by (auto simp: dns_failed_last_def and_then_def generic_id_step_def single_signal_last_def
        set_final_def domain_tiers_def conf_defs)
qed

section \<open>First hit\<close>

text \<open>
  The abstract ladder: a list of candidate answers, of which the first present one is the result.
\<close>

type_synonym answer = "string \<times> string"

fun first_hit :: "answer option list \<Rightarrow> answer" where
  "first_hit [] = ([], ConfUnknown)"
| "first_hit (Some a # as) = a"
| "first_hit (None # as) = first_hit as"

definition hit :: "string \<Rightarrow> unit layer option \<Rightarrow> string \<Rightarrow> answer option" where
  "hit conf l host = map_option (\<lambda>cc. (cc, conf)) (fst (try_layer l host ()))"

definition brand_hit :: "unit classifier \<Rightarrow> addr \<Rightarrow> answer option" where
  "brand_hit c first =
     (case c_ASN c of
        None \<Rightarrow> None
      | Some look \<Rightarrow>
          if is_valid first
          then map_option (\<lambda>cc. (cc, ConfHighASNBrand)) (brand_country (fst (snd (look first))))
          else None)"

definition apex_hits :: "unit classifier \<Rightarrow> host_env \<Rightarrow> string \<Rightarrow> answer option list" where
  "apex_hits c env input =
     (case registered_domain env input of
        None \<Rightarrow> []
      | Some apex \<Rightarrow>
          if apex \<noteq> [] \<and> apex \<noteq> input then
            [hit ConfHighSSLCert (c_TLSCert c) apex, hit ConfHighCTLog (c_CTLog c) apex,
             hit ConfHighContent (c_ContentScan c) apex, hit ConfHighRDAPRegistrant (c_RDAP c) apex,
             hit ConfMediumWayback (c_Wayback c) apex]
          else [])"

definition host_candidates ::
  "unit classifier \<Rightarrow> host_env \<Rightarrow> string \<Rightarrow> addr \<Rightarrow> string \<Rightarrow> string \<Rightarrow> string \<Rightarrow> answer option list" where
  "host_candidates c env input first dcc ty ip =
     [brand_hit c first,
      hit ConfHighSSLCert (c_TLSCert c) input, hit ConfHighCTLog (c_CTLog c) input,
      hit ConfHighContent (c_ContentScan c) input, hit ConfHighRDAPRegistrant (c_RDAP c) input,
      if dcc = [] \<and> ty \<in> {'''', ''generic''} \<and> ip = ''ID''
      then Some (''ID'', ConfMediumGenericTLDIDHost) else None] @
     apex_hits c env input @
     [hit ConfMediumWayback (c_Wayback c) input,
      if dcc \<noteq> [] then Some (dcc, ConfLowDNSFailed) else None,
      if ip \<noteq> [] then Some (ip, ConfIPOnly) else None]"

definition answer_of :: "result \<Rightarrow> answer" where
  "answer_of r = (r_FinalCountry r, r_Confidence r)"

text \<open>A step decides a list of candidates: it returns the first hit, or goes on when there is none.\<close>

definition unanswered :: "result \<Rightarrow> bool" where
  "unanswered r \<longleftrightarrow> r_FinalCountry r = [] \<and> r_Confidence r = []"

definition all_miss :: "answer option list \<Rightarrow> bool" where
  "all_miss as \<longleftrightarrow> list_all (\<lambda>a. a = None) as"

definition decides :: "unit step \<Rightarrow> answer option list \<Rightarrow> bool" where
  "decides f as \<longleftrightarrow>
     (\<forall>r. unanswered r \<longrightarrow>
        (case fst (f r ()) of
           Inl r' \<Rightarrow> \<not> all_miss as \<and> answer_of r' = first_hit as
         | Inr r' \<Rightarrow> all_miss as \<and> unanswered r'))"

lemma first_hit_append:
  "first_hit (as @ bs) = (if all_miss as then first_hit bs else first_hit as)"
  by (induction as rule: first_hit.induct) (auto simp: all_miss_def)

lemma all_miss_simps [simp]:
  "all_miss []" "all_miss (a # as) \<longleftrightarrow> a = None \<and> all_miss as"
  "all_miss (as @ bs) \<longleftrightarrow> all_miss as \<and> all_miss bs"
  by (auto simp: all_miss_def)

lemma decidesD:
  assumes "decides f as" and "unanswered r"
  shows "f r () = (Inl r', w) \<Longrightarrow> \<not> all_miss as \<and> answer_of r' = first_hit as"
    and "f r () = (Inr r', w) \<Longrightarrow> all_miss as \<and> unanswered r'"
proof -
  have d: "case fst (f r ()) of Inl r' \<Rightarrow> \<not> all_miss as \<and> answer_of r' = first_hit as
      | Inr r' \<Rightarrow> all_miss as \<and> unanswered r'"
    using assms unfolding decides_def by blast
  show "f r () = (Inl r', w) \<Longrightarrow> \<not> all_miss as \<and> answer_of r' = first_hit as"
    and "f r () = (Inr r', w) \<Longrightarrow> all_miss as \<and> unanswered r'"
    using d by simp_all
qed

lemmas decides_Inl = decidesD(1)
  and decides_Inr = decidesD(2)

lemma decidesI:
  assumes "\<And>r r'. unanswered r \<Longrightarrow> f r () = (Inl r', ()) \<Longrightarrow> \<not> all_miss as \<and> answer_of r' = first_hit as"
    and "\<And>r r'. unanswered r \<Longrightarrow> f r () = (Inr r', ()) \<Longrightarrow> all_miss as \<and> unanswered r'"
  shows "decides f as"
  unfolding decides_def
proof (intro allI impI)
  fix r
  assume u: "unanswered r"
  obtain s where s: "f r () = (s, ())" by (cases "f r ()") auto
  show "case fst (f r ()) of Inl r' \<Rightarrow> \<not> all_miss as \<and> answer_of r' = first_hit as
      | Inr r' \<Rightarrow> all_miss as \<and> unanswered r'"
  proof (cases s)
    case (Inl r')
    then show ?thesis using assms(1)[OF u, of r'] s by simp
  next
    case (Inr r')
    then show ?thesis using assms(2)[OF u, of r'] s by simp
  qed
qed

lemma decides_and_then:
  assumes "decides f as" and "decides g bs"
  shows "decides (and_then f g) (as @ bs)"
proof (rule decidesI)
  fix r r'
  assume u: "unanswered r"
  obtain s where s: "f r () = (s, ())" by (cases "f r ()") auto
  show "\<not> all_miss (as @ bs) \<and> answer_of r' = first_hit (as @ bs)" if a: "and_then f g r () = (Inl r', ())"
  proof (cases s)
    case (Inl r1)
    then show ?thesis
      using decides_Inl[OF assms(1) u] s a by (simp add: and_then_simps first_hit_append)
  next
    case (Inr r1)
    then have "all_miss as" "unanswered r1" using decides_Inr[OF assms(1) u] s by simp_all
    then show ?thesis
      using decides_Inl[OF assms(2)] s a Inr by (simp add: and_then_simps first_hit_append)
  qed
  show "all_miss (as @ bs) \<and> unanswered r'" if a: "and_then f g r () = (Inr r', ())"
  proof (cases s)
    case (Inl r1)
    then show ?thesis using s a by (simp add: and_then_simps)
  next
    case (Inr r1)
    then have "all_miss as" "unanswered r1" using decides_Inr[OF assms(1) u] s by simp_all
    then show ?thesis using decides_Inr[OF assms(2)] s a Inr by (simp add: and_then_simps)
  qed
qed

lemma decides_layer:
  assumes "\<And>cc r. r_FinalCountry (f cc r) = r_FinalCountry r" and "\<And>cc r. r_Confidence (f cc r) = r_Confidence r"
  shows "decides (layer_step l host f conf words ip) [hit conf l host]"
  by (rule decidesI)
    (auto simp: layer_step_def hit_def answer_of_def set_final_def split: prod.splits option.splits)

lemma decides_brand: "decides (brand_step c first ip) [brand_hit c first]"
proof -
  have b: "brand_country [] = None" by (simp add: brand_country_def)
  show ?thesis
    by (rule decidesI)
      (auto simp: brand_step_def ip_brand_step_def brand_hit_def answer_of_def unanswered_def set_final_def
        Let_def b split: prod.splits option.splits if_splits)
qed

lemma decides_generic_id:
  "decides (generic_id_step dcc ty ip)
     [if dcc = [] \<and> ty \<in> {'''', ''generic''} \<and> ip = ''ID'' then Some (''ID'', ConfMediumGenericTLDIDHost) else None]"
  by (rule decidesI) (auto simp: generic_id_step_def answer_of_def set_final_def split: if_splits)

lemma hit_try: "hit conf l host = map_option (\<lambda>cc. (cc, conf)) (fst (try_layer l host w))"
  by (simp add: hit_def)

lemma decides_apex:
  assumes "layers_ok c"
  shows "decides (apex_step c env input apex_fields words ip) (apex_hits c env input)"
proof (cases "registered_domain env input")
  case None
  then show ?thesis by (intro decidesI) (simp_all add: apex_step_def apex_hits_def)
next
  case (Some apex)
  show ?thesis
  proof (cases "apex \<noteq> [] \<and> apex \<noteq> input")
    case False
    then show ?thesis using Some by (intro decidesI) (auto simp: apex_step_def apex_hits_def)
  next
    case True
    obtain a1 a2 a3 a4 a5 where t: "try_layer (c_TLSCert c) apex () = (a1, ())"
      "try_layer (c_CTLog c) apex () = (a2, ())" "try_layer (c_ContentScan c) apex () = (a3, ())"
      "try_layer (c_RDAP c) apex () = (a4, ())" "try_layer (c_Wayback c) apex () = (a5, ())"
      by (metis (full_types) old.unit.exhaust surj_pair)
    have ne: "a1 \<noteq> Some []" "a2 \<noteq> Some []" "a3 \<noteq> Some []" "a4 \<noteq> Some []" "a5 \<noteq> Some []"
      using assms t by (auto simp: layers_ok_def dest: try_layer_ok)
    have h: "apex_hits c env input =
        [map_option (\<lambda>cc. (cc, ConfHighSSLCert)) a1, map_option (\<lambda>cc. (cc, ConfHighCTLog)) a2,
         map_option (\<lambda>cc. (cc, ConfHighContent)) a3, map_option (\<lambda>cc. (cc, ConfHighRDAPRegistrant)) a4,
         map_option (\<lambda>cc. (cc, ConfMediumWayback)) a5]"
      using Some True t by (simp add: apex_hits_def hit_def)
    have step: "apex_step c env input apex_fields words ip r () =
        (case enrich_apex c apex () of
           ((cc, src), w') \<Rightarrow>
             if cc \<noteq> [] then
               (Inl ((apex_fields src cc (r\<lparr>r_FinalCountry := cc\<rparr>))
                      \<lparr>r_Reason := words @ apex @ '' '' @ src @ '' '' @ cc @ overrides_ip ip cc\<rparr>), w')
             else (Inr r, w'))" for r
      using Some True by (simp add: apex_step_def)
    have e: "enrich_apex c apex () =
        (case a1 of Some cc \<Rightarrow> ((cc, ''tls''), ()) | None \<Rightarrow>
        (case a2 of Some cc \<Rightarrow> ((cc, ''ctlog''), ()) | None \<Rightarrow>
        (case a3 of Some cc \<Rightarrow> ((cc, ''scan''), ()) | None \<Rightarrow>
        (case a4 of Some cc \<Rightarrow> ((cc, ''rdap''), ()) | None \<Rightarrow>
        (case a5 of Some cc \<Rightarrow> ((cc, ''wayback''), ()) | None \<Rightarrow> (([], []), ()))))))"
      using t by (simp add: enrich_apex_def split: option.split)
    have key: "case enrich_apex c apex () of ((cc, src), w') \<Rightarrow>
        (cc = [] \<longleftrightarrow> all_miss (apex_hits c env input)) \<and>
        (cc \<noteq> [] \<longrightarrow> r_FinalCountry (apex_fields src cc (r\<lparr>r_FinalCountry := cc\<rparr>)) = fst (first_hit (apex_hits c env input))
          \<and> r_Confidence (apex_fields src cc (r\<lparr>r_FinalCountry := cc\<rparr>)) = snd (first_hit (apex_hits c env input)))" for r
      unfolding e h using ne by (auto simp: apex_fields_def split: option.split)
    show ?thesis
    proof (rule decidesI)
      fix r r'
      assume u: "unanswered r"
      show "\<not> all_miss (apex_hits c env input) \<and> answer_of r' = first_hit (apex_hits c env input)"
        if "apex_step c env input apex_fields words ip r () = (Inl r', ())"
        using that key[of r] unfolding step
        by (auto simp: answer_of_def split: prod.splits if_splits)
      show "all_miss (apex_hits c env input) \<and> unanswered r'"
        if "apex_step c env input apex_fields words ip r () = (Inr r', ())"
        using that key[of r] u unfolding step by (auto split: prod.splits if_splits)
    qed
  qed
qed

definition ends_with :: "unit step \<Rightarrow> answer option list \<Rightarrow> bool" where
  "ends_with g bs \<longleftrightarrow>
     (\<forall>r. unanswered r \<longrightarrow> (\<exists>r'. g r () = (Inl r', ()) \<and> answer_of r' = first_hit bs))"

lemma ends_with_and_then: "decides f as \<Longrightarrow> ends_with g bs \<Longrightarrow> ends_with (and_then f g) (as @ bs)"
  unfolding ends_with_def
proof (intro allI impI)
  fix r
  assume d: "decides f as" and g: "\<forall>r. unanswered r \<longrightarrow> (\<exists>r'. g r () = (Inl r', ()) \<and> answer_of r' = first_hit bs)"
    and u: "unanswered r"
  obtain s where s: "f r () = (s, ())" by (cases "f r ()") auto
  show "\<exists>r'. and_then f g r () = (Inl r', ()) \<and> answer_of r' = first_hit (as @ bs)"
  proof (cases s)
    case (Inl r1)
    then show ?thesis
      using decides_Inl[OF d u] s by (simp add: and_then_simps first_hit_append)
  next
    case (Inr r1)
    then have "all_miss as" "unanswered r1" using decides_Inr[OF d u] s by simp_all
    then show ?thesis
      using g s Inr by (simp add: and_then_simps first_hit_append)
  qed
qed

lemma ends_with_single:
  assumes "dcc = [] \<or> ip = []"
  shows "ends_with (single_signal_last dcc ty ip)
    [if dcc \<noteq> [] then Some (dcc, ConfLowDNSFailed) else None, if ip \<noteq> [] then Some (ip, ConfIPOnly) else None]"
  using assms by (auto simp: ends_with_def single_signal_last_def answer_of_def set_final_def unanswered_def)

lemma ends_with_generic:
  assumes "layers_ok c" and "dcc = [] \<or> ip = []"
  shows "ends_with (generic_steps c env input first dcc ty ip) (host_candidates c env input first dcc ty ip)"
proof -
  have "ends_with (generic_steps c env input first dcc ty ip)
     ([brand_hit c first] @ [hit ConfHighSSLCert (c_TLSCert c) input] @ [hit ConfHighCTLog (c_CTLog c) input] @
      [hit ConfHighContent (c_ContentScan c) input] @ [hit ConfHighRDAPRegistrant (c_RDAP c) input] @
      [if dcc = [] \<and> ty \<in> {'''', ''generic''} \<and> ip = ''ID'' then Some (''ID'', ConfMediumGenericTLDIDHost) else None] @
      apex_hits c env input @ [hit ConfMediumWayback (c_Wayback c) input] @
      [if dcc \<noteq> [] then Some (dcc, ConfLowDNSFailed) else None, if ip \<noteq> [] then Some (ip, ConfIPOnly) else None])"
    unfolding generic_steps_def
    by (intro ends_with_and_then decides_brand decides_layer decides_generic_id decides_apex[OF assms(1)]
        ends_with_single[OF assms(2)]) simp_all
  then show ?thesis by (simp add: host_candidates_def)
qed

section \<open>Properties\<close>

definition sample_meta :: meta where
  "sample_meta = \<lparr>m_Registry = ''arin'', m_Status = 1, m_Date = 0, m_CIDR = []\<rparr>"

definition sample_env :: host_env where
  "sample_env = \<lparr>he_to_ascii = Some, he_psl = (\<lambda>h. (after_last CHR ''.'' h, True)),
     he_etld1 = (\<lambda>h. let ls = go_split CHR ''.'' h in
        if length ls < 2 then None else Some (go_join ''.'' (drop (length ls - 2) ls)))\<rparr>"

text \<open>One public address in US, a host that does not resolve, and an archive that knows example.com.\<close>

definition sample_classifier :: "unit classifier" where
  "sample_classifier =
     (new_classifier (\<lambda>w. (0, w)) (\<lambda>a. (''US'', sample_meta, True))
        (Some (\<lambda>h w. if h = ''down.example.com'' then (([], True), w)
                      else (([Addr4 0x7F000001, Addr4 0x08080808], False), w))) None)
       \<lparr>c_Wayback := Some (\<lambda>h w. ((''ID'', h = ''example.com''), w))\<rparr>"

lemma sample_layers_ok: "layers_ok sample_classifier"
  by (simp add: layers_ok_def layer_ok_def sample_classifier_def new_classifier_def country_layer_def)

lemma classify_errors:
  "fst (classify c env input w) = Inl e \<longleftrightarrow>
     (e = ErrInvalidInput \<and> (input = [] \<or> parse_addr input = None \<and> c_Resolver c = None)) \<or>
     (e = ErrBogon \<and> (\<exists>a. parse_addr input = Some a \<and> match_bogon a \<noteq> CatPublic))"
proof -
  have ip: "fst (classify_ip c a input start w) = Inl e \<longleftrightarrow> e = ErrBogon \<and> match_bogon a \<noteq> CatPublic"
    for a start w
    by (auto simp: classify_ip_def Let_def match_bogon_unmap split: prod.split)
  have host: "fst (classify_host c env resolve input start w) \<noteq> Inl e" for resolve start w
    using fst_classify_host[of c env resolve input start w] by auto
  obtain start w1 where "c_Clock c w = (start, w1)" by fastforce
  then show ?thesis
    using ip host by (auto simp: classify_def split: option.split)
qed

text \<open>
  C20: The errors of \<open>Classify\<close>: it fails exactly on the empty input, on a host name when no resolver is
  set (both \<open>ErrInvalidInput\<close>) and on an IP address in a reserved range (\<open>ErrBogon\<close>); a host that does not
  resolve and an unknown country are results, never errors.
\<close>

theorem classify_error_iff:
  "fst (classify c env input w) = Inl e \<longleftrightarrow>
     (e = ErrInvalidInput \<and> (input = [] \<or> parse_addr input = None \<and> c_Resolver c = None)) \<or>
     (e = ErrBogon \<and> (\<exists>a. parse_addr input = Some a \<and> match_bogon a \<noteq> CatPublic))"
  by (rule classify_errors)

lemma classify_explains:
  assumes "layers_ok c" and "classify c env input w = (Inr r, w')"
  shows "explained r \<or> unlabelled c r"
proof -
  obtain start w1 where k: "c_Clock c w = (start, w1)" by fastforce
  show ?thesis
  proof (cases "parse_addr input")
    case (Some a)
    then have "classify_ip c a input start w1 = (Inr r, w')"
      using assms(2) k by (auto simp: classify_def split: if_splits)
    then show ?thesis by (simp add: classify_ip_result)
  next
    case None
    then obtain resolve where "classify_host c env resolve input start w1 = (Inr r, w')"
      using assms(2) k by (auto simp: classify_def split: if_splits option.splits)
    then show ?thesis by (rule classify_host_result[OF assms(1)])
  qed
qed

text \<open>
  C5: Every result explains itself: when each online layer that answers ok answers a country, the final
  country of a result is empty exactly for the tier "unknown", and every other tier names the field of
  the result the country comes from (a "high" result has equal domain and IP countries, an offshore or
  mismatch result different ones, and so on).  The one exception is a result without a tier, which only
  a classifier with a Wayback layer can build.
\<close>

theorem classify_explained:
  assumes "layers_ok c" and "classify c env input w = (Inr r, w')"
  shows "explained r \<or> unlabelled c r"
  by (rule classify_explains[OF assms])

lemma sample_classify:
  "map_sum id answer_of (fst (classify sample_classifier sample_env ''shop.example.com'' ())) =
     Inr (''ID'', ConfMediumWayback)"
  by code_simp

theorem classify_explained_witness:
  "\<exists>r. fst (classify sample_classifier sample_env ''shop.example.com'' ()) = Inr r \<and>
     (explained r \<or> unlabelled sample_classifier r)"
proof -
  obtain r where "fst (classify sample_classifier sample_env ''shop.example.com'' ()) = Inr r"
    using sample_classify by (cases "fst (classify sample_classifier sample_env ''shop.example.com'' ())") auto
  then show ?thesis
    using classify_explained[OF sample_layers_ok] by (metis prod.collapse)
qed

text \<open>
  The exception is real: when the host does not resolve and only the archived page of its registrable
  parent answers, \<open>Classify\<close> returns the country with an empty confidence and an empty Wayback field.
\<close>

theorem wayback_apex_unlabelled:
  "map_sum id (\<lambda>r. (r_FinalCountry r, r_Confidence r, r_WaybackCountry r, r_Reason r))
     (fst (classify sample_classifier sample_env ''down.example.com'' ())) =
   Inr (''ID'', '''', '''', ''dns failed; apex example.com wayback ID'')"
  by code_simp

lemma offline_ip_tiers:
  assumes "classify_ip (offline c) a input start w = (Inr r, w')"
  shows "r_Confidence r \<notin> domain_tiers"
  using assms
  by (auto simp: classify_ip_def Let_def and_then_def ip_brand_step_def stamp_def set_final_def
      domain_tiers_def conf_defs split: if_splits prod.splits)

lemma offline_host_tiers:
  assumes "classify_host (offline c) env resolve input start w = (Inr r, w')" and "r_Confidence r \<in> domain_tiers"
  shows "classify_host c env resolve input start w = (Inr r, w')"
proof -
  obtain dcc ty conf where d: "country (he_to_ascii env) (he_psl env) input = (dcc, ty, conf)"
    by (metis prod_cases3)
  obtain addrs failed w2 where rs: "resolve input w = ((addrs, failed), w2)" by (metis surj_pair)
  obtain ip reg where ip: "host_ip c (first_public addrs) = (ip, reg)" by fastforce
  have ip': "host_ip (offline c) a = host_ip c a" for a by (simp add: host_ip_def)
  have st: "stamp (offline c) start p = stamp c start p" for p by (simp add: stamp_def)
  let ?r = "host_result input addrs dcc ty ip reg"
  obtain s w3 where s: "host_steps (offline c) env input (first_public addrs) dcc ty ip failed ?r w2 = (s, w3)"
    by fastforce
  have r: "stamp c start (s, w3) = (r, w')"
    using assms(1) d rs ip s by (auto simp: classify_host_def Let_def ip' st split: prod.splits)
  have "dcc \<noteq> [] \<and> ip \<noteq> []"
  proof (rule ccontr)
    assume "\<not> (dcc \<noteq> [] \<and> ip \<noteq> [])"
    moreover have "r_Confidence ?r \<notin> domain_tiers"
      by (simp add: host_result_def empty_result_def domain_tiers_def conf_defs)
    ultimately obtain r' where "s = Inl r'" "r_Confidence r' \<notin> domain_tiers"
      using offline_host_steps[OF _ _ s] by blast
    then show False using r assms(2) by (auto simp: stamp_def Let_def split: prod.splits)
  qed
  then have "host_steps c env input (first_public addrs) dcc ty ip failed ?r w2 =
      host_steps (offline c) env input (first_public addrs) dcc ty ip failed ?r w2"
    by (cases "ip = dcc") (auto simp: host_steps_def and_then_def agree_step_def mismatch_step_def)
  then show ?thesis using d rs ip s r by (simp add: classify_host_def Let_def)
qed

text \<open>
  C32: The domain tiers are offline: when the classifier with every optional layer removed answers "high",
  an offshore or a mismatch tier, the full classifier returns the same result and leaves the same world
  behind, so no online layer was consulted.
\<close>

theorem domain_tiers_offline:
  assumes "classify (offline c) env input w = (Inr r, w')" and "r_Confidence r \<in> domain_tiers"
  shows "classify c env input w = (Inr r, w')"
proof -
  obtain start w1 where k: "c_Clock c w = (start, w1)" by fastforce
  have ne: "input \<noteq> []" using assms(1) k by (auto simp: classify_def)
  show ?thesis
  proof (cases "parse_addr input")
    case (Some a)
    then have "classify_ip (offline c) a input start w1 = (Inr r, w')"
      using assms(1) k ne by (simp add: classify_def)
    from offline_ip_tiers[OF this] assms(2) show ?thesis by contradiction
  next
    case None
    then obtain resolve where res: "c_Resolver c = Some resolve"
      and h: "classify_host (offline c) env resolve input start w1 = (Inr r, w')"
      using assms(1) k ne by (auto simp: classify_def split: option.splits)
    show ?thesis using offline_host_tiers[OF h assms(2)] res None k ne by (simp add: classify_def)
  qed
qed

theorem domain_tiers_offline_witness:
  "\<exists>r. classify sample_classifier sample_env ''kantor.co.id'' () = (Inr r, ()) \<and>
     r_Confidence r = ConfMediumDomainIDOffshore"
proof -
  have e: "map_sum id answer_of (fst (classify (offline sample_classifier) sample_env ''kantor.co.id'' ())) =
      Inr (''ID'', ConfMediumDomainIDOffshore)"
    by code_simp
  then obtain r where r: "classify (offline sample_classifier) sample_env ''kantor.co.id'' () = (Inr r, ())"
    by (cases "classify (offline sample_classifier) sample_env ''kantor.co.id'' ()"; cases "fst (classify (offline sample_classifier) sample_env ''kantor.co.id'' ())") auto
  then have "r_Confidence r = ConfMediumDomainIDOffshore" using e by (simp add: answer_of_def)
  then show ?thesis using domain_tiers_offline[OF r] by (simp add: domain_tiers_def)
qed



text \<open>
  An IPv6 address with a zone is classified, never refused as reserved: \<open>fe80::1%eth0\<close>, a link-local
  address, gives a result under every classifier, while \<open>fe80::1\<close> gives \<open>ErrBogon\<close>.
\<close>

theorem zoned_address_accepted:
  "(\<exists>r. fst (classify c env ''fe80::1%eth0'' w) = Inr r) \<and>
   fst (classify c env ''fe80::1'' w) = Inl ErrBogon"
proof -
  have z: "parse_addr ''fe80::1%eth0'' = Some (Addr6 0xFE800000000000000000000000000001 ''eth0'')"
    "parse_addr ''fe80::1'' = Some (Addr6 0xFE800000000000000000000000000001 [])"
    by code_simp+
  have m: "match_bogon (Addr6 0xFE800000000000000000000000000001 ''eth0'') = CatPublic"
    "match_bogon (Addr6 0xFE800000000000000000000000000001 []) \<noteq> CatPublic"
    by code_simp+
  show ?thesis
    using z m by (auto simp: classify_def classify_ip_def Let_def split: prod.split)
qed

end
