(* ===== verification/Decision.thy ===== *)
theory Decision
  imports Classifier
begin

text \<open>
  \<open>internal/classifier/decision.go\<close>: \<open>Decide\<close>, the merge of all signals by majority vote.  Go iterates
  over the vote map in an unspecified order: the order is a parameter, any list of the countries voted
  for, each once (\<open>vote_order\<close>).
\<close>

section \<open>Signals and votes\<close>

record signals =
  s_DomainCC :: string
  s_DomainType :: string
  s_IPCC :: string
  s_ASNCC :: string
  s_RDAPCC :: string
  s_DNSFailed :: bool
  s_IsIPInput :: bool

record decision =
  d_FinalCountry :: string
  d_Confidence :: string
  d_Reason :: string

definition ballots :: "signals \<Rightarrow> string list" where
  "ballots s = filter (\<lambda>cc. cc \<noteq> []) [s_DomainCC s, s_IPCC s, s_ASNCC s, s_RDAPCC s]"

definition votes :: "signals \<Rightarrow> string \<Rightarrow> nat" where
  "votes s cc = length (filter (\<lambda>b. b = cc) (ballots s))"

definition vote_order :: "signals \<Rightarrow> string list \<Rightarrow> bool" where
  "vote_order s ord \<longleftrightarrow> distinct ord \<and> set ord = set (ballots s)"

fun best_vote :: "signals \<Rightarrow> string list \<Rightarrow> string \<times> nat \<Rightarrow> string \<times> nat" where
  "best_vote s [] acc = acc"
| "best_vote s (cc # ord) (best, n) =
     best_vote s ord (if n < votes s cc then (cc, votes s cc) else (best, n))"

section \<open>Decide\<close>

definition no_country :: "string \<Rightarrow> decision" where
  "no_country reason = \<lparr>d_FinalCountry = [], d_Confidence = ConfUnknown, d_Reason = reason\<rparr>"

definition agree_parts :: "signals \<Rightarrow> string \<Rightarrow> string list" where
  "agree_parts s best =
     (if s_DomainCC s = best then [''domain '' @ s_DomainType s] else []) @
     (if s_IPCC s = best then [''ip''] else []) @
     (if s_ASNCC s = best then [''asn brand''] else []) @
     (if s_RDAPCC s = best then [''rdap''] else [])"

definition decide :: "string list \<Rightarrow> signals \<Rightarrow> decision" where
  "decide ord s =
     (if s_IsIPInput s \<and> s_ASNCC s = [] \<and> s_RDAPCC s = [] then
        (if s_IPCC s \<noteq> [] then
           \<lparr>d_FinalCountry = s_IPCC s, d_Confidence = ConfIPOnly, d_Reason = ''raw ip input; rir lookup''\<rparr>
         else no_country ''no country signal'')
      else
        let (best, n) = best_vote s ord ([], 0) in
        if 2 \<le> n then
          \<lparr>d_FinalCountry = best, d_Confidence = ConfHigh,
           d_Reason = go_join ''+'' (agree_parts s best) @ '' agree on '' @ best\<rparr>
        else if s_ASNCC s \<noteq> [] then
          \<lparr>d_FinalCountry = s_ASNCC s, d_Confidence = ConfHighASNBrand,
           d_Reason = ''asn brand '' @ s_ASNCC s @ overrides_ip (s_IPCC s) (s_ASNCC s)\<rparr>
        else if s_RDAPCC s \<noteq> [] then
          \<lparr>d_FinalCountry = s_RDAPCC s, d_Confidence = ConfHighRDAPRegistrant,
           d_Reason = ''rdap registrant '' @ s_RDAPCC s @ overrides_ip (s_IPCC s) (s_RDAPCC s)\<rparr>
        else if s_DNSFailed s then
          (if s_DomainCC s \<noteq> [] then
             \<lparr>d_FinalCountry = s_DomainCC s, d_Confidence = ConfLowDNSFailed,
              d_Reason = ''dns failed; used '' @ s_DomainType s @ '' signal''\<rparr>
           else no_country ''dns failed; no domain signal'')
        else if s_DomainCC s \<noteq> [] \<and> s_IPCC s \<noteq> [] \<and> s_DomainCC s \<noteq> s_IPCC s then
          (if s_DomainCC s = ''ID'' then
             \<lparr>d_FinalCountry = s_DomainCC s, d_Confidence = ConfMediumDomainIDOffshore,
              d_Reason = ''domain .id but host ip in '' @ s_IPCC s\<rparr>
           else
             \<lparr>d_FinalCountry = s_DomainCC s, d_Confidence = ConfMediumDomainCCMismatch,
              d_Reason = ''domain '' @ s_DomainCC s @ '' but host ip in '' @ s_IPCC s\<rparr>)
        else if s_DomainCC s = [] \<and> (s_DomainType s = ''generic'' \<or> s_DomainType s = []) \<and> s_IPCC s = ''ID'' then
          \<lparr>d_FinalCountry = ''ID'', d_Confidence = ConfMediumGenericTLDIDHost,
           d_Reason = ''generic tld resolved to id host''\<rparr>
        else if s_DomainCC s \<noteq> [] \<and> s_IPCC s = [] then
          \<lparr>d_FinalCountry = s_DomainCC s, d_Confidence = ConfLowDNSFailed,
           d_Reason = ''domain '' @ s_DomainType s @ '' signal only''\<rparr>
        else if s_IPCC s \<noteq> [] then
          \<lparr>d_FinalCountry = s_IPCC s, d_Confidence = ConfIPOnly, d_Reason = ''ip country only''\<rparr>
        else no_country ''no country signal'')"

section \<open>The vote\<close>

lemma best_vote_max:
  assumes "best_vote s ord (b, n) = (best, m)"
  shows "n \<le> m \<and> (\<forall>cc \<in> set ord. votes s cc \<le> m) \<and>
    ((best, m) = (b, n) \<or> best \<in> set ord \<and> m = votes s best)"
  using assms
proof (induction ord arbitrary: b n)
  case (Cons cc ord)
  show ?case
  proof (cases "n < votes s cc")
    case True
    then have "best_vote s ord (cc, votes s cc) = (best, m)" using Cons.prems by simp
    from Cons.IH[OF this] True show ?thesis by auto
  next
    case False
    then have "best_vote s ord (b, n) = (best, m)" using Cons.prems by simp
    from Cons.IH[OF this] False show ?thesis by auto
  qed
qed simp

lemma best_vote_start:
  assumes "best_vote s ord ([], 0) = (best, m)" and "0 < m"
  shows "best \<in> set ord" "m = votes s best" "\<And>cc. cc \<in> set ord \<Longrightarrow> votes s cc \<le> votes s best"
  using best_vote_max[OF assms(1)] assms(2) by auto

lemma votes_pos: "0 < votes s cc \<longleftrightarrow> cc \<in> set (ballots s)"
  by (auto simp: votes_def filter_empty_conv)

lemma votes_sum:
  assumes "a \<noteq> b"
  shows "votes s a + votes s b \<le> 4"
proof -
  have "length (filter (\<lambda>x. x = a) xs) + length (filter (\<lambda>x. x = b) xs) \<le> length xs" for xs
    using assms by (induction xs) auto
  then have "votes s a + votes s b \<le> length (ballots s)" unfolding votes_def .
  also have "\<dots> \<le> 4" by (simp add: ballots_def)
  finally show ?thesis .
qed

definition leader :: "signals \<Rightarrow> string \<Rightarrow> bool" where
  "leader s cc \<longleftrightarrow> 2 \<le> votes s cc \<and> (\<forall>b \<in> set (ballots s). b \<noteq> cc \<longrightarrow> votes s b < votes s cc)"

lemma best_vote_leader:
  assumes "vote_order s ord" and "leader s cc"
  shows "best_vote s ord ([], 0) = (cc, votes s cc)"
proof -
  obtain best m where b: "best_vote s ord ([], 0) = (best, m)" by fastforce
  have cc: "cc \<in> set ord" using assms votes_pos[of s cc] by (auto simp: vote_order_def leader_def)
  then have "votes s cc \<le> m" using best_vote_max[OF b] by blast
  then have "0 < m" using assms(2) by (simp add: leader_def)
  note st = best_vote_start[OF b this]
  have "best = cc"
  proof (rule ccontr)
    assume "best \<noteq> cc"
    then have "votes s best < votes s cc"
      using assms st(1) by (auto simp: leader_def vote_order_def)
    then show False using st(3)[OF cc] by simp
  qed
  then show ?thesis using b st(2) by simp
qed

lemma best_vote_small:
  assumes "vote_order s ord" and "\<forall>cc. votes s cc < 2"
  shows "snd (best_vote s ord ([], 0)) < 2"
proof -
  obtain best m where b: "best_vote s ord ([], 0) = (best, m)" by fastforce
  show ?thesis
  proof (cases "0 < m")
    case True
    then show ?thesis using best_vote_start[OF b] assms(2) b by simp
  qed (simp add: b)
qed

section \<open>Properties\<close>

text \<open>
  Majority: a country with at least two votes and more than any other country wins with confidence
  "high", in whatever order the vote map is iterated (a raw IP without brand and registrant apart).
\<close>

theorem decide_majority:
  assumes "vote_order s ord" and "leader s cc" and "\<not> (s_IsIPInput s \<and> s_ASNCC s = [] \<and> s_RDAPCC s = [])"
  shows "d_FinalCountry (decide ord s) = cc \<and> d_Confidence (decide ord s) = ConfHigh"
  using best_vote_leader[OF assms(1,2)] assms(2,3) by (auto simp: decide_def leader_def)

definition sample_signals :: signals where
  "sample_signals = \<lparr>s_DomainCC = ''SG'', s_DomainType = ''cctld'', s_IPCC = ''ID'', s_ASNCC = ''ID'',
     s_RDAPCC = [], s_DNSFailed = False, s_IsIPInput = False\<rparr>"

theorem decide_majority_witness: "d_FinalCountry (decide [''SG'', ''ID''] sample_signals) = ''ID''"
proof -
  have "vote_order sample_signals [''SG'', ''ID'']"
    by (auto simp: vote_order_def sample_signals_def ballots_def)
  moreover have "leader sample_signals ''ID''"
    by (simp add: leader_def votes_def ballots_def sample_signals_def)
  ultimately show ?thesis using decide_majority by (simp add: sample_signals_def)
qed

text \<open>
  \<open>Decide\<close> is deterministic exactly where no two countries share the maximum of two votes: away from
  such a tie every two iteration orders give the same decision.
\<close>

theorem decide_order_independent:
  assumes "vote_order s ord" and "vote_order s ord'"
    and "\<not> (\<exists>a b. a \<noteq> b \<and> votes s a = 2 \<and> votes s b = 2)"
  shows "decide ord s = decide ord' s"
proof (cases "\<exists>cc. 2 \<le> votes s cc")
  case True
  then obtain cc where cc: "2 \<le> votes s cc" by blast
  have "leader s cc"
    unfolding leader_def
  proof (intro conjI cc ballI impI)
    fix b
    assume "b \<noteq> cc"
    then have "\<not> (votes s b = 2 \<and> votes s cc = 2)" using assms(3) by blast
    then show "votes s b < votes s cc" using votes_sum[OF \<open>b \<noteq> cc\<close>, of s] cc by linarith
  qed
  then show ?thesis
    using best_vote_leader[OF assms(1)] best_vote_leader[OF assms(2)] by (simp add: decide_def)
next
  case False
  then show ?thesis
    using best_vote_small[OF assms(1)] best_vote_small[OF assms(2)]
    by (auto simp: decide_def Let_def not_le case_prod_unfold)
qed

lemma sample_orders:
  "vote_order sample_signals [''SG'', ''ID'']" "vote_order sample_signals [''ID'', ''SG'']"
  by (auto simp: vote_order_def sample_signals_def ballots_def)

theorem decide_order_independent_witness:
  "decide [''SG'', ''ID''] sample_signals = decide [''ID'', ''SG''] sample_signals"
proof (rule decide_order_independent[OF sample_orders])
  show "\<not> (\<exists>a b. a \<noteq> b \<and> votes sample_signals a = 2 \<and> votes sample_signals b = 2)"
    by (auto simp: votes_def ballots_def sample_signals_def)
qed

definition tied_signals :: signals where
  "tied_signals = \<lparr>s_DomainCC = ''SG'', s_DomainType = ''cctld'', s_IPCC = ''SG'', s_ASNCC = ''ID'',
     s_RDAPCC = ''ID'', s_DNSFailed = False, s_IsIPInput = False\<rparr>"

text \<open>
  On a two-two tie the decision depends on the iteration order of the vote map: the same signals give
  SG under one order and ID under another, both with confidence "high".
\<close>

theorem decide_tie_nondeterministic:
  "vote_order tied_signals [''SG'', ''ID''] \<and> vote_order tied_signals [''ID'', ''SG''] \<and>
   d_FinalCountry (decide [''SG'', ''ID''] tied_signals) = ''SG'' \<and>
   d_FinalCountry (decide [''ID'', ''SG''] tied_signals) = ''ID'' \<and>
   d_Confidence (decide [''SG'', ''ID''] tied_signals) = ConfHigh \<and>
   d_Confidence (decide [''ID'', ''SG''] tied_signals) = ConfHigh"
  by (simp add: vote_order_def tied_signals_def ballots_def decide_def votes_def)
    (simp add: insert_commute)

definition sound_decision :: "signals \<Rightarrow> decision \<Rightarrow> bool" where
  "sound_decision s d \<longleftrightarrow>
     d_FinalCountry d \<in> {[], s_DomainCC s, s_IPCC s, s_ASNCC s, s_RDAPCC s} \<and>
     (d_FinalCountry d = [] \<longleftrightarrow> d_Confidence d = ConfUnknown)"

lemma sound_if:
  "(c \<Longrightarrow> sound_decision s a) \<Longrightarrow> (\<not> c \<Longrightarrow> sound_decision s b) \<Longrightarrow> sound_decision s (if c then a else b)"
  by simp

lemma known_tiers:
  "ConfHigh \<noteq> ConfUnknown" "ConfHighASNBrand \<noteq> ConfUnknown" "ConfHighRDAPRegistrant \<noteq> ConfUnknown"
  "ConfLowDNSFailed \<noteq> ConfUnknown" "ConfMediumDomainIDOffshore \<noteq> ConfUnknown"
  "ConfMediumDomainCCMismatch \<noteq> ConfUnknown" "ConfMediumGenericTLDIDHost \<noteq> ConfUnknown"
  "ConfIPOnly \<noteq> ConfUnknown"
  by (simp_all add: conf_defs)

text \<open>
  \<open>Decide\<close> invents no country: the final country is one of the four signals, and it is empty exactly
  when the confidence is "unknown".
\<close>

theorem decide_sound:
  assumes "vote_order s ord"
  shows "d_FinalCountry (decide ord s) \<in> {[], s_DomainCC s, s_IPCC s, s_ASNCC s, s_RDAPCC s} \<and>
    (d_FinalCountry (decide ord s) = [] \<longleftrightarrow> d_Confidence (decide ord s) = ConfUnknown)"
proof -
  obtain best m where b: "best_vote s ord ([], 0) = (best, m)" by fastforce
  have "best \<in> {s_DomainCC s, s_IPCC s, s_ASNCC s, s_RDAPCC s} \<and> best \<noteq> []" if "2 \<le> m"
    using best_vote_start(1)[OF b] that assms unfolding vote_order_def ballots_def set_filter by simp
  then have "sound_decision s (decide ord s)"
    unfolding decide_def b Let_def prod.case
    by (intro sound_if) (simp_all add: sound_decision_def no_country_def known_tiers)
  then show ?thesis unfolding sound_decision_def .
qed

theorem decide_sound_witness:
  "d_FinalCountry (decide [''ID'', ''SG''] sample_signals) \<in> {[], ''SG'', ''ID'', ''ID'', []}"
  using decide_sound[OF sample_orders(2)] by (auto simp: sample_signals_def)

end
