(* ===== verification/Http.thy ===== *)
theory Http
  imports Prelude GoStrings
begin

text \<open>
  What the online clients use of \<open>net/http\<close> and \<open>io\<close>.  The network is a parameter: a client takes a
  request and a world to a response or an error (\<open>None\<close>: the request could not be built, the call failed
  or its deadline passed).  A response body is the bytes it delivers and whether reading ends in an error.
\<close>

record http_request =
  rq_Method :: string
  rq_URL :: string
  rq_Header :: "(string \<times> string) list"
  rq_Timeout :: int

record http_response =
  rs_StatusCode :: int
  rs_Header :: "string \<Rightarrow> string"
  rs_Body :: bytes
  rs_BodyErr :: bool

type_synonym 'w http = "http_request \<Rightarrow> 'w \<Rightarrow> http_response option \<times> 'w"

text \<open>\<open>io.ReadAll\<close> of the body, and of \<open>io.LimitReader\<close> over it: an error behind the limit is not seen.\<close>

definition read_all :: "http_response \<Rightarrow> bytes option" where
  "read_all r = (if rs_BodyErr r then None else Some (rs_Body r))"

definition read_limited :: "int \<Rightarrow> http_response \<Rightarrow> bytes option" where
  "read_limited limit r =
     (if limit \<le> int (length (rs_Body r)) then Some (take (nat limit) (rs_Body r))
      else if rs_BodyErr r then None else Some (rs_Body r))"

lemma read_limited_length: "read_limited limit r = Some b \<Longrightarrow> length b \<le> nat limit"
  by (auto simp: read_limited_def split: if_splits)

definition header_if :: "string \<Rightarrow> string \<Rightarrow> (string \<times> string) list" where
  "header_if name v = (if v \<noteq> [] then [(name, v)] else [])"

text \<open>A context with a timeout only when one is configured.\<close>

definition deadline :: "int \<Rightarrow> int" where
  "deadline t = (if 0 < t then t else 0)"

text \<open>
  \<open>strings.ToLower\<close> as an ASCII needle can see it: the ASCII letters, and the two characters outside ASCII
  whose lower case is an ASCII letter (the Kelvin sign and the capital I with a dot).
\<close>

function body_lower :: "string \<Rightarrow> string" where
  "body_lower s =
     (if prefix [CHR 0xE2, CHR 0x84, CHR 0xAA] s then CHR ''k'' # body_lower (drop 3 s)
      else if prefix [CHR 0xC4, CHR 0xB0] s then CHR ''i'' # body_lower (drop 2 s)
      else (case s of [] \<Rightarrow> [] | c # r \<Rightarrow> lower_char c # body_lower r))"
  by pat_completeness auto
termination by (relation "measure length") (auto dest: prefix_length_le)

declare body_lower.simps [simp del]

end
