(* ===== verification/GoTime.thy ===== *)
theory GoTime
  imports RirParser
begin

text \<open>
  The part of Go's package \<open>time\<close> that the caches write to disk: an instant is an \<open>int\<close>, the nanoseconds
  since 1970-01-01 UTC; \<open>fmt_time\<close> is the RFC 3339 text with nanoseconds that \<open>Time.MarshalJSON\<close> writes
  for a zone offset in minutes, \<open>parse_time\<close> the strict reader behind \<open>Time.UnmarshalJSON\<close>.  The last
  lemmas prove that the reader gives back the instant written, for the years 0 to 9999.
\<close>

section \<open>Digits of a fixed width\<close>

fun fixed_digits :: "nat \<Rightarrow> nat \<Rightarrow> string" where
  "fixed_digits 0 n = []"
| "fixed_digits (Suc w) n = fixed_digits w (n div 10) @ [char_of (48 + n mod 10)]"

lemma length_fixed_digits [simp]: "length (fixed_digits w n) = w"
  by (induction w n rule: fixed_digits.induct) auto

lemma is_digit_char_of: "(d :: nat) < 10 \<Longrightarrow> is_digit (char_of (48 + d))"
  by (simp add: is_digit_def)

lemma digit_fixed_digits [simp]: "list_all is_digit (fixed_digits w n)"
  by (induction w n rule: fixed_digits.induct) (auto intro: is_digit_char_of)

lemma digits_val_fixed: "digits_val (fixed_digits w n) = n mod 10 ^ w"
proof (induction w n rule: fixed_digits.induct)
  case (1 n)
  show ?case by (simp add: digits_val_def)
next
  case (2 w n)
  then show ?case
    by (simp add: digits_val_snoc digit_val_def of_char_digit mod_mult2_eq)
qed

lemma digits_val_fixed_small [simp]: "n < 10 ^ w \<Longrightarrow> digits_val (fixed_digits w n) = n"
  by (simp add: digits_val_fixed)

section \<open>The calendar\<close>

definition year_of :: "int \<Rightarrow> int" where
  "year_of n =
     (let y = n * 400 div 146097 in
      if n < days_before_year y then y - 1 else if days_before_year (y + 1) \<le> n then y + 1 else y)"

fun month_of :: "int list \<Rightarrow> int \<Rightarrow> nat \<times> int" where
  "month_of [] k = (1, k + 1)"
| "month_of (l # ls) k = (if k < l then (1, k + 1) else (let (m, d) = month_of ls (k - l) in (Suc m, d)))"

text \<open>Year, month and day of a day count since 1970-01-01.\<close>

definition civil :: "int \<Rightarrow> int \<times> nat \<times> int" where
  "civil day =
     (let n = day + 719528; y = year_of n; (m, d) = month_of (month_lengths y) (n - days_before_year y)
      in (y, m, d))"

lemma year_of_bounds:
  "days_before_year (year_of n) \<le> n" "n < days_before_year (year_of n + 1)"
proof -
  define y where "y = n * 400 div 146097"
  have y: "146097 * y \<le> 400 * n" "400 * n < 146097 * y + 146097"
    using div_mult_mod_eq[of "n * 400" 146097] pos_mod_bound[of 146097 "n * 400"]
      pos_mod_sign[of 146097 "n * 400"] by (auto simp: y_def)
  have d: "k * (a div k) \<le> a \<and> a < k * (a div k) + k" if "0 < k" for a k :: int
    using pos_mod_bound[OF that, of a] pos_mod_sign[OF that, of a] mult_div_mod_eq[of k a] by linarith
  have d4: "4 * (a div 4) \<le> a \<and> a < 4 * (a div 4) + 4" for a :: int by (rule d) simp
  have d100: "100 * (a div 100) \<le> a \<and> a < 100 * (a div 100) + 100" for a :: int by (rule d) simp
  have d400: "400 * (a div 400) \<le> a \<and> a < 400 * (a div 400) + 400" for a :: int by (rule d) simp
  have lo: "days_before_year (y - 1) \<le> n"
  proof -
    define a b c where "a = (y - 1 + 3) div 4" and "b = (y - 1 + 99) div 100" and "c = (y - 1 + 399) div 400"
    have "4 * a \<le> y + 2" "y + 98 < 100 * b + 100" "400 * c \<le> y + 398"
      using d4[of "y - 1 + 3"] d100[of "y - 1 + 99"] d400[of "y - 1 + 399"] by (simp_all add: a_def b_def c_def)
    moreover have "days_before_year (y - 1) = 365 * y - 365 + a - b + c"
      by (simp add: days_before_year_def a_def b_def c_def)
    ultimately show ?thesis using y by linarith
  qed
  have hi: "n < days_before_year (y + 2)"
  proof -
    define a b c where "a = (y + 2 + 3) div 4" and "b = (y + 2 + 99) div 100" and "c = (y + 2 + 399) div 400"
    have "y + 1 < 4 * a" "100 * b \<le> y + 101" "y + 1 < 400 * c"
      using d4[of "y + 2 + 3"] d100[of "y + 2 + 99"] d400[of "y + 2 + 399"] unfolding a_def b_def c_def by linarith+
    moreover have "days_before_year (y + 2) = 365 * y + 730 + a - b + c"
      by (simp add: days_before_year_def a_def b_def c_def)
    ultimately show ?thesis using y by linarith
  qed
  show "days_before_year (year_of n) \<le> n" "n < days_before_year (year_of n + 1)"
    using lo hi by (auto simp: year_of_def y_def[symmetric] Let_def add.commute)
qed

lemma div_step:
  fixes y k c :: int
  assumes "0 < k" and c: "c = k - 1"
  shows "(y + 1 + c) div k = (y + c) div k + (if y mod k = 0 then 1 else 0)"
proof -
  define q r where "q = y div k" and "r = y mod k"
  have y: "y = r + q * k" and r: "0 \<le> r" "r < k" using assms(1) by (simp_all add: q_def r_def)
  have "(y + 1 + c) div k = q + 1" using assms(1) unfolding c by (simp add: q_def div_add_self2)
  moreover have "(y + c) div k = q + (r + c) div k"
    using assms(1) div_mult_self1[of k "r + c" q] unfolding y by (simp add: ac_simps)
  moreover have "(r + c) div k = (if r = 0 then 0 else 1)"
  proof (cases "r = 0")
    case True
    then show ?thesis using assms by (simp add: div_pos_pos_trivial)
  next
    case False
    have "r + c = (r - 1) + 1 * k" using c by simp
    then have "(r + c) div k = ((r - 1) + 1 * k) div k" by (rule arg_cong)
    also have "\<dots> = 1 + (r - 1) div k" using assms(1) by (subst div_mult_self1) simp_all
    finally show ?thesis using False r by (simp add: div_pos_pos_trivial)
  qed
  ultimately show ?thesis by (simp add: r_def)
qed

lemma days_before_year_step: "days_before_year (y + 1) = days_before_year y + sum_list (month_lengths y)"
proof -
  have m: "y mod 400 = 0 \<Longrightarrow> y mod 100 = 0" "y mod 100 = 0 \<Longrightarrow> y mod 4 = 0"
    using dvd_trans[of 100 400 y] dvd_trans[of 4 100 y] by (simp_all add: mod_eq_0_iff_dvd)
  have l: "sum_list (month_lengths y) = (if leap_year y then 366 else 365)" by (simp add: month_lengths_def)
  have e: "(y + 1 + 3) div 4 = (y + 3) div 4 + (if y mod 4 = 0 then 1 else 0)"
    "(y + 1 + 99) div 100 = (y + 99) div 100 + (if y mod 100 = 0 then 1 else 0)"
    "(y + 1 + 399) div 400 = (y + 399) div 400 + (if y mod 400 = 0 then 1 else 0)"
    by (rule div_step; simp)+
  define a b c where "a = (y + 3) div 4" "b = (y + 99) div 100" "c = (y + 399) div 400"
  show ?thesis
    unfolding l days_before_year_def leap_year_def e a_b_c_def[symmetric]
    by (cases "y mod 4 = 0"; cases "y mod 100 = 0"; cases "y mod 400 = 0")
       (simp_all only: m simp_thms if_True if_False, simp_all)
qed

lemma month_of_bounds:
  assumes "0 \<le> k" "k < sum_list ls" "month_of ls k = (m, d)"
  shows "1 \<le> m \<and> m \<le> length ls \<and> 1 \<le> d \<and> d \<le> ls ! (m - 1) \<and> sum_list (take (m - 1) ls) + (d - 1) = k"
  using assms
proof (induction ls k arbitrary: m d rule: month_of.induct)
  case (2 l ls k)
  show ?case
  proof (cases "k < l")
    case True
    then show ?thesis using 2 by auto
  next
    case False
    obtain m1 d1 where md: "month_of ls (k - l) = (m1, d1)" by fastforce
    have "1 \<le> m1 \<and> m1 \<le> length ls \<and> 1 \<le> d1 \<and> d1 \<le> ls ! (m1 - 1) \<and>
        sum_list (take (m1 - 1) ls) + (d1 - 1) = k - l"
      using 2(1)[OF False _ _ md] 2(2,3) False by simp
    moreover have "m = Suc m1" "d = d1" using 2(4) False md by auto
    ultimately show ?thesis by (cases m1) auto
  qed
qed simp

lemma civil_correct:
  assumes "civil day = (y, m, d)"
  shows "1 \<le> m" "m \<le> 12" "1 \<le> d" "d \<le> month_lengths y ! (m - 1)" "days_of_date y m d = day"
proof -
  define n where "n = day + 719528"
  have y: "y = year_of n" and md: "month_of (month_lengths y) (n - days_before_year y) = (m, d)"
    using assms by (auto simp: civil_def n_def Let_def split: prod.splits)
  have "0 \<le> n - days_before_year y" "n - days_before_year y < sum_list (month_lengths y)"
    using year_of_bounds[of n] days_before_year_step[of y] y by auto
  from month_of_bounds[OF this md] show "1 \<le> m" "m \<le> 12" "1 \<le> d" "d \<le> month_lengths y ! (m - 1)"
    "days_of_date y m d = day"
    by (auto simp: days_of_date_def n_def month_lengths_def)
qed

lemma month_length_le: "m \<le> 12 \<Longrightarrow> 1 \<le> m \<Longrightarrow> month_lengths y ! (m - 1) \<le> 31"
  by (auto simp: month_lengths_def nth_Cons split: nat.splits)

section \<open>RFC 3339\<close>

definition second_ns :: int where
  "second_ns = 1000000000"

definition fmt_frac :: "nat \<Rightarrow> string" where
  "fmt_frac ns =
     (if ns = 0 then [] else CHR ''.'' # rev (dropWhile (\<lambda>c. c = CHR ''0'') (rev (fixed_digits 9 ns))))"

definition fmt_zone :: "int \<Rightarrow> string" where
  "fmt_zone off =
     (if off = 0 then ''Z''
      else (if off < 0 then CHR ''-'' else CHR ''+'') #
           fixed_digits 2 (nat (\<bar>off\<bar> div 60)) @ CHR '':'' # fixed_digits 2 (nat (\<bar>off\<bar> mod 60)))"

definition fmt_time :: "int \<Rightarrow> int \<Rightarrow> string" where
  "fmt_time off t =
     (let s = t div second_ns + off * 60; (y, m, d) = civil (s div 86400); sod = nat (s mod 86400) in
      fixed_digits 4 (nat y) @ CHR ''-'' # fixed_digits 2 m @ CHR ''-'' # fixed_digits 2 (nat d) @
      CHR ''T'' # fixed_digits 2 (sod div 3600) @ CHR '':'' # fixed_digits 2 (sod div 60 mod 60) @
      CHR '':'' # fixed_digits 2 (sod mod 60) @ fmt_frac (nat (t mod second_ns)) @ fmt_zone off)"

definition num_field :: "nat \<Rightarrow> string \<Rightarrow> (nat \<times> string) option" where
  "num_field w s =
     (let f = take w s in
      if length f = w \<and> list_all is_digit f then Some (digits_val f, drop w s) else None)"

definition lit_field :: "char \<Rightarrow> string \<Rightarrow> string option" where
  "lit_field c s = (case s of [] \<Rightarrow> None | x # r \<Rightarrow> if x = c then Some r else None)"

definition parse_frac :: "string \<Rightarrow> (nat \<times> string) option" where
  "parse_frac s =
     (case lit_field CHR ''.'' s of
        None \<Rightarrow> Some (0, s)
      | Some r \<Rightarrow>
          let ds = takeWhile is_digit r in
          if ds = [] then None
          else Some (digits_val (take 9 (ds @ replicate 9 CHR ''0'')), dropWhile is_digit r))"

definition parse_zone :: "string \<Rightarrow> int option" where
  "parse_zone s =
     (case s of
        [] \<Rightarrow> None
      | c # r \<Rightarrow>
          if c = CHR ''Z'' then (if r = [] then Some 0 else None)
          else if c = CHR ''+'' \<or> c = CHR ''-'' then
            (case num_field 2 r of
               None \<Rightarrow> None
             | Some (h, r1) \<Rightarrow>
                 (case Option.bind (lit_field CHR '':'' r1) (num_field 2) of
                    None \<Rightarrow> None
                  | Some (m, r2) \<Rightarrow>
                      if r2 \<noteq> [] \<or> 23 < h \<or> 59 < m then None
                      else Some (if c = CHR ''-'' then - int (h * 60 + m) else int (h * 60 + m))))
          else None)"

text \<open>The six numbers of the date and the time of day, in the order of the text.\<close>

fun num_fields :: "(nat \<times> char option) list \<Rightarrow> string \<Rightarrow> (nat list \<times> string) option" where
  "num_fields [] s = Some ([], s)"
| "num_fields ((w, sep) # ps) s =
     (case num_field w s of
        None \<Rightarrow> None
      | Some (n, r) \<Rightarrow>
          (case (case sep of None \<Rightarrow> Some r | Some c \<Rightarrow> lit_field c r) of
             None \<Rightarrow> None
           | Some r1 \<Rightarrow>
               (case num_fields ps r1 of None \<Rightarrow> None | Some (ns, r2) \<Rightarrow> Some (n # ns, r2))))"

definition time_layout :: "(nat \<times> char option) list" where
  "time_layout =
     [(4, Some CHR ''-''), (2, Some CHR ''-''), (2, Some CHR ''T''), (2, Some CHR '':''),
      (2, Some CHR '':''), (2, None)]"

definition parse_time :: "string \<Rightarrow> int option" where
  "parse_time s =
     (case num_fields time_layout s of
        Some ([y, m, d, h, mi, sec], r) \<Rightarrow>
          if m < 1 \<or> 12 < m \<or> d < 1 \<or> month_lengths (int y) ! (m - 1) < int d \<or> 23 < h \<or> 59 < mi \<or> 59 < sec
          then None
          else
            (case parse_frac r of
               None \<Rightarrow> None
             | Some (ns, r1) \<Rightarrow>
                 (case parse_zone r1 of
                    None \<Rightarrow> None
                  | Some off \<Rightarrow>
                      Some ((days_of_date (int y) m (int d) * 86400 + int (h * 3600 + mi * 60 + sec)
                             - off * 60) * second_ns + int ns)))
      | _ \<Rightarrow> None)"

section \<open>Reading back a written time\<close>

lemma num_field_fixed [simp]: "n < 10 ^ w \<Longrightarrow> num_field w (fixed_digits w n @ r) = Some (n, r)"
  by (simp add: num_field_def)

lemma lit_field_Cons [simp]: "lit_field c (c # r) = Some r"
  by (simp add: lit_field_def)

lemma take_Nil_replicate: "take n (xs @ replicate n z) = take n xs @ replicate (n - length xs) z"
  by simp

lemma strip_zeros:
  "length xs = n \<Longrightarrow>
     take n (rev (dropWhile (\<lambda>c. c = z) (rev xs)) @ replicate n z) = xs"
proof (induction xs arbitrary: n rule: rev_induct)
  case (snoc x xs)
  obtain k where k: "n = Suc k" "length xs = k" using snoc.prems by (cases n) auto
  show ?case
  proof (cases "x = z")
    case True
    define ys where "ys = rev (dropWhile (\<lambda>c. c = z) (rev xs))"
    have len: "length ys \<le> k" unfolding ys_def using k(2) length_dropWhile_le[of _ "rev xs"] by simp
    have "ys @ replicate (k - length ys) z = xs"
      using snoc.IH[OF k(2)] len by (simp add: ys_def[symmetric] min_def)
    then have "ys @ replicate (Suc k - length ys) z = xs @ [z]"
      using len by (simp add: Suc_diff_le replicate_append_same[symmetric] flip: append_assoc)
    moreover have "take (Suc k) (ys @ replicate (Suc k) z) = ys @ replicate (Suc k - length ys) z"
      using len by (simp add: min_def del: replicate.simps)
    ultimately show ?thesis using True k by (simp add: ys_def del: replicate.simps)
  next
    case False
    then show ?thesis using k by simp
  qed
qed simp

lemma digits_val_zeros: "digits_val xs = 0 \<longleftrightarrow> list_all (\<lambda>c. digit_val c = 0) xs"
  by (induction xs rule: rev_induct) (auto simp: digits_val_snoc, simp add: digits_val_def)

lemma digit_val_0: "is_digit c \<Longrightarrow> digit_val c = 0 \<longleftrightarrow> c = CHR ''0''"
proof
  assume "is_digit c" "digit_val c = 0"
  then have "(of_char c :: nat) = of_char CHR ''0''" by (simp add: is_digit_def digit_val_def)
  then show "c = CHR ''0''" by (simp only: of_char_eq_iff)
qed (simp add: digit_val_def)

lemma takeWhile_digits:
  assumes "list_all is_digit ds" and "r \<noteq> [] \<longrightarrow> \<not> is_digit (hd r)"
  shows "takeWhile is_digit (ds @ r) = ds" "dropWhile is_digit (ds @ r) = r"
proof -
  have "takeWhile is_digit r = []" "dropWhile is_digit r = r" using assms(2) by (cases r; simp)+
  then show "takeWhile is_digit (ds @ r) = ds" "dropWhile is_digit (ds @ r) = r"
    using assms(1) by (simp_all add: list_all_iff)
qed

lemma parse_fmt_frac:
  assumes "ns < 10 ^ 9" and "r \<noteq> []" and "\<not> is_digit (hd r)" "hd r \<noteq> CHR ''.''"
  shows "parse_frac (fmt_frac ns @ r) = Some (ns, r)"
proof (cases "ns = 0")
  case True
  then show ?thesis using assms by (cases r) (auto simp: fmt_frac_def parse_frac_def lit_field_def)
next
  case False
  define ds where "ds = rev (dropWhile (\<lambda>c. c = CHR ''0'') (rev (fixed_digits 9 ns)))"
  have all: "list_all is_digit ds"
    using digit_fixed_digits[of 9 ns] by (auto simp: ds_def list_all_iff dest: set_dropWhileD simp del: digit_fixed_digits)
  have val: "digits_val (take 9 (ds @ replicate 9 CHR ''0'')) = ns"
    using assms(1) unfolding ds_def by (subst strip_zeros) (simp_all only: length_fixed_digits digits_val_fixed_small)
  have ne: "ds \<noteq> []"
  proof
    assume "ds = []"
    with val have "ns = digits_val (replicate 9 CHR ''0'')" by simp
    also have "\<dots> = 0" by code_simp
    finally show False using False by simp
  qed
  have "fmt_frac ns @ r = CHR ''.'' # ds @ r" using False by (simp add: fmt_frac_def ds_def)
  then show ?thesis
    using takeWhile_digits[OF all, of r] assms val ne
    by (simp add: parse_frac_def)
qed

lemma parse_fmt_zone:
  assumes "\<bar>off\<bar> < 1440"
  shows "parse_zone (fmt_zone off) = Some off"
proof (cases "off = 0")
  case False
  define a b where "a = nat (\<bar>off\<bar> div 60)" and "b = nat (\<bar>off\<bar> mod 60)"
  have h: "a \<le> 23" "b \<le> 59"
    using assms pos_mod_bound[of 60 "\<bar>off\<bar>"] by (auto simp: a_def b_def)
  have num: "num_field 2 (fixed_digits 2 a @ r) = Some (a, r)" "num_field 2 (fixed_digits 2 b) = Some (b, [])" for r
    using h num_field_fixed[of a 2 r] num_field_fixed[of b 2 "[]"] by simp_all
  have "int (a * 60 + b) = \<bar>off\<bar>"
    using div_mult_mod_eq[of "\<bar>off\<bar>" 60] by (simp add: a_def b_def pos_imp_zdiv_nonneg_iff)
  then show ?thesis
    using False h by (auto simp: fmt_zone_def parse_zone_def num a_def[symmetric] b_def[symmetric])
qed (simp add: fmt_zone_def parse_zone_def)

lemma fmt_zone_head: "fmt_zone off \<noteq> []" "\<not> is_digit (hd (fmt_zone off))" "hd (fmt_zone off) \<noteq> CHR ''.''"
  by (auto simp: fmt_zone_def is_digit_def)

definition year_in_range :: "int \<Rightarrow> int \<Rightarrow> bool" where
  "year_in_range off t \<longleftrightarrow>
     (case civil ((t div second_ns + off * 60) div 86400) of (y, _, _) \<Rightarrow> 0 \<le> y \<and> y \<le> 9999)"

lemma parse_fmt_time:
  assumes "year_in_range off t" and "\<bar>off\<bar> < 1440"
  shows "parse_time (fmt_time off t) = Some t"
proof -
  define s where "s = t div second_ns + off * 60"
  obtain y m d where c: "civil (s div 86400) = (y, m, d)" by (cases "civil (s div 86400)") auto
  note cc = civil_correct[OF c]
  have y: "0 \<le> y" "y \<le> 9999" using assms(1) c by (simp_all add: year_in_range_def s_def)
  define sod where "sod = nat (s mod 86400)"
  have sod: "sod < 86400" "int sod = s mod 86400" by (simp_all add: sod_def nat_less_iff)
  have d: "d \<le> 31" using cc month_length_le[of m y] by linarith
  define r where "r = fmt_frac (nat (t mod second_ns)) @ fmt_zone off"
  have fields: "num_fields time_layout (fmt_time off t) =
      Some ([nat y, m, nat d, sod div 3600, sod div 60 mod 60, sod mod 60], r)"
    using y cc d sod
    by (simp add: fmt_time_def s_def[symmetric] c sod_def[symmetric] r_def[symmetric] time_layout_def Let_def)
  have ns: "0 \<le> t mod second_ns" "t mod second_ns < 10 ^ 9"
    by (simp_all add: second_ns_def)
  then have frac: "parse_frac r = Some (nat (t mod second_ns), fmt_zone off)"
    unfolding r_def by (intro parse_fmt_frac fmt_zone_head) (simp add: nat_less_iff)
  have t: "(days_of_date y m d * 86400 + int (sod div 3600 * 3600 + sod div 60 mod 60 * 60 + sod mod 60)
      - off * 60) * second_ns + t mod second_ns = t"
  proof -
    have "sod div 3600 * 3600 + sod div 60 mod 60 * 60 + sod mod 60 = sod"
    proof -
      define a b c where "a = sod div 60 div 60" and "b = sod div 60 mod 60" and "c = sod mod 60"
      have "a * 60 + b = sod div 60" "sod div 60 * 60 + c = sod" by (simp_all add: a_def b_def c_def)
      moreover have "sod div 3600 = a" using div_mult2_eq[of sod 60 60] by (simp add: a_def)
      ultimately show ?thesis unfolding b_def[symmetric] c_def[symmetric] by linarith
    qed
    then have "days_of_date y m d * 86400 + int (sod div 3600 * 3600 + sod div 60 mod 60 * 60 + sod mod 60) = s"
      using cc(5) sod(2) div_mult_mod_eq[of s 86400] by simp
    then show ?thesis by (simp add: s_def)
  qed
  have h: "sod div 3600 \<le> 23" "sod div 60 mod 60 \<le> 59" "sod mod 60 \<le> 59" using sod(1) by auto
  have cond: "\<not> (m < 1 \<or> 12 < m \<or> nat d < 1 \<or> month_lengths (int (nat y)) ! (m - 1) < int (nat d) \<or>
      23 < sod div 3600 \<or> 59 < sod div 60 mod 60 \<or> 59 < sod mod 60)"
    using cc y h by simp
  have "parse_time (fmt_time off t) =
      Some ((days_of_date (int (nat y)) m (int (nat d)) * 86400 +
             int (sod div 3600 * 3600 + sod div 60 mod 60 * 60 + sod mod 60) - off * 60) * second_ns +
            int (nat (t mod second_ns)))"
    unfolding parse_time_def fields
    by (simp only: option.case prod.case list.case if_not_P[OF cond] frac parse_fmt_zone[OF assms(2)])
  then show ?thesis using t y cc(3) ns(1) by (simp only: int_nat_eq if_True) simp
qed

end
