(* ===== verification/Json.thy ===== *)
theory Json
  imports GoTime
begin

text \<open>
  The part of Go's \<open>encoding/json\<close> that the program uses: documents as trees, the encoder of
  \<open>Marshal\<close> and \<open>MarshalIndent\<close>, the decoder of \<open>Unmarshal\<close> and \<open>Decoder.Decode\<close>, and the decoding of
  struct fields.  Texts are byte strings; bytes from 0x80 on are taken over unchanged (valid UTF-8),
  and the decoder's nesting limit of 10000 is left out.  The fuel of the decoder is twice the length of
  the text: \<open>pval_fuel\<close> shows that more never changes the answer.  The last section proves that every
  printed document is read back.
\<close>

datatype json =
    JNull
  | JBool bool
  | JNum string
  | JStr string
  | JArr "json list"
  | JObj "(string \<times> json) list"

section \<open>Strings\<close>

definition utf8 :: "nat \<Rightarrow> string" where
  "utf8 n =
     (if n < 128 then [char_of n]
      else if n < 2048 then [char_of (192 + n div 64), char_of (128 + n mod 64)]
      else if n < 65536 then
        [char_of (224 + n div 4096), char_of (128 + n div 64 mod 64), char_of (128 + n mod 64)]
      else
        [char_of (240 + n div 262144), char_of (128 + n div 4096 mod 64),
         char_of (128 + n div 64 mod 64), char_of (128 + n mod 64)])"

definition hex_digit :: "nat \<Rightarrow> char" where
  "hex_digit n = (if n < 10 then char_of (48 + n) else char_of (87 + n))"

definition hex4 :: "string \<Rightarrow> nat option" where
  "hex4 s =
     (let h = take 4 s in if length h = 4 \<and> list_all is_hex h then Some (hex_val h) else None)"

text \<open>The characters the encoder escapes, HTML characters included, and how.\<close>

definition escape :: "char \<Rightarrow> string" where
  "escape c =
     (if c = CHR 0x22 then [CHR 0x5C, CHR 0x22]
      else if c = CHR 0x5C then [CHR 0x5C, CHR 0x5C]
      else if c = CHR 0x08 then [CHR 0x5C, CHR ''b'']
      else if c = CHR 0x0C then [CHR 0x5C, CHR ''f'']
      else if c = CHR 0x0A then [CHR 0x5C, CHR ''n'']
      else if c = CHR 0x0D then [CHR 0x5C, CHR ''r'']
      else if c = CHR 0x09 then [CHR 0x5C, CHR ''t'']
      else if (of_char c :: nat) < 32 \<or> c = CHR ''<'' \<or> c = CHR ''>'' \<or> c = CHR ''&'' then
        [CHR 0x5C, CHR ''u'', CHR ''0'', CHR ''0'', hex_digit (of_char c div 16), hex_digit (of_char c mod 16)]
      else [c])"

text \<open>The line separators U+2028 and U+2029 are escaped as well.\<close>

definition line_sep :: "string \<Rightarrow> char option" where
  "line_sep s =
     (if prefix [CHR 0xE2, CHR 0x80, CHR 0xA8] s then Some CHR ''8''
      else if prefix [CHR 0xE2, CHR 0x80, CHR 0xA9] s then Some CHR ''9'' else None)"

function quote_body :: "string \<Rightarrow> string" where
  "quote_body [] = []"
| "quote_body (c # s) =
     (case line_sep (c # s) of
        Some d \<Rightarrow> [CHR 0x5C, CHR ''u'', CHR ''2'', CHR ''0'', CHR ''2'', d] @ quote_body (drop 2 s)
      | None \<Rightarrow> escape c @ quote_body s)"
  by pat_completeness auto
termination by (relation "measure length") auto

definition json_quote :: "string \<Rightarrow> string" where
  "json_quote s = CHR 0x22 # quote_body s @ [CHR 0x22]"

definition unescape :: "char \<Rightarrow> char option" where
  "unescape e =
     (if e = CHR 0x22 \<or> e = CHR 0x5C \<or> e = CHR ''/'' then Some e
      else if e = CHR ''b'' then Some CHR 0x08
      else if e = CHR ''f'' then Some CHR 0x0C
      else if e = CHR ''n'' then Some CHR 0x0A
      else if e = CHR ''r'' then Some CHR 0x0D
      else if e = CHR ''t'' then Some CHR 0x09
      else None)"

text \<open>
  An escape \<open>\uXXXX\<close>, after the letter: the bytes and the rest.  A surrogate pair is one character, a
  lone surrogate becomes U+FFFD.
\<close>

definition unescape_u :: "string \<Rightarrow> (string \<times> string) option" where
  "unescape_u s =
     (case hex4 s of
        None \<Rightarrow> None
      | Some u \<Rightarrow>
          let r = drop 4 s in
          if u < 55296 \<or> 57343 < u then Some (utf8 u, r)
          else if u < 56320 \<and> prefix [CHR 0x5C, CHR ''u''] r then
            (case hex4 (drop 2 r) of
               None \<Rightarrow> Some (utf8 65533, r)
             | Some l \<Rightarrow>
                 if 56320 \<le> l \<and> l \<le> 57343
                 then Some (utf8 (65536 + (u - 55296) * 1024 + (l - 56320)), drop 6 r)
                 else Some (utf8 65533, r))
          else Some (utf8 65533, r))"

lemma unescape_u_shorter: "unescape_u s = Some (b, r) \<Longrightarrow> length r < length s"
  by (auto simp: unescape_u_def hex4_def Let_def split: if_splits option.splits)

text \<open>The text of a string after its opening quote: the bytes and the rest after the closing quote.\<close>

function pstr :: "string \<Rightarrow> (string \<times> string) option" where
  "pstr [] = None"
| "pstr (c # s) =
     (if c = CHR 0x22 then Some ([], s)
      else if c = CHR 0x5C then
        (case s of
           [] \<Rightarrow> None
         | e # s1 \<Rightarrow>
             if e = CHR ''u'' then
               (case unescape_u s1 of
                  None \<Rightarrow> None
                | Some (b, s2) \<Rightarrow> map_option (\<lambda>(w, r). (b @ w, r)) (pstr s2))
             else
               (case unescape e of
                  None \<Rightarrow> None
                | Some d \<Rightarrow> map_option (\<lambda>(w, r). (d # w, r)) (pstr s1)))
      else if (of_char c :: nat) < 32 then None
      else map_option (\<lambda>(w, r). (c # w, r)) (pstr s))"
  by pat_completeness auto
termination by (relation "measure length") (auto dest: unescape_u_shorter)

lemma pstr_shorter: "pstr s = Some (w, r) \<Longrightarrow> length r < length s"
  by (induction s arbitrary: w r rule: pstr.induct)
     (fastforce split: if_splits list.splits option.splits dest: unescape_u_shorter)+

section \<open>Numbers and white space\<close>

definition json_ws :: "char \<Rightarrow> bool" where
  "json_ws c \<longleftrightarrow> c \<in> {CHR '' '', CHR 0x09, CHR 0x0A, CHR 0x0D}"

definition skip_ws :: "string \<Rightarrow> string" where
  "skip_ws s = dropWhile json_ws s"

lemma skip_ws_length: "length (skip_ws s) \<le> length s"
  by (simp add: skip_ws_def length_dropWhile_le)

definition num_char :: "char \<Rightarrow> bool" where
  "num_char c \<longleftrightarrow> is_digit c \<or> c \<in> {CHR ''-'', CHR ''+'', CHR ''.'', CHR ''e'', CHR ''E''}"

text \<open>The grammar of number literals: sign, integer part without a leading zero, fraction, exponent.\<close>

definition all_digits :: "string \<Rightarrow> bool" where
  "all_digits s \<longleftrightarrow> s \<noteq> [] \<and> list_all is_digit s"

definition json_exp_ok :: "string \<Rightarrow> bool" where
  "json_exp_ok s =
     (case s of
        [] \<Rightarrow> True
      | c # r \<Rightarrow>
          (c = CHR ''e'' \<or> c = CHR ''E'') \<and>
          (case r of [] \<Rightarrow> False
           | d # r1 \<Rightarrow> if d = CHR ''+'' \<or> d = CHR ''-'' then all_digits r1 else all_digits r))"

definition json_num_ok :: "string \<Rightarrow> bool" where
  "json_num_ok s =
     (let t = trim_prefix s ''-'';
          i = takeWhile is_digit t;
          r = dropWhile is_digit t in
      i \<noteq> [] \<and> (hd i = CHR ''0'' \<longrightarrow> i = ''0'') \<and>
      (case r of
         [] \<Rightarrow> True
       | c # r1 \<Rightarrow>
           if c = CHR ''.'' then takeWhile is_digit r1 \<noteq> [] \<and> json_exp_ok (dropWhile is_digit r1)
           else json_exp_ok r))"

section \<open>Documents\<close>

definition plit :: "string \<Rightarrow> json \<Rightarrow> string \<Rightarrow> (json \<times> string) option" where
  "plit w v s = (if prefix w s then Some (v, drop (length w) s) else None)"

definition pnum :: "string \<Rightarrow> (json \<times> string) option" where
  "pnum s =
     (let w = takeWhile num_char s in
      if json_num_ok w then Some (JNum w, dropWhile num_char s) else None)"

text \<open>A document that begins with \<open>c\<close> and is no array or object.\<close>

definition pscalar :: "char \<Rightarrow> string \<Rightarrow> (json \<times> string) option" where
  "pscalar c r =
     (if c = CHR 0x22 then map_option (\<lambda>(w, r1). (JStr w, r1)) (pstr r)
      else if c = CHR ''t'' then plit ''rue'' (JBool True) r
      else if c = CHR ''f'' then plit ''alse'' (JBool False) r
      else if c = CHR ''n'' then plit ''ull'' JNull r
      else pnum (c # r))"

fun pval :: "nat \<Rightarrow> string \<Rightarrow> (json \<times> string) option"
and pelems :: "nat \<Rightarrow> string \<Rightarrow> (json list \<times> string) option"
and pmembers :: "nat \<Rightarrow> string \<Rightarrow> ((string \<times> json) list \<times> string) option" where
  "pval 0 s = None"
| "pval (Suc n) s =
     (case skip_ws s of
        [] \<Rightarrow> None
      | c # r \<Rightarrow>
          if c = CHR ''{'' then
            (if prefix ''}'' (skip_ws r) then Some (JObj [], tl (skip_ws r))
             else map_option (\<lambda>(ms, r1). (JObj ms, r1)) (pmembers n (skip_ws r)))
          else if c = CHR ''['' then
            (if prefix '']'' (skip_ws r) then Some (JArr [], tl (skip_ws r))
             else map_option (\<lambda>(vs, r1). (JArr vs, r1)) (pelems n (skip_ws r)))
          else pscalar c r)"
| "pelems 0 s = None"
| "pelems (Suc n) s =
     (case pval n s of
        None \<Rightarrow> None
      | Some (v, r) \<Rightarrow>
          (case skip_ws r of
             [] \<Rightarrow> None
           | c # r1 \<Rightarrow>
               if c = CHR '','' then map_option (\<lambda>(vs, r2). (v # vs, r2)) (pelems n r1)
               else if c = CHR '']'' then Some ([v], r1) else None))"
| "pmembers 0 s = None"
| "pmembers (Suc n) s =
     (case skip_ws s of
        [] \<Rightarrow> None
      | q # s1 \<Rightarrow>
          if q \<noteq> CHR 0x22 then None
          else
            (case pstr s1 of
               None \<Rightarrow> None
             | Some (k, r) \<Rightarrow>
                 (case skip_ws r of
                    [] \<Rightarrow> None
                  | c # r1 \<Rightarrow>
                      if c \<noteq> CHR '':'' then None
                      else
                        (case pval n r1 of
                           None \<Rightarrow> None
                         | Some (v, r2) \<Rightarrow>
                             (case skip_ws r2 of
                                [] \<Rightarrow> None
                              | d # r3 \<Rightarrow>
                                  if d = CHR '','' then
                                    map_option (\<lambda>(ms, r4). ((k, v) # ms, r4)) (pmembers n r3)
                                  else if d = CHR ''}'' then Some ([(k, v)], r3) else None)))))"

text \<open>\<open>json.Unmarshal\<close> reads one document and nothing after it, \<open>Decoder.Decode\<close> the first document.\<close>

definition json_parse :: "string \<Rightarrow> json option" where
  "json_parse s =
     (case pval (2 * length s) s of
        None \<Rightarrow> None
      | Some (v, r) \<Rightarrow> if skip_ws r = [] then Some v else None)"

definition json_decode_first :: "string \<Rightarrow> json option" where
  "json_decode_first s = map_option fst (pval (2 * length s) s)"

text \<open>
  \<open>json.Marshal\<close> (\<open>None\<close>) and \<open>json.MarshalIndent\<close> with two blanks (\<open>Some d\<close> at depth \<open>d\<close>).
\<close>

definition json_nl :: "nat option \<Rightarrow> string" where
  "json_nl i = (case i of None \<Rightarrow> [] | Some d \<Rightarrow> CHR 0x0A # replicate (2 * d) CHR '' '')"

definition json_colon :: "nat option \<Rightarrow> string" where
  "json_colon i = (case i of None \<Rightarrow> '':'' | Some d \<Rightarrow> '': '')"

fun json_out :: "nat option \<Rightarrow> json \<Rightarrow> string"
and out_elems :: "nat option \<Rightarrow> json list \<Rightarrow> string"
and out_members :: "nat option \<Rightarrow> (string \<times> json) list \<Rightarrow> string" where
  "json_out i JNull = ''null''"
| "json_out i (JBool b) = (if b then ''true'' else ''false'')"
| "json_out i (JNum w) = w"
| "json_out i (JStr s) = json_quote s"
| "json_out i (JArr vs) =
     (if vs = [] then ''[]''
      else CHR ''['' # out_elems (map_option Suc i) vs @ json_nl i @ '']'')"
| "json_out i (JObj ms) =
     (if ms = [] then ''{}''
      else CHR ''{'' # out_members (map_option Suc i) ms @ json_nl i @ ''}'')"
| "out_elems i [] = []"
| "out_elems i (v # vs) = json_nl i @ json_out i v @ (if vs = [] then [] else CHR '','' # out_elems i vs)"
| "out_members i [] = []"
| "out_members i ((k, v) # ms) =
     json_nl i @ json_quote k @ json_colon i @ json_out i v @
     (if ms = [] then [] else CHR '','' # out_members i ms)"

section \<open>Struct fields\<close>

text \<open>
  Field names are compared under simple case folding (the long s and the Kelvin sign fold to letters);
  a later member overwrites an earlier one, a \<open>null\<close> leaves a scalar as it is, a value of another type
  is an error (\<open>None\<close>).
\<close>

function fold_name :: "string \<Rightarrow> string" where
  "fold_name s =
     (if prefix [CHR 0xC5, CHR 0xBF] s then CHR ''s'' # fold_name (drop 2 s)
      else if prefix [CHR 0xE2, CHR 0x84, CHR 0xAA] s then CHR ''k'' # fold_name (drop 3 s)
      else (case s of [] \<Rightarrow> [] | c # r \<Rightarrow> lower_char c # fold_name r))"
  by pat_completeness auto
termination by (relation "measure length") (auto dest: prefix_length_le)

declare fold_name.simps [simp del]

fun dec_field :: "('a \<Rightarrow> json \<Rightarrow> 'a option) \<Rightarrow> string \<Rightarrow> 'a \<Rightarrow> (string \<times> json) list \<Rightarrow> 'a option" where
  "dec_field d name x [] = Some x"
| "dec_field d name x ((k, v) # ms) =
     (if fold_name k = fold_name name
      then (case d x v of None \<Rightarrow> None | Some y \<Rightarrow> dec_field d name y ms)
      else dec_field d name x ms)"

definition struct_members :: "json \<Rightarrow> (string \<times> json) list option" where
  "struct_members v = (case v of JNull \<Rightarrow> Some [] | JObj ms \<Rightarrow> Some ms | _ \<Rightarrow> None)"

definition dec_string :: "string \<Rightarrow> json \<Rightarrow> string option" where
  "dec_string x v = (case v of JNull \<Rightarrow> Some x | JStr s \<Rightarrow> Some s | _ \<Rightarrow> None)"

definition dec_bool :: "bool \<Rightarrow> json \<Rightarrow> bool option" where
  "dec_bool x v = (case v of JNull \<Rightarrow> Some x | JBool b \<Rightarrow> Some b | _ \<Rightarrow> None)"

definition int64_text :: "int \<Rightarrow> string" where
  "int64_text n = (if n < 0 then CHR ''-'' # dec_digits (nat (- n)) else dec_digits (nat n))"

definition parse_int64 :: "string \<Rightarrow> int option" where
  "parse_int64 w =
     (let neg = prefix ''-'' w; t = trim_prefix w ''-''; n = int (digits_val t) in
      if \<not> all_digits t then None
      else if neg then (if n \<le> 2 ^ 63 then Some (- n) else None)
      else if n < 2 ^ 63 then Some n else None)"

definition dec_int64 :: "int \<Rightarrow> json \<Rightarrow> int option" where
  "dec_int64 x v = (case v of JNull \<Rightarrow> Some x | JNum w \<Rightarrow> parse_int64 w | _ \<Rightarrow> None)"

definition dec_time :: "int \<Rightarrow> json \<Rightarrow> int option" where
  "dec_time x v = (case v of JNull \<Rightarrow> Some x | JStr s \<Rightarrow> parse_time s | _ \<Rightarrow> None)"

fun dec_all :: "('a \<Rightarrow> json \<Rightarrow> 'a option) \<Rightarrow> 'a \<Rightarrow> json list \<Rightarrow> 'a list option" where
  "dec_all d z [] = Some []"
| "dec_all d z (v # vs) =
     (case d z v of None \<Rightarrow> None | Some x \<Rightarrow> map_option (\<lambda>xs. x # xs) (dec_all d z vs))"

definition dec_list :: "('a \<Rightarrow> json \<Rightarrow> 'a option) \<Rightarrow> 'a \<Rightarrow> 'a list \<Rightarrow> json \<Rightarrow> 'a list option" where
  "dec_list d z x v = (case v of JNull \<Rightarrow> Some [] | JArr vs \<Rightarrow> dec_all d z vs | _ \<Rightarrow> None)"

section \<open>The fuel of the decoder\<close>

lemma skip_ws_Cons: "skip_ws s = c # r \<Longrightarrow> Suc (length r) \<le> length s"
  using skip_ws_length[of s] by simp

lemma plit_shorter: "plit w v s = Some (x, r) \<Longrightarrow> length r \<le> length s"
  by (auto simp: plit_def split: if_splits)

lemma pnum_shorter: "pnum s = Some (x, r) \<Longrightarrow> length r < length s"
proof -
  assume "pnum s = Some (x, r)"
  then have ok: "json_num_ok (takeWhile num_char s)" and r: "r = dropWhile num_char s"
    by (auto simp: pnum_def Let_def split: if_splits)
  have "takeWhile num_char s \<noteq> []" using ok by (auto simp: json_num_ok_def trim_prefix_def)
  then show ?thesis unfolding r by (metis append_Nil2 length_append length_greater_0_conv less_add_same_cancel2 takeWhile_dropWhile_id)
qed

lemma pscalar_shorter: "pscalar c t = Some (v, r) \<Longrightarrow> length r \<le> length t"
  using pstr_shorter[of t] pnum_shorter[of "c # t"]
  by (fastforce simp: pscalar_def less_Suc_eq_le split: if_splits dest: plit_shorter)

lemma fuel_split: "a \<le> m \<Longrightarrow> Suc b \<le> a \<Longrightarrow> (\<And>k. m = Suc k \<Longrightarrow> b \<le> k \<Longrightarrow> P (Suc k)) \<Longrightarrow> P m"
  by (cases m) auto

lemma decoder_fuel:
  shows pval_fuel: "pval n s = Some (v, r) \<Longrightarrow>
      length r < length s \<and> (\<forall>m \<ge> 2 * length s. pval m s = Some (v, r))"
    and pelems_fuel: "pelems n s = Some (vs, r) \<Longrightarrow>
      length r < length s \<and> (\<forall>m \<ge> 2 * length s + 1. pelems m s = Some (vs, r))"
    and pmembers_fuel: "pmembers n s = Some (ms, r) \<Longrightarrow>
      length r < length s \<and> (\<forall>m \<ge> 2 * length s + 1. pmembers m s = Some (ms, r))"
proof (induction n s and n s and n s arbitrary: v r and vs r and ms r rule: pval_pelems_pmembers.induct)
  case (2 n s)
  obtain c t where s: "skip_ws s = c # t" using 2 by (cases "skip_ws s") auto
  have len: "Suc (length t) \<le> length s" by (rule skip_ws_Cons[OF s])
  have len2: "length (skip_ws t) \<le> length t" by (rule skip_ws_length)
  have fuel: "Suc (2 * length (skip_ws t) + 1) \<le> 2 * length s" using len len2 by simp
  consider (obj) "c = CHR ''{''" "\<not> prefix ''}'' (skip_ws t)"
    | (arr) "c \<noteq> CHR ''{''" "c = CHR ''[''" "\<not> prefix '']'' (skip_ws t)"
    | (other) "c = CHR ''{'' \<longrightarrow> prefix ''}'' (skip_ws t)" "c = CHR ''['' \<longrightarrow> prefix '']'' (skip_ws t)"
    by blast
  then show ?case
  proof cases
    case obj
    then obtain ms where ms: "pmembers n (skip_ws t) = Some (ms, r)" "v = JObj ms"
      using 2(3) s by (auto split: if_splits)
    have *: "length r < length (skip_ws t)" "\<forall>m \<ge> 2 * length (skip_ws t) + 1. pmembers m (skip_ws t) = Some (ms, r)"
      using 2(1)[OF s obj ms(1)] by auto
    have "pval m s = Some (v, r)" if "2 * length s \<le> m" for m
      by (rule fuel_split[OF that fuel]) (use obj s ms * in simp)
    then show ?thesis using * len len2 by auto
  next
    case arr
    then obtain vs where vs: "pelems n (skip_ws t) = Some (vs, r)" "v = JArr vs"
      using 2(3) s by (auto split: if_splits)
    have *: "length r < length (skip_ws t)" "\<forall>m \<ge> 2 * length (skip_ws t) + 1. pelems m (skip_ws t) = Some (vs, r)"
      using 2(2)[OF s arr vs(1)] by auto
    have "pval m s = Some (v, r)" if "2 * length s \<le> m" for m
      by (rule fuel_split[OF that fuel]) (use arr s vs * in simp)
    then show ?thesis using * len len2 by auto
  next
    case other
    have eq: "pval (Suc k) s = pval (Suc n) s" for k
      using other s by (cases "c = CHR ''{''"; cases "c = CHR ''[''") simp_all
    have "pval m s = Some (v, r)" if "2 * length s \<le> m" for m
      by (rule fuel_split[OF that fuel]) (rule trans[OF eq 2(3)])
    moreover have "length r \<le> length t"
    proof (cases "c = CHR ''{'' \<or> c = CHR ''[''")
      case True
      then have "r = tl (skip_ws t)" using other s 2(3) by (auto split: if_splits)
      then show ?thesis using len2 by simp
    next
      case False
      then have "pscalar c t = Some (v, r)" using s 2(3) by simp
      then show ?thesis by (rule pscalar_shorter)
    qed
    then have "length r < length s" using len by simp
    ultimately show ?thesis by auto
  qed
next
  case (4 n s)
  obtain v1 r1 where v: "pval n s = Some (v1, r1)" using 4(3) by (auto split: option.splits)
  obtain c t where c: "skip_ws r1 = c # t" using 4(3) v by (auto split: list.splits)
  have IH: "length r1 < length s" "\<forall>m \<ge> 2 * length s. pval m s = Some (v1, r1)" using 4(1)[OF v] by auto
  have len: "Suc (length t) \<le> length r1" by (rule skip_ws_Cons[OF c])
  have fuel: "Suc (2 * length s) \<le> 2 * length s + 1" by simp
  show ?case
  proof (cases "c = CHR '',''")
    case True
    then obtain vs1 where vs: "pelems n t = Some (vs1, r)" "vs = v1 # vs1"
      using 4(3) v c by auto
    have *: "length r < length t" "\<forall>m \<ge> 2 * length t + 1. pelems m t = Some (vs1, r)"
      using 4(2)[OF v _ c True vs(1)] by auto
    have "pelems m s = Some (vs, r)" if "2 * length s + 1 \<le> m" for m
      by (rule fuel_split[OF that fuel]) (use True c vs IH * len in simp)
    then show ?thesis using * len IH by auto
  next
    case False
    then have r: "r = t" "vs = [v1]" "c = CHR '']''" using 4(3) v c by (auto split: if_splits)
    have "pelems m s = Some (vs, r)" if "2 * length s + 1 \<le> m" for m
      by (rule fuel_split[OF that fuel]) (use c r IH in simp)
    then show ?thesis using len IH r by auto
  qed
next
  case (6 n s)
  obtain s1 where s1: "skip_ws s = CHR 0x22 # s1" using 6(3) by (auto split: list.splits if_splits)
  obtain k r0 where k: "pstr s1 = Some (k, r0)" using 6(3) s1 by (auto split: option.splits)
  obtain r1 where r1: "skip_ws r0 = CHR '':'' # r1" using 6(3) s1 k by (auto split: list.splits if_splits)
  obtain v1 r2 where v: "pval n r1 = Some (v1, r2)" using 6(3) s1 k r1 by (auto split: option.splits)
  obtain d t where d: "skip_ws r2 = d # t" using 6(3) s1 k r1 v by (auto split: list.splits)
  have IH: "length r2 < length r1" "\<forall>m \<ge> 2 * length r1. pval m r1 = Some (v1, r2)"
    using 6(1)[OF s1 _ k _ r1 _ v] by auto
  have len: "Suc (length s1) \<le> length s" "length r0 < length s1" "Suc (length r1) \<le> length r0" "Suc (length t) \<le> length r2"
    using skip_ws_Cons[OF s1] pstr_shorter[OF k] skip_ws_Cons[OF r1] skip_ws_Cons[OF d] by auto
  have fuel: "Suc (2 * length s) \<le> 2 * length s + 1" by simp
  show ?case
  proof (cases "d = CHR '',''")
    case True
    then obtain ms1 where ms: "pmembers n t = Some (ms1, r)" "ms = (k, v1) # ms1"
      using 6(3) s1 k r1 v d by auto
    have *: "length r < length t" "\<forall>m \<ge> 2 * length t + 1. pmembers m t = Some (ms1, r)"
      using 6(2)[OF s1 _ k _ r1 _ v _ d True ms(1)] by auto
    have "pmembers m s = Some (ms, r)" if "2 * length s + 1 \<le> m" for m
      by (rule fuel_split[OF that fuel]) (use True s1 k r1 d ms IH * len in simp)
    then show ?thesis using * len IH by auto
  next
    case False
    then have r: "r = t" "ms = [(k, v1)]" "d = CHR ''}''" using 6(3) s1 k r1 v d by (auto split: if_splits)
    have "pmembers m s = Some (ms, r)" if "2 * length s + 1 \<le> m" for m
      by (rule fuel_split[OF that fuel]) (use s1 k r1 d r IH len in simp)
    then show ?thesis using len IH r by auto
  qed
qed simp_all

section \<open>Reading back a printed document\<close>

lemma hex_digit_val_digit [simp]: "k < 16 \<Longrightarrow> hex_digit_val (hex_digit k) = k"
  by (auto simp: hex_digit_val_def hex_digit_def is_digit_def)

lemma is_hex_digit [simp]: "k < 16 \<Longrightarrow> is_hex (hex_digit k)"
  by (auto simp: is_hex_def hex_digit_def is_digit_def)

lemma hex4_00:
  assumes "a < 16" "b < 16"
  shows "hex4 (CHR ''0'' # CHR ''0'' # hex_digit a # hex_digit b # r) = Some (a * 16 + b)"
proof -
  have z: "is_hex CHR ''0''" "hex_digit_val CHR ''0'' = 0" by code_simp+
  show ?thesis using assms z by (simp add: hex4_def hex_val_def)
qed

lemma unescape_u_00:
  assumes "(of_char c :: nat) < 128"
  shows "unescape_u (CHR ''0'' # CHR ''0'' # hex_digit (of_char c div 16) # hex_digit (of_char c mod 16) # r) =
    Some ([c], r)"
proof -
  have "hex4 (CHR ''0'' # CHR ''0'' # hex_digit (of_char c div 16) # hex_digit (of_char c mod 16) # r) =
      Some (of_char c)"
    using assms by (subst hex4_00) simp_all
  moreover have "utf8 (of_char c) = [c]" using assms by (simp add: utf8_def)
  ultimately show ?thesis using assms by (simp add: unescape_u_def)
qed

lemma pstr_escape:
  "pstr (escape c @ t) = map_option (\<lambda>(w, r). (c # w, r)) (pstr t)"
proof -
  have u: "pstr ([CHR 0x5C, CHR ''u'', CHR ''0'', CHR ''0'', hex_digit (of_char c div 16), hex_digit (of_char c mod 16)] @ t)
      = map_option (\<lambda>(w, r). (c # w, r)) (pstr t)" if "(of_char c :: nat) < 128"
    by (simp add: unescape_u_00[OF that])
  have small: "(of_char c :: nat) < 128"
    if "(of_char c :: nat) < 32 \<or> c = CHR ''<'' \<or> c = CHR ''>'' \<or> c = CHR ''&''"
    using that by auto
  show ?thesis
    unfolding escape_def using u small by (auto simp: unescape_def)
qed

lemma line_sep_Some:
  assumes "line_sep s = Some d"
  shows "\<exists>t. s = CHR 0xE2 # CHR 0x80 # CHR 0xA8 # t \<and> d = CHR ''8'' \<or> s = CHR 0xE2 # CHR 0x80 # CHR 0xA9 # t \<and> d = CHR ''9''"
  using assms by (auto simp: line_sep_def prefix_def split: if_splits)

lemma unescape_u_sep:
  "unescape_u (CHR ''2'' # CHR ''0'' # CHR ''2'' # CHR ''8'' # t) = Some ([CHR 0xE2, CHR 0x80, CHR 0xA8], t)"
  "unescape_u (CHR ''2'' # CHR ''0'' # CHR ''2'' # CHR ''9'' # t) = Some ([CHR 0xE2, CHR 0x80, CHR 0xA9], t)"
proof -
  have "utf8 8232 = [CHR 0xE2, CHR 0x80, CHR 0xA8]" "utf8 8233 = [CHR 0xE2, CHR 0x80, CHR 0xA9]" by code_simp+
  moreover have "hex4 (CHR ''2'' # CHR ''0'' # CHR ''2'' # CHR ''8'' # t) = Some 8232"
    "hex4 (CHR ''2'' # CHR ''0'' # CHR ''2'' # CHR ''9'' # t) = Some 8233"
    by (simp_all add: hex4_def hex_val_def hex_digit_val_def is_hex_def is_digit_def)
  ultimately show "unescape_u (CHR ''2'' # CHR ''0'' # CHR ''2'' # CHR ''8'' # t) = Some ([CHR 0xE2, CHR 0x80, CHR 0xA8], t)"
    "unescape_u (CHR ''2'' # CHR ''0'' # CHR ''2'' # CHR ''9'' # t) = Some ([CHR 0xE2, CHR 0x80, CHR 0xA9], t)"
    by (simp_all add: unescape_u_def)
qed

lemma pstr_quote_body: "pstr (quote_body s @ CHR 0x22 # r) = Some (s, r)"
proof (induction s rule: quote_body.induct)
  case (2 c s)
  show ?case
  proof (cases "line_sep (c # s)")
    case None
    with 2 show ?thesis by (simp add: pstr_escape)
  next
    case (Some d)
    then obtain t where t: "c # s = CHR 0xE2 # CHR 0x80 # CHR 0xA8 # t \<and> d = CHR ''8'' \<or>
        c # s = CHR 0xE2 # CHR 0x80 # CHR 0xA9 # t \<and> d = CHR ''9''"
      using line_sep_Some by blast
    from 2 Some t show ?thesis
      by (auto simp: unescape_u_sep)
  qed
qed simp

lemma dropWhile_replicate_append: "P x \<Longrightarrow> dropWhile P (replicate n x @ s) = dropWhile P s"
  by (induction n) auto

lemma skip_ws_nl [simp]: "skip_ws (json_nl i @ s) = skip_ws s"
  by (cases i) (simp_all add: json_nl_def skip_ws_def json_ws_def dropWhile_replicate_append)

lemma pval_nl [simp]: "pval n (json_nl i @ s) = pval n s"
  by (cases n) simp_all

lemma skip_ws_id: "\<not> json_ws c \<Longrightarrow> skip_ws (c # s) = c # s"
  by (simp add: skip_ws_def)

fun json_wf :: "json \<Rightarrow> bool" where
  "json_wf (JNum w) = (json_num_ok w \<and> list_all num_char w)"
| "json_wf (JArr vs) = (\<forall>v \<in> set vs. json_wf v)"
| "json_wf (JObj ms) = (\<forall>m \<in> set ms. json_wf (snd m))"
| "json_wf v = True"

lemma num_ok_head:
  assumes "json_num_ok w"
  obtains c t where "w = c # t" "c = CHR ''-'' \<or> is_digit c"
proof (cases w)
  case (Cons c t)
  then show ?thesis
    using assms by (intro that[OF Cons]) (auto simp: json_num_ok_def trim_prefix_def Let_def split: if_splits)
qed (use assms in \<open>simp add: json_num_ok_def trim_prefix_def\<close>)

definition value_head :: "char \<Rightarrow> bool" where
  "value_head c \<longleftrightarrow> c \<notin> {CHR '']'', CHR ''}'', CHR '',''} \<and> \<not> json_ws c"

lemma digit_value_head: "is_digit c \<Longrightarrow> value_head c"
  by (auto simp: is_digit_def value_head_def json_ws_def)

lemma json_out_head:
  assumes "json_wf v"
  obtains c t where "json_out i v = c # t" "value_head c"
proof (cases v)
  case (JNum w)
  with assms have "json_num_ok w" by simp
  then obtain c t where "w = c # t" "c = CHR ''-'' \<or> is_digit c" by (rule num_ok_head)
  moreover have "value_head CHR ''-''" by (simp add: value_head_def json_ws_def)
  ultimately show ?thesis using JNum by (intro that[of c t]) (auto intro: digit_value_head)
next
  case (JBool b)
  moreover have "value_head CHR ''t''" "value_head CHR ''f''" by (simp_all add: value_head_def json_ws_def)
  ultimately show ?thesis using that[of "CHR ''t''"] that[of "CHR ''f''"] by (cases b) simp_all
next
  case JNull
  then show ?thesis using that[of "CHR ''n''"] by (simp add: value_head_def json_ws_def)
next
  case (JStr w)
  then show ?thesis using that[of "CHR 0x22"] by (simp add: value_head_def json_ws_def json_quote_def)
next
  case (JArr vs)
  then show ?thesis using that[of "CHR ''[''"] by (cases "vs = []") (simp_all add: value_head_def json_ws_def)
next
  case (JObj ms)
  then show ?thesis using that[of "CHR ''{''"] by (cases "ms = []") (simp_all add: value_head_def json_ws_def)
qed

lemma pval_num:
  assumes "json_num_ok w" "list_all num_char w" "r = [] \<or> \<not> num_char (hd r)"
  shows "pval (Suc n) (w @ r) = Some (JNum w, r)"
proof -
  obtain c t where w: "w = c # t" "c = CHR ''-'' \<or> is_digit c" using assms(1) by (rule num_ok_head)
  have c: "\<not> json_ws c" "c \<notin> {CHR ''{'', CHR ''['', CHR 0x22, CHR ''t'', CHR ''f'', CHR ''n''}"
    using w(2) by (auto simp: json_ws_def is_digit_def)
  have "takeWhile num_char (w @ r) = w" "dropWhile num_char (w @ r) = r"
    using assms(2,3) by (cases r; simp add: list_all_iff)+
  then have "pnum (w @ r) = Some (JNum w, r)" using assms(1) by (simp add: pnum_def)
  then show ?thesis using w c by (simp add: skip_ws_id pscalar_def)
qed

lemma pval_enough: "pval n s = Some x \<Longrightarrow> 2 * length s \<le> m \<Longrightarrow> pval m s = Some x"
  using pval_fuel[of n s "fst x" "snd x"] by simp

lemma pelems_enough: "pelems n s = Some x \<Longrightarrow> 2 * length s + 1 \<le> m \<Longrightarrow> pelems m s = Some x"
  using pelems_fuel[of n s "fst x" "snd x"] by simp

lemma pmembers_enough: "pmembers n s = Some x \<Longrightarrow> 2 * length s + 1 \<le> m \<Longrightarrow> pmembers m s = Some x"
  using pmembers_fuel[of n s "fst x" "snd x"] by simp

definition num_stop :: "string \<Rightarrow> bool" where
  "num_stop r \<longleftrightarrow> r = [] \<or> \<not> num_char (hd r)"

lemma num_stop_simps [simp]:
  "num_stop []" "num_stop (CHR '','' # r)" "num_stop (CHR '']'' # r)" "num_stop (CHR ''}'' # r)"
  "num_stop (json_nl i @ CHR '']'' # r)" "num_stop (json_nl i @ CHR ''}'' # r)"
  by (cases i; simp add: num_stop_def num_char_def is_digit_def json_nl_def)+

lemma value_headD: "value_head c \<Longrightarrow> \<not> json_ws c \<and> c \<noteq> CHR '']'' \<and> c \<noteq> CHR ''}''"
  by (auto simp: value_head_def)

lemma skip_ws_colon: "pval n (tl (json_colon i) @ s) = pval n s"
  by (cases n; cases i) (simp_all add: json_colon_def skip_ws_def json_ws_def)

lemma json_colon_Cons: "json_colon i = CHR '':'' # tl (json_colon i)"
  by (cases i) (simp_all add: json_colon_def)

lemma json_out_back:
  shows out_back: "json_wf v \<Longrightarrow> num_stop r \<Longrightarrow> \<exists>n. pval n (json_out i v @ r) = Some (v, r)"
    and out_elems_back: "vs \<noteq> [] \<Longrightarrow> \<forall>v \<in> set vs. json_wf v \<Longrightarrow>
      \<exists>n. pelems n (out_elems i vs @ json_nl j @ CHR '']'' # r) = Some (vs, r)"
    and out_members_back: "ms \<noteq> [] \<Longrightarrow> \<forall>m \<in> set ms. json_wf (snd m) \<Longrightarrow>
      \<exists>n. pmembers n (out_members i ms @ json_nl j @ CHR ''}'' # r) = Some (ms, r)"
proof (induction i v and i vs and i ms arbitrary: r and r j and r j rule: json_out_out_elems_out_members.induct)
  case (1 i)
  have "pval 1 (json_out i JNull @ r) = Some (JNull, r)"
    by (simp add: skip_ws_def json_ws_def pscalar_def plit_def)
  then show ?case ..
next
  case (2 i b)
  have "pval 1 (json_out i (JBool b) @ r) = Some (JBool b, r)"
    by (cases b) (simp_all add: skip_ws_def json_ws_def pscalar_def plit_def)
  then show ?case ..
next
  case (3 i w)
  then have "pval (Suc 0) (json_out i (JNum w) @ r) = Some (JNum w, r)"
    by (simp add: pval_num num_stop_def del: pval.simps)
  then show ?case ..
next
  case (4 i s)
  have "pval 1 (json_out i (JStr s) @ r) = Some (JStr s, r)"
    by (simp add: skip_ws_def json_ws_def pscalar_def json_quote_def pstr_quote_body)
  then show ?case ..
next
  case (5 i vs)
  show ?case
  proof (cases "vs = []")
    case True
    have "pval 1 (json_out i (JArr []) @ r) = Some (JArr [], r)"
      by (simp add: skip_ws_def json_ws_def)
    then show ?thesis using True by blast
  next
    case False
    define t where "t = out_elems (map_option Suc i) vs @ json_nl i @ CHR '']'' # r"
    obtain n where n: "pelems n t = Some (vs, r)"
      using 5(1)[OF False False, of i r] 5(2) by (auto simp: t_def)
    obtain v vs1 where vs: "vs = v # vs1" using False by (cases vs) auto
    obtain c u where c: "json_out (map_option Suc i) v = c # u" "value_head c"
      using 5(2) vs by (auto intro: json_out_head)
    have t: "skip_ws t = c # tl (skip_ws t)" "pelems n (skip_ws t) = pelems n t" "c \<noteq> CHR '']''"
    proof -
      have s: "skip_ws t = c # u @ (if vs1 = [] then [] else CHR '','' # out_elems (map_option Suc i) vs1)
          @ json_nl i @ CHR '']'' # r"
        using c value_headD[OF c(2)] by (simp add: t_def vs skip_ws_id)
      then show "skip_ws t = c # tl (skip_ws t)" by simp
      show "pelems n (skip_ws t) = pelems n t"
        unfolding s by (cases n) (use c in \<open>simp_all add: t_def vs\<close>)
      show "c \<noteq> CHR '']''" using value_headD[OF c(2)] by blast
    qed
    have "pval (Suc n) (json_out i (JArr vs) @ r) = Some (JArr vs, r)"
    proof -
      have tx: "json_out i (JArr vs) @ r = CHR ''['' # t" using False by (simp add: t_def)
      have "\<not> prefix '']'' (skip_ws t)" using t(1,3) by (metis Cons_prefix_Cons)
      then show ?thesis unfolding tx using t(2) n by (simp add: skip_ws_id json_ws_def)
    qed
    then show ?thesis ..
  qed
next
  case (6 i ms)
  show ?case
  proof (cases "ms = []")
    case True
    have "pval 1 (json_out i (JObj []) @ r) = Some (JObj [], r)"
      by (simp add: skip_ws_def json_ws_def)
    then show ?thesis using True by blast
  next
    case False
    define t where "t = out_members (map_option Suc i) ms @ json_nl i @ CHR ''}'' # r"
    obtain n where n: "pmembers n t = Some (ms, r)"
      using 6(1)[OF False False, of i r] 6(2) by (auto simp: t_def)
    obtain k v ms1 where ms: "ms = (k, v) # ms1" using False by (cases ms) auto
    have t: "\<not> prefix ''}'' (skip_ws t)" "pmembers n (skip_ws t) = pmembers n t"
    proof -
      have "\<exists>u. skip_ws t = CHR 0x22 # u"
        by (simp add: t_def ms json_quote_def skip_ws_id json_ws_def)
      then obtain u where s: "skip_ws t = CHR 0x22 # u" ..
      then show "\<not> prefix ''}'' (skip_ws t)" by simp
      have "skip_ws (skip_ws t) = skip_ws t" unfolding s by (simp add: skip_ws_id json_ws_def)
      then show "pmembers n (skip_ws t) = pmembers n t" by (cases n) simp_all
    qed
    have tx: "json_out i (JObj ms) @ r = CHR ''{'' # t" using False by (simp add: t_def)
    have "pval (Suc n) (json_out i (JObj ms) @ r) = Some (JObj ms, r)"
      unfolding tx using t n by (simp add: skip_ws_id json_ws_def)
    then show ?thesis ..
  qed
next
  case (8 i v vs)
  define t where "t = (if vs = [] then [] else CHR '','' # out_elems i vs) @ json_nl j @ CHR '']'' # r"
  have tx: "out_elems i (v # vs) @ json_nl j @ CHR '']'' # r = json_nl i @ json_out i v @ t"
    by (simp add: t_def)
  have "num_stop t" by (simp add: t_def)
  then obtain n1 where n1: "pval n1 (json_out i v @ t) = Some (v, t)"
    using 8(1)[of t] 8(4) by auto
  show ?case
  proof (cases "vs = []")
    case True
    have "pelems (Suc n1) (json_nl i @ json_out i v @ t) = Some ([v], r)"
      using n1 True by (simp add: t_def skip_ws_id json_ws_def)
    then show ?thesis unfolding tx using True by blast
  next
    case False
    define u where "u = out_elems i vs @ json_nl j @ CHR '']'' # r"
    obtain n2 where n2: "pelems n2 u = Some (vs, r)" using 8(2)[OF False False, of j r] 8(4) by (auto simp: u_def)
    define m where "m = 2 * length (json_out i v @ t) + 2 * length u + 1"
    have "pval m (json_out i v @ t) = Some (v, t)" by (rule pval_enough[OF n1]) (simp add: m_def)
    moreover have "pelems m u = Some (vs, r)" by (rule pelems_enough[OF n2]) (simp add: m_def)
    moreover have "skip_ws t = CHR '','' # u" using False by (simp add: t_def u_def skip_ws_id json_ws_def)
    ultimately have "pelems (Suc m) (json_nl i @ json_out i v @ t) = Some (v # vs, r)" by simp
    then show ?thesis unfolding tx by blast
  qed
next
  case (10 i k v ms)
  define t where "t = (if ms = [] then [] else CHR '','' # out_members i ms) @ json_nl j @ CHR ''}'' # r"
  define q where "q = tl (json_colon i) @ json_out i v @ t"
  have tx: "out_members i ((k, v) # ms) @ json_nl j @ CHR ''}'' # r =
      json_nl i @ CHR 0x22 # quote_body k @ CHR 0x22 # CHR '':'' # q"
    using json_colon_Cons[of i] by (simp add: t_def q_def json_quote_def)
  have key: "skip_ws (json_nl i @ CHR 0x22 # quote_body k @ CHR 0x22 # CHR '':'' # q) =
      CHR 0x22 # quote_body k @ CHR 0x22 # CHR '':'' # q"
    by (simp add: skip_ws_id json_ws_def)
  have colon: "skip_ws (CHR '':'' # q) = CHR '':'' # q" by (simp add: skip_ws_id json_ws_def)
  have "num_stop t" by (simp add: t_def)
  then obtain n1 where n1: "pval n1 q = Some (v, t)"
    using 10(1)[of t] 10(4) by (auto simp: q_def skip_ws_colon)
  show ?case
  proof (cases "ms = []")
    case True
    have "pmembers (Suc n1) (json_nl i @ CHR 0x22 # quote_body k @ CHR 0x22 # CHR '':'' # q) = Some ([(k, v)], r)"
      using n1 True key colon by (simp add: pstr_quote_body t_def skip_ws_id json_ws_def)
    then show ?thesis unfolding tx using True by blast
  next
    case False
    define u where "u = out_members i ms @ json_nl j @ CHR ''}'' # r"
    obtain n2 where n2: "pmembers n2 u = Some (ms, r)" using 10(2)[OF False False, of j r] 10(4) by (auto simp: u_def)
    define m where "m = 2 * length q + 2 * length u + 1"
    have "pval m q = Some (v, t)" by (rule pval_enough[OF n1]) (simp add: m_def)
    moreover have "pmembers m u = Some (ms, r)" by (rule pmembers_enough[OF n2]) (simp add: m_def)
    moreover have "skip_ws t = CHR '','' # u" using False by (simp add: t_def u_def skip_ws_id json_ws_def)
    ultimately have "pmembers (Suc m) (json_nl i @ CHR 0x22 # quote_body k @ CHR 0x22 # CHR '':'' # q) =
        Some ((k, v) # ms, r)"
      using key colon by (simp add: pstr_quote_body)
    then show ?thesis unfolding tx by blast
  qed
qed simp_all

lemma json_roundtrip: "json_wf v \<Longrightarrow> json_parse (json_out i v) = Some v"
proof -
  assume "json_wf v"
  then obtain n where "pval n (json_out i v @ []) = Some (v, [])"
    using out_back[of v "[]" i] by auto
  then have n: "pval n (json_out i v) = Some (v, [])" by (simp only: append_Nil2)
  have "pval (2 * length (json_out i v)) (json_out i v) = Some (v, [])"
    by (rule pval_enough[OF n order_refl])
  then show ?thesis by (simp add: json_parse_def skip_ws_def)
qed

lemma all_digits_dec [simp]: "all_digits (dec_digits n)"
  by (simp add: all_digits_def)

lemma dec_no_sign: "\<not> prefix ''-'' (dec_digits n)"
proof
  assume "prefix ''-'' (dec_digits n)"
  then have "CHR ''-'' \<in> set (dec_digits n)" by (auto simp: prefix_def)
  then have "is_digit CHR ''-''" by (rule is_digit_dec)
  then show False by (simp add: is_digit_def)
qed

lemma parse_int64_text [simp]:
  assumes "- (2 ^ 63) \<le> n" "n < 2 ^ 63"
  shows "parse_int64 (int64_text n) = Some n"
proof (cases "n < 0")
  case True
  then have t: "int64_text n = CHR ''-'' # dec_digits (nat (- n))" by (simp add: int64_text_def)
  have "- n \<le> 2 ^ 63" using assms(1) by simp
  then show ?thesis using True unfolding t parse_int64_def by (simp add: trim_prefix_def Let_def)
next
  case False
  then have t: "int64_text n = dec_digits (nat n)" by (simp add: int64_text_def)
  show ?thesis using False assms(2) unfolding t parse_int64_def by (simp add: trim_prefix_def Let_def dec_no_sign)
qed

section \<open>Truncated documents\<close>

lemma hex4_append: "hex4 s = Some u \<Longrightarrow> hex4 (s @ t) = Some u \<and> drop 4 (s @ t) = drop 4 s @ t"
proof -
  assume h: "hex4 s = Some u"
  then have "4 \<le> length s" by (auto simp: hex4_def Let_def split: if_splits)
  then show ?thesis using h by (simp add: hex4_def)
qed

lemma hex4_short: "hex4 s = None \<Longrightarrow> hex4 (s @ t) = Some u \<Longrightarrow> length s < 4"
  by (auto simp: hex4_def Let_def split: if_splits)

lemma unescape_u_append:
  assumes "unescape_u s = Some (b, r)" and "pstr r = Some x"
  shows "unescape_u (s @ t) = Some (b, r @ t)"
proof -
  obtain u where u: "hex4 s = Some u" using assms(1) by (auto simp: unescape_u_def split: option.splits)
  note ut = hex4_append[OF u, of t]
  have len: "4 \<le> length s" using u by (auto simp: hex4_def Let_def split: if_splits)
  define r0 where "r0 = drop 4 s"
  show ?thesis
  proof (cases "u < 55296 \<or> 57343 < u \<or> 56320 \<le> u")
    case True
    then show ?thesis using assms(1) u ut by (auto simp: unescape_u_def Let_def)
  next
    case high: False
    show ?thesis
    proof (cases "prefix [CHR 0x5C, CHR ''u''] r0")
      case False
      then have r: "r = r0" "b = utf8 65533" using assms(1) u high by (auto simp: unescape_u_def Let_def r0_def)
      have "\<not> prefix [CHR 0x5C, CHR ''u''] (r0 @ t)"
      proof
        assume p: "prefix [CHR 0x5C, CHR ''u''] (r0 @ t)"
        have "r0 = [] \<or> r0 = [CHR 0x5C]"
        proof (cases r0)
          case (Cons a l)
          then show ?thesis using p False by (cases l) auto
        qed simp
        then show False using assms(2) r by auto
      qed
      then show ?thesis using u ut high r by (simp add: unescape_u_def Let_def r0_def)
    next
      case True
      then obtain r1 where r1: "r0 = CHR 0x5C # CHR ''u'' # r1" by (auto simp: prefix_def)
      show ?thesis
      proof (cases "hex4 r1")
        case None
        then have r: "r = r0" "b = utf8 65533"
          using assms(1) u high r1 by (auto simp: unescape_u_def Let_def r0_def[symmetric])
        have "pstr r0 = None" using None r1 by (simp add: unescape_u_def)
        then show ?thesis using assms(2) r by simp
      next
        case (Some l)
        have "hex4 (r1 @ t) = Some l" "drop 4 (r1 @ t) = drop 4 r1 @ t" using hex4_append[OF Some] by auto
        then show ?thesis
          using assms(1) u ut high Some r1 by (auto simp: unescape_u_def Let_def r0_def[symmetric] split: if_splits)
      qed
    qed
  qed
qed

lemma pstr_append: "pstr s = Some (w, r) \<Longrightarrow> pstr (s @ t) = Some (w, r @ t)"
proof (induction s arbitrary: w r rule: pstr.induct)
  case (2 c s)
  consider (quote) "c = CHR 0x22" | (esc) "c = CHR 0x5C" | (ctl) "(of_char c :: nat) < 32" "c \<noteq> CHR 0x22" "c \<noteq> CHR 0x5C"
    | (plain) "c \<noteq> CHR 0x22" "c \<noteq> CHR 0x5C" "\<not> (of_char c :: nat) < 32" by blast
  then show ?case
  proof cases
    case esc
    then have nq: "c \<noteq> CHR 0x22" by simp
    obtain e s1 where s: "s = e # s1" using 2(4) esc by (cases s) auto
    show ?thesis
    proof (cases "e = CHR ''u''")
      case True
      obtain b s2 where u: "unescape_u s1 = Some (b, s2)" using 2(4) esc s True by (auto split: option.splits)
      obtain w1 where w1: "pstr s2 = Some (w1, r)" "w = b @ w1" using 2(4) esc s True u by auto
      have "pstr (s2 @ t) = Some (w1, r @ t)" by (rule 2(1)[OF nq esc s True u refl w1(1)])
      then show ?thesis using esc s True w1 unescape_u_append[OF u w1(1), of t] by simp
    next
      case False
      obtain d where d: "unescape e = Some d" using 2(4) esc s False by (auto split: option.splits)
      obtain w1 where w1: "pstr s1 = Some (w1, r)" "w = d # w1" using 2(4) esc s False d by auto
      have "pstr (s1 @ t) = Some (w1, r @ t)" by (rule 2(2)[OF nq esc s False d w1(1)])
      then show ?thesis using esc s False d w1 by simp
    qed
  next
    case plain
    obtain w1 where w1: "pstr s = Some (w1, r)" "w = c # w1" using 2(4) plain by auto
    have "pstr (s @ t) = Some (w1, r @ t)" by (rule 2(3)[OF plain w1(1)])
    then show ?thesis using plain w1 by simp
  qed (use 2(4) in simp_all)
qed simp

lemma skip_ws_append: "skip_ws s = c # r \<Longrightarrow> skip_ws (s @ t) = c # r @ t"
  by (induction s) (auto simp: skip_ws_def)

lemma skip_ws_Nil [simp]: "skip_ws [] = []"
  by (simp add: skip_ws_def)

lemma decoders_Nil [simp]: "pval n [] = None" "pelems n [] = None" "pmembers n [] = None"
proof -
  show v: "pval n [] = None" for n by (cases n) simp_all
  show "pelems n [] = None" "pmembers n [] = None" by (cases n; simp add: v)+
qed

text \<open>What has been read stays read when more text follows, unless it is a number at the end of the text.\<close>

lemma pnum_append: "pnum s = Some (v, r) \<Longrightarrow> r \<noteq> [] \<Longrightarrow> pnum (s @ t) = Some (v, r @ t)"
proof -
  assume p: "pnum s = Some (v, r)" and "r \<noteq> []"
  then have r: "r = dropWhile num_char s" by (auto simp: pnum_def Let_def split: if_splits)
  with \<open>r \<noteq> []\<close> have "\<not> (\<forall>x \<in> set s. num_char x)" by auto
  then have "takeWhile num_char (s @ t) = takeWhile num_char s" "dropWhile num_char (s @ t) = r @ t"
    unfolding r by (auto simp: dropWhile_append takeWhile_append)
  then show ?thesis using p by (auto simp: pnum_def Let_def split: if_splits)
qed

lemma pscalar_append:
  "pscalar c s = Some (v, r) \<Longrightarrow> r \<noteq> [] \<Longrightarrow> pscalar c (s @ t) = Some (v, r @ t)"
  using pnum_append[of "c # s" v r t]
  by (auto simp: pscalar_def plit_def dest: pstr_append split: if_splits)

lemma tl_append: "s \<noteq> [] \<Longrightarrow> tl (s @ t) = tl s @ t"
  by (cases s) auto

lemma decoder_append:
  shows pval_append: "pval n s = Some (v, r) \<Longrightarrow> r \<noteq> [] \<or> prefix ''{'' (skip_ws s) \<Longrightarrow> pval n (s @ t) = Some (v, r @ t)"
    and pelems_append: "pelems n s = Some (vs, r) \<Longrightarrow> pelems n (s @ t) = Some (vs, r @ t)"
    and pmembers_append: "pmembers n s = Some (ms, r) \<Longrightarrow> pmembers n (s @ t) = Some (ms, r @ t)"
proof (induction n s and n s and n s arbitrary: v r and vs r and ms r rule: pval_pelems_pmembers.induct)
  case (2 n s)
  obtain c u where s: "skip_ws s = c # u" using 2(3) by (cases "skip_ws s") auto
  have st: "skip_ws (s @ t) = c # u @ t" by (rule skip_ws_append[OF s])
  have close: "skip_ws (u @ t) = skip_ws u @ t" if "skip_ws u \<noteq> []"
    using that skip_ws_append[of u] by (cases "skip_ws u") auto
  consider (obj) "c = CHR ''{''" "\<not> prefix ''}'' (skip_ws u)" | (objnil) "c = CHR ''{''" "prefix ''}'' (skip_ws u)"
    | (arr) "c \<noteq> CHR ''{''" "c = CHR ''[''" "\<not> prefix '']'' (skip_ws u)"
    | (arrnil) "c \<noteq> CHR ''{''" "c = CHR ''[''" "prefix '']'' (skip_ws u)"
    | (scalar) "c \<noteq> CHR ''{''" "c \<noteq> CHR ''[''" by blast
  then show ?case
  proof cases
    case obj
    then obtain ms where ms: "pmembers n (skip_ws u) = Some (ms, r)" "v = JObj ms" using 2(3) s by auto
    have ne: "skip_ws u \<noteq> []" using ms(1) by auto
    then obtain d u1 where d: "skip_ws u = d # u1" by (cases "skip_ws u") auto
    have "pmembers n (skip_ws (u @ t)) = Some (ms, r @ t)"
      unfolding close[OF ne] by (rule 2(1)[OF s obj ms(1)])
    moreover have "\<not> prefix ''}'' (skip_ws (u @ t))" using obj unfolding close[OF ne] d by simp
    ultimately show ?thesis using obj(1) st ms(2) by simp
  next
    case objnil
    then have ne: "skip_ws u \<noteq> []" by auto
    have "prefix ''}'' (skip_ws (u @ t))" using objnil(2) unfolding close[OF ne] by simp
    then show ?thesis using objnil 2(3) s st ne by (simp add: close tl_append)
  next
    case arr
    then obtain vs where vs: "pelems n (skip_ws u) = Some (vs, r)" "v = JArr vs" using 2(3) s by auto
    have ne: "skip_ws u \<noteq> []" using vs(1) by auto
    then obtain d u1 where d: "skip_ws u = d # u1" by (cases "skip_ws u") auto
    have "pelems n (skip_ws (u @ t)) = Some (vs, r @ t)"
      unfolding close[OF ne] by (rule 2(2)[OF s arr vs(1)])
    moreover have "\<not> prefix '']'' (skip_ws (u @ t))" using arr unfolding close[OF ne] d by simp
    ultimately show ?thesis using arr(1,2) st vs(2) by simp
  next
    case arrnil
    then have ne: "skip_ws u \<noteq> []" by auto
    have "prefix '']'' (skip_ws (u @ t))" using arrnil(3) unfolding close[OF ne] by simp
    then show ?thesis using arrnil 2(3) s st ne by (simp add: close tl_append)
  next
    case scalar
    then have "pscalar c u = Some (v, r)" "r \<noteq> []" using 2(3,4) s by auto
    then have "pscalar c (u @ t) = Some (v, r @ t)" by (rule pscalar_append)
    then show ?thesis using scalar st by simp
  qed
next
  case (4 n s)
  obtain v1 r1 where v: "pval n s = Some (v1, r1)" using 4(3) by (auto split: option.splits)
  obtain c u where c: "skip_ws r1 = c # u" using 4(3) v by (auto split: list.splits)
  have "r1 \<noteq> []" using c by (auto simp: skip_ws_def)
  then have vt: "pval n (s @ t) = Some (v1, r1 @ t)" using 4(1)[OF v] by blast
  have ct: "skip_ws (r1 @ t) = c # u @ t" by (rule skip_ws_append[OF c])
  show ?case
  proof (cases "c = CHR '',''")
    case True
    then obtain vs1 where vs: "pelems n u = Some (vs1, r)" "vs = v1 # vs1" using 4(3) v c by auto
    have "pelems n (u @ t) = Some (vs1, r @ t)" by (rule 4(2)[OF v refl c True vs(1)])
    then show ?thesis using vt ct True vs by simp
  next
    case False
    then show ?thesis using 4(3) v c vt ct by (auto split: if_splits)
  qed
next
  case (6 n s)
  obtain s1 where s1: "skip_ws s = CHR 0x22 # s1" using 6(3) by (auto split: list.splits if_splits)
  obtain k r0 where k: "pstr s1 = Some (k, r0)" using 6(3) s1 by (auto split: option.splits)
  obtain r1 where r1: "skip_ws r0 = CHR '':'' # r1" using 6(3) s1 k by (auto split: list.splits if_splits)
  obtain v1 r2 where v: "pval n r1 = Some (v1, r2)" using 6(3) s1 k r1 by (auto split: option.splits)
  obtain d u where d: "skip_ws r2 = d # u" using 6(3) s1 k r1 v by (auto split: list.splits)
  have "r2 \<noteq> []" using d by (auto simp: skip_ws_def)
  then have vt: "pval n (r1 @ t) = Some (v1, r2 @ t)" using 6(1)[OF s1 _ k _ r1 _ v] by auto
  note ts = skip_ws_append[OF s1, of t] pstr_append[OF k, of t] skip_ws_append[OF r1, of t] skip_ws_append[OF d, of t]
  show ?case
  proof (cases "d = CHR '',''")
    case True
    then obtain ms1 where ms: "pmembers n u = Some (ms1, r)" "ms = (k, v1) # ms1" using 6(3) s1 k r1 v d by auto
    have "pmembers n (u @ t) = Some (ms1, r @ t)"
      using 6(2)[OF s1 _ k _ r1 _ v _ d True ms(1)] by auto
    then show ?thesis using vt ts True ms by simp
  next
    case False
    then show ?thesis using 6(3) s1 k r1 v d vt ts by (auto split: if_splits)
  qed
qed simp_all


text \<open>A proper prefix of a printed object is no document.\<close>

lemma json_truncated:
  assumes "json_wf (JObj ms)" and "ms \<noteq> []" and "n < length (json_out i (JObj ms))"
  shows "json_parse (take n (json_out i (JObj ms))) = None"
proof (rule ccontr)
  define s where "s = json_out i (JObj ms)"
  assume "json_parse (take n s) \<noteq> None"
  then obtain v r where v: "pval (2 * length (take n s)) (take n s) = Some (v, r)"
    by (auto simp: json_parse_def split: option.splits)
  have n: "n \<noteq> 0" using v by (cases n) auto
  have "prefix ''{'' (skip_ws (take n s))"
    using n assms(2) by (cases n) (simp_all add: s_def skip_ws_def json_ws_def)
  then have "pval (2 * length (take n s)) (take n s @ drop n s) = Some (v, r @ drop n s)"
    using pval_append[OF v] by blast
  then have "pval (2 * length (take n s)) s = Some (v, r @ drop n s)" by (simp only: append_take_drop_id)
  then have "pval (2 * length s) s = Some (v, r @ drop n s)" by (rule pval_enough[OF _ order_refl])
  moreover obtain k where "pval k (s @ []) = Some (JObj ms, [])"
    using out_back[OF assms(1), of "[]" i] by (auto simp: s_def)
  then have "pval (2 * length s) s = Some (JObj ms, [])"
    unfolding append_Nil2 by (rule pval_enough[OF _ order_refl])
  moreover have "n < length s" using assms(3) by (simp add: s_def)
  ultimately show False by simp
qed

section \<open>Printed integers are numbers\<close>

lemma dec_digits_head: "hd (dec_digits n) = CHR ''0'' \<Longrightarrow> dec_digits n = ''0''"
proof (induction n rule: dec_digits.induct)
  case (1 n)
  show ?case
  proof (cases "n < 10")
    case True
    then have "n \<in> set [0..<10]" by simp
    moreover have "\<forall>k \<in> set [0..<10]. hd (dec_digits k) = CHR ''0'' \<longrightarrow> dec_digits k = ''0''" by code_simp
    ultimately show ?thesis using 1(2) by blast
  next
    case False
    then have d: "dec_digits n = dec_digits (n div 10) @ [char_of (48 + n mod 10)]" by (rule dec_digits_step[OF leI])
    then have "dec_digits (n div 10) = ''0''" using 1 False by simp
    then have "digits_val (dec_digits (n div 10)) = 0" by (simp add: digits_val_def digit_val_def)
    then show ?thesis using False by simp
  qed
qed

lemma int64_text_wf: "json_wf (JNum (int64_text n))"
proof -
  have t: "trim_prefix (int64_text n) ''-'' = dec_digits (nat \<bar>n\<bar>)"
    using dec_no_sign[of "nat n"] by (auto simp: int64_text_def trim_prefix_def)
  have all: "list_all is_digit (dec_digits k)" for k by (rule list_all_digit_dec)
  then have tw: "takeWhile is_digit (dec_digits k) = dec_digits k" "dropWhile is_digit (dec_digits k) = []" for k
    by (simp_all add: list_all_iff)
  have "json_num_ok (int64_text n)"
    unfolding json_num_ok_def t tw Let_def using dec_digits_head[of "nat \<bar>n\<bar>"] by simp
  moreover have "list_all num_char (int64_text n)"
    using all by (auto simp: int64_text_def num_char_def list_all_iff)
  ultimately show ?thesis by simp
qed

lemma dec_digits_wf: "json_wf (JNum (dec_digits n))"
  using int64_text_wf[of "int n"] by (simp add: int64_text_def)

end
