(* ===== verification/GoPath.thy ===== *)
theory GoPath
  imports GoStrings
begin

text \<open>
  \<open>path/filepath\<close> on POSIX systems: \<open>Clean\<close>, \<open>Join\<close>, \<open>Dir\<close> and \<open>Base\<close> on byte strings.  The lemmas
  say what joining a directory with a plain file name gives, and that it is injective in the name.
\<close>

section \<open>Clean and Join\<close>

text \<open>One path component pushed on the reversed list of the components kept so far.\<close>

definition clean_step :: "bool \<Rightarrow> string list \<Rightarrow> string \<Rightarrow> string list" where
  "clean_step rooted st w =
     (if w = [] \<or> w = ''.'' then st
      else if w = ''..'' then
        (case st of
           [] \<Rightarrow> if rooted then [] else [w]
         | t # ts \<Rightarrow> if t = ''..'' then w # st else ts)
      else w # st)"

definition rooted :: "string \<Rightarrow> bool" where
  "rooted s \<longleftrightarrow> s \<noteq> [] \<and> hd s = CHR ''/''"

definition clean_parts :: "string \<Rightarrow> string list" where
  "clean_parts s = rev (foldl (clean_step (rooted s)) [] (go_split CHR ''/'' s))"

definition path_text :: "bool \<Rightarrow> string list \<Rightarrow> string" where
  "path_text r ps =
     (if r then CHR ''/'' # go_join ''/'' ps else if ps = [] then ''.'' else go_join ''/'' ps)"

definition path_clean :: "string \<Rightarrow> string" where
  "path_clean s = (if s = [] then ''.'' else path_text (rooted s) (clean_parts s))"

definition path_join :: "string list \<Rightarrow> string" where
  "path_join es =
     (let es' = dropWhile (\<lambda>e. e = []) es in
      if es' = [] then [] else path_clean (go_join ''/'' es'))"

text \<open>\<open>filepath.Base\<close> and \<open>filepath.Dir\<close>.\<close>

definition path_base :: "string \<Rightarrow> string" where
  "path_base s =
     (if s = [] then ''.''
      else let t = rev (dropWhile (\<lambda>c. c = CHR ''/'') (rev s)) in
        if t = [] then ''/'' else after_last CHR ''/'' t)"

definition path_dir :: "string \<Rightarrow> string" where
  "path_dir s = path_clean (rev (dropWhile (\<lambda>c. c \<noteq> CHR ''/'') (rev s)))"

section \<open>Plain names\<close>

definition plain_name :: "string \<Rightarrow> bool" where
  "plain_name n \<longleftrightarrow> n \<notin> {[], ''.'', ''..''} \<and> CHR ''/'' \<notin> set n"

lemma clean_step_plain: "plain_name n \<Longrightarrow> clean_step r st n = n # st"
  by (simp add: clean_step_def plain_name_def)

lemma go_split_append_sep: "go_split d (s @ d # t) = go_split d s @ go_split d t"
proof (induction s)
  case (Cons c s)
  then show ?case using go_split_not_Nil[of d s] by (cases "go_split d s") auto
qed simp

lemma rooted_append: "d \<noteq> [] \<Longrightarrow> rooted (d @ s) = rooted d"
  by (simp add: rooted_def)

lemma clean_parts_join:
  assumes "d \<noteq> []"
  shows "clean_parts (d @ CHR ''/'' # s) =
    rev (foldl (clean_step (rooted d)) (rev (clean_parts d)) (go_split CHR ''/'' s))"
  using assms by (simp add: clean_parts_def rooted_append go_split_append_sep)

lemma clean_parts_plain:
  assumes "d \<noteq> []" and "plain_name n"
  shows "clean_parts (d @ CHR ''/'' # n) = clean_parts d @ [n]"
proof -
  have "go_split CHR ''/'' n = [n]" using assms(2) by (simp add: go_split_single plain_name_def)
  then show ?thesis using assms by (simp add: clean_parts_join clean_step_plain)
qed

lemma path_join_plain:
  assumes "d \<noteq> []" and "plain_name n"
  shows "path_join [d, n] = path_text (rooted d) (clean_parts d @ [n])"
  using assms by (simp add: path_join_def path_clean_def clean_parts_plain rooted_append)

lemma path_join_plain2:
  assumes "d \<noteq> []" and "plain_name m" and "plain_name n"
  shows "path_join [d, m, n] = path_text (rooted d) (clean_parts d @ [m, n])"
proof -
  have "d @ CHR ''/'' # m @ CHR ''/'' # n = (d @ CHR ''/'' # m) @ CHR ''/'' # n" by simp
  then have "clean_parts (d @ CHR ''/'' # m @ CHR ''/'' # n) = clean_parts d @ [m, n]"
    using clean_parts_plain[of "d @ CHR ''/'' # m" n] clean_parts_plain[of d m] assms by simp
  then show ?thesis using assms by (simp add: path_join_def path_clean_def rooted_append)
qed

lemma clean_step_no_slash:
  "\<forall>w \<in> set st. CHR ''/'' \<notin> set w \<Longrightarrow> CHR ''/'' \<notin> set w \<Longrightarrow> \<forall>v \<in> set (clean_step r st w). CHR ''/'' \<notin> set v"
  by (auto simp: clean_step_def split: list.splits if_splits)

lemma clean_fold_no_slash:
  "\<forall>w \<in> set ws. CHR ''/'' \<notin> set w \<Longrightarrow> \<forall>w \<in> set st. CHR ''/'' \<notin> set w \<Longrightarrow>
   \<forall>v \<in> set (foldl (clean_step r) st ws). CHR ''/'' \<notin> set v"
proof (induction ws arbitrary: st)
  case (Cons w ws)
  have "\<forall>v \<in> set (clean_step r st w). CHR ''/'' \<notin> set v"
    using Cons.prems by (intro clean_step_no_slash) simp_all
  moreover have "\<forall>w \<in> set ws. CHR ''/'' \<notin> set w" using Cons.prems(1) by (blast intro: list.set_intros(2))
  ultimately show ?case unfolding foldl.simps by (rule Cons.IH[rotated])
qed simp

lemma clean_parts_no_slash: "w \<in> set (clean_parts s) \<Longrightarrow> CHR ''/'' \<notin> set w"
  using clean_fold_no_slash[of "go_split CHR ''/'' s" "[]" "rooted s"] go_split_no_sep[of _ "CHR ''/''" s]
  by (auto simp: clean_parts_def)

text \<open>A printed component list determines the components.\<close>

lemma path_text_inj:
  assumes "path_text r ps = path_text r qs" and "ps \<noteq> []" "qs \<noteq> []"
    and "\<forall>w \<in> set (ps @ qs). CHR ''/'' \<notin> set w"
  shows "ps = qs"
proof -
  have "go_join ''/'' ps = go_join ''/'' qs" using assms(1-3) by (simp add: path_text_def split: if_splits)
  then have "go_split CHR ''/'' (go_join ''/'' ps) = go_split CHR ''/'' (go_join ''/'' qs)" by simp
  then show ?thesis using assms by (subst (asm) (1 2) go_split_go_join) auto
qed

lemma path_join_inj:
  assumes "d \<noteq> []" and "plain_name m" "plain_name n" and "path_join [d, m] = path_join [d, n]"
  shows "m = n"
proof -
  have "path_text (rooted d) (clean_parts d @ [m]) = path_text (rooted d) (clean_parts d @ [n])"
    using assms by (simp add: path_join_plain)
  then have "clean_parts d @ [m] = clean_parts d @ [n]"
    by (rule path_text_inj) (use assms clean_parts_no_slash[of _ d] in \<open>auto simp: plain_name_def\<close>)
  then show ?thesis by simp
qed

lemma path_join_inj2:
  assumes "d \<noteq> []" and "plain_name a" "plain_name b" "plain_name m" "plain_name n"
    and "path_join [d, a, m] = path_join [d, b, n]"
  shows "a = b \<and> m = n"
proof -
  have "path_text (rooted d) (clean_parts d @ [a, m]) = path_text (rooted d) (clean_parts d @ [b, n])"
    using assms by (simp add: path_join_plain2)
  then have "clean_parts d @ [a, m] = clean_parts d @ [b, n]"
    by (rule path_text_inj) (use assms clean_parts_no_slash[of _ d] in \<open>auto simp: plain_name_def\<close>)
  then show ?thesis by simp
qed

section \<open>The last component\<close>

lemma path_base_plain: "plain_name n \<Longrightarrow> path_base n = n"
proof -
  assume n: "plain_name n"
  then have "dropWhile (\<lambda>c. c = CHR ''/'') (rev n) = rev n"
    by (cases "rev n") (auto simp: plain_name_def)
  then show "path_base n = n" using n by (simp add: path_base_def plain_name_def after_last_absent)
qed

lemma go_join_snoc: "go_join sep (ps @ [n]) = (if ps = [] then n else go_join sep ps @ sep @ n)"
proof (induction ps)
  case (Cons p ps)
  then show ?case by (cases ps) auto
qed simp

lemma path_text_last:
  assumes "plain_name n"
  shows "after_last CHR ''/'' (path_text r (ps @ [n])) = n"
proof -
  have "after_last CHR ''/'' (s @ CHR ''/'' # n) = n" for s
    using assms by (simp add: plain_name_def)
  from this[of "[]"] this[of "go_join ''/'' ps"] this[of "CHR ''/'' # go_join ''/'' ps"]
  show ?thesis using assms by (auto simp: path_text_def go_join_snoc plain_name_def)
qed

lemma path_join_last: "d \<noteq> [] \<Longrightarrow> plain_name n \<Longrightarrow> after_last CHR ''/'' (path_join [d, n]) = n"
  by (simp add: path_join_plain path_text_last)

lemma path_join_last2:
  "d \<noteq> [] \<Longrightarrow> plain_name m \<Longrightarrow> plain_name n \<Longrightarrow> after_last CHR ''/'' (path_join [d, m, n]) = n"
  using path_text_last[of n "rooted d" "clean_parts d @ [m]"] by (simp add: path_join_plain2)

end
