(* ===== verification/HostCache.thy ===== *)
theory HostCache
  imports Json GoPath Classifier
begin

text \<open>
  What the five online layers share: the normalisation of a host, the cache in front of a scan and the
  two stores behind the \<open>Cache\<close> interface, the process-local map (\<open>memCache\<close>) and the files of
  \<open>DiskCache\<close>.  Every package has its own copy of this code (\<open>contentscan/cache.go\<close>,
  \<open>tlscert/cache.go\<close>, \<open>ctlog/cache.go\<close>, \<open>wayback/cache.go\<close>, \<open>rdap/cache.go\<close>); the copies differ in the
  name of the host's field in the file only, here the parameter \<open>key\<close>.  SHA-256 is the parameter \<open>sha\<close>.
\<close>

section \<open>The world of a lookup\<close>

text \<open>
  What one \<open>os.WriteFile\<close> does on a path: it truncates the file and writes; a write that fails leaves the
  bytes written so far, an open that fails leaves the file as it was.
\<close>

datatype write_outcome = WriteOk | WriteStops nat | OpenFails

record 'n world =
  wd_mem :: "string \<Rightarrow> string option"
  wd_files :: "string \<Rightarrow> bytes option"
  wd_now :: int
  wd_zone :: int
  wd_write :: "string \<Rightarrow> write_outcome"
  wd_net :: 'n

definition write_file :: "string \<Rightarrow> bytes \<Rightarrow> 'n world \<Rightarrow> 'n world" where
  "write_file p data w =
     (case wd_write w p of
        WriteOk \<Rightarrow> w\<lparr>wd_files := (wd_files w)(p \<mapsto> data)\<rparr>
      | WriteStops n \<Rightarrow> w\<lparr>wd_files := (wd_files w)(p \<mapsto> take n data)\<rparr>
      | OpenFails \<Rightarrow> w)"

text \<open>\<open>time.Since\<close>: the difference of two instants saturates at the width of a duration.\<close>

definition sat64 :: "int \<Rightarrow> int" where
  "sat64 d = max (- (2 ^ 63)) (min (2 ^ 63 - 1) d)"

definition zero_time :: int where
  "zero_time = zero_date * day_ns"

section \<open>The Cache interface\<close>

record 'w host_cache =
  hc_Get :: "string \<Rightarrow> 'w \<Rightarrow> (string \<times> bool) \<times> 'w"
  hc_Put :: "string \<Rightarrow> string \<Rightarrow> 'w \<Rightarrow> 'w"

definition norm_host :: "string \<Rightarrow> string" where
  "norm_host host = trim_suffix (to_lower (trim_space host)) ''.''"

text \<open>
  \<open>Lookup\<close> of a client: an empty host answers nothing, a cached host answers from the cache, any other
  is scanned and the answer stored, the empty one (a miss) as well.
\<close>

definition cached_lookup :: "'w host_cache option \<Rightarrow> (string \<Rightarrow> 'w \<Rightarrow> string \<times> 'w) \<Rightarrow> 'w layer" where
  "cached_lookup cache scan host0 w =
     (let host = norm_host host0 in
      if host = [] then (([], False), w)
      else
        (case cache of
           None \<Rightarrow> (let (cc, w1) = scan host w in ((cc, cc \<noteq> []), w1))
         | Some c \<Rightarrow>
             (case hc_Get c host w of
                ((cc, ok), w1) \<Rightarrow>
                  if ok then ((cc, cc \<noteq> []), w1)
                  else (let (cc', w2) = scan host w1 in ((cc', cc' \<noteq> []), hc_Put c host cc' w2)))))"

text \<open>Every layer of this shape keeps the contract of the ladder.\<close>

interpretation cached: country_layer "cached_lookup cache scan"
  by unfold_locales
     (auto simp: cached_lookup_def Let_def split: if_splits option.splits prod.splits)

section \<open>The contract of a store\<close>

text \<open>
  \<open>ready h w\<close>: the store works for \<open>h\<close> in \<open>w\<close>; \<open>apart h h'\<close>: the two hosts have different entries.
\<close>

locale host_store =
  fixes get :: "string \<Rightarrow> 'w \<Rightarrow> (string \<times> bool) \<times> 'w"
    and put :: "string \<Rightarrow> string \<Rightarrow> 'w \<Rightarrow> 'w"
    and ready :: "string \<Rightarrow> 'w \<Rightarrow> bool"
    and apart :: "string \<Rightarrow> string \<Rightarrow> bool"
  assumes get_pure: "snd (get h w) = w"
    and get_put: "ready h w \<Longrightarrow> fst (get h (put h cc w)) = (cc, True)"
    and get_other: "apart h h' \<Longrightarrow> fst (get h' (put h cc w)) = fst (get h' w)"
begin

lemma get_hit: "fst (get h w) = (cc, ok) \<Longrightarrow> get h w = ((cc, ok), w)"
  using get_pure[of h w] by (metis prod.collapse)

lemma lookup_cases:
  assumes "norm_host host \<noteq> []"
  shows "cached_lookup (Some \<lparr>hc_Get = get, hc_Put = put\<rparr>) scan host w =
    (case fst (get (norm_host host) w) of
       (cc, True) \<Rightarrow> ((cc, cc \<noteq> []), w)
     | (_, False) \<Rightarrow>
         (case scan (norm_host host) w of
            (cc, w1) \<Rightarrow> ((cc, cc \<noteq> []), put (norm_host host) cc w1)))"
proof -
  obtain cc ok where g: "fst (get (norm_host host) w) = (cc, ok)" by fastforce
  show ?thesis
    using assms get_hit[OF g] by (cases ok) (simp_all add: cached_lookup_def split: prod.split)
qed

text \<open>The second lookup of a host repeats the first answer, whatever the scan would say now.\<close>

lemma lookup_again:
  assumes "cached_lookup (Some \<lparr>hc_Get = get, hc_Put = put\<rparr>) scan host w = (r, w')"
    and "norm_host host \<noteq> []"
    and "\<not> snd (fst (get (norm_host host) w)) \<Longrightarrow> ready (norm_host host) (snd (scan (norm_host host) w))"
  shows "cached_lookup (Some \<lparr>hc_Get = get, hc_Put = put\<rparr>) scan' host w' = (r, w')"
proof -
  obtain cc ok where g: "fst (get (norm_host host) w) = (cc, ok)" by fastforce
  show ?thesis
  proof (cases ok)
    case True
    then have "w' = w" "r = (cc, cc \<noteq> [])" using assms(1,2) g by (auto simp: lookup_cases)
    then show ?thesis using True assms(2) g by (simp add: lookup_cases)
  next
    case False
    obtain cc1 w1 where s: "scan (norm_host host) w = (cc1, w1)" by fastforce
    have r: "r = (cc1, cc1 \<noteq> [])" "w' = put (norm_host host) cc1 w1"
      using assms(1,2) g False s by (auto simp: lookup_cases)
    have "ready (norm_host host) w1" using assms(3) g False s by simp
    from get_put[OF this, of cc1] show ?thesis using assms(2) r by (simp add: lookup_cases)
  qed
qed

text \<open>A lookup leaves the entries of other hosts as its scan leaves them.\<close>

lemma lookup_other:
  assumes "cached_lookup (Some \<lparr>hc_Get = get, hc_Put = put\<rparr>) scan host w = (r, w')"
    and "apart (norm_host host) h" and "\<And>u. fst (get h (snd (scan (norm_host host) u))) = fst (get h u)"
  shows "fst (get h w') = fst (get h w)"
proof (cases "norm_host host = []")
  case True
  then show ?thesis using assms(1) by (simp add: cached_lookup_def)
next
  case False
  show ?thesis
    using assms(1) assms(3)[of w] get_other[OF assms(2)] False
    by (auto simp: lookup_cases split: prod.splits bool.splits)
qed

end

section \<open>memCache\<close>

definition mem_get :: "string \<Rightarrow> 'n world \<Rightarrow> (string \<times> bool) \<times> 'n world" where
  "mem_get host w = (case wd_mem w host of None \<Rightarrow> (([], False), w) | Some cc \<Rightarrow> ((cc, True), w))"

definition mem_put :: "string \<Rightarrow> string \<Rightarrow> 'n world \<Rightarrow> 'n world" where
  "mem_put host cc w = w\<lparr>wd_mem := (wd_mem w)(host \<mapsto> cc)\<rparr>"

definition mem_cache :: "'n world host_cache" where
  "mem_cache = \<lparr>hc_Get = mem_get, hc_Put = mem_put\<rparr>"

interpretation mem: host_store mem_get mem_put "\<lambda>_ _. True" "(\<noteq>)"
  by unfold_locales (auto simp: mem_get_def mem_put_def split: option.splits)

section \<open>DiskCache\<close>

record disk_cache =
  dc_dir :: string
  dc_ttl :: int

record disk_entry =
  de_Host :: string
  de_Country :: string
  de_FetchedAt :: int

definition hex_text :: "bytes \<Rightarrow> string" where
  "hex_text s = concat (map (\<lambda>c. [hex_digit (of_char c div 16), hex_digit (of_char c mod 16)]) s)"

definition disk_path :: "(bytes \<Rightarrow> bytes) \<Rightarrow> disk_cache \<Rightarrow> string \<Rightarrow> string" where
  "disk_path sha c host = path_join [dc_dir c, hex_text (sha host) @ ''.json'']"

definition entry_json :: "string \<Rightarrow> int \<Rightarrow> disk_entry \<Rightarrow> json" where
  "entry_json key off e =
     JObj [(key, JStr (de_Host e)), (''country'', JStr (de_Country e)),
           (''fetched_at'', JStr (fmt_time off (de_FetchedAt e)))]"

text \<open>\<open>json.Marshal\<close> refuses an instant outside the years 0 to 9999.\<close>

definition encode_entry :: "string \<Rightarrow> int \<Rightarrow> disk_entry \<Rightarrow> bytes option" where
  "encode_entry key off e =
     (if year_in_range off (de_FetchedAt e) then Some (json_out None (entry_json key off e)) else None)"

definition decode_entry :: "string \<Rightarrow> bytes \<Rightarrow> disk_entry option" where
  "decode_entry key data =
     Option.bind (json_parse data) (\<lambda>v.
     Option.bind (struct_members v) (\<lambda>ms.
     Option.bind (dec_field dec_string key [] ms) (\<lambda>h.
     Option.bind (dec_field dec_string ''country'' [] ms) (\<lambda>cc.
     Option.bind (dec_field dec_time ''fetched_at'' zero_time ms) (\<lambda>t.
       Some \<lparr>de_Host = h, de_Country = cc, de_FetchedAt = t\<rparr>)))))"

definition disk_get ::
  "(bytes \<Rightarrow> bytes) \<Rightarrow> string \<Rightarrow> disk_cache \<Rightarrow> string \<Rightarrow> 'n world \<Rightarrow> (string \<times> bool) \<times> 'n world" where
  "disk_get sha key c host w =
     (case wd_files w (disk_path sha c host) of
        None \<Rightarrow> (([], False), w)
      | Some data \<Rightarrow>
          (case decode_entry key data of
             None \<Rightarrow> (([], False), w)
           | Some e \<Rightarrow>
               if dc_ttl c < sat64 (wd_now w - de_FetchedAt e) then (([], False), w)
               else ((de_Country e, True), w)))"

definition disk_put ::
  "(bytes \<Rightarrow> bytes) \<Rightarrow> string \<Rightarrow> disk_cache \<Rightarrow> string \<Rightarrow> string \<Rightarrow> 'n world \<Rightarrow> 'n world" where
  "disk_put sha key c host cc w =
     (case encode_entry key (wd_zone w) \<lparr>de_Host = host, de_Country = cc, de_FetchedAt = wd_now w\<rparr> of
        None \<Rightarrow> w
      | Some data \<Rightarrow> write_file (disk_path sha c host) data w)"

definition disk_store :: "(bytes \<Rightarrow> bytes) \<Rightarrow> string \<Rightarrow> disk_cache \<Rightarrow> 'n world host_cache" where
  "disk_store sha key c = \<lparr>hc_Get = disk_get sha key c, hc_Put = disk_put sha key c\<rparr>"

text \<open>The two names of the host's field.\<close>

definition entry_key :: "string \<Rightarrow> bool" where
  "entry_key key \<longleftrightarrow> key = ''host'' \<or> key = ''domain''"

lemma fold_entry_names:
  "fold_name ''host'' = ''host''" "fold_name ''domain'' = ''domain''"
  "fold_name ''country'' = ''country''" "fold_name ''fetched_at'' = ''fetched_at''"
  by code_simp+

lemma decode_encode_entry:
  assumes "entry_key key" and "encode_entry key off e = Some data" and "\<bar>off\<bar> < 1440"
  shows "decode_entry key data = Some e"
proof -
  have y: "year_in_range off (de_FetchedAt e)" and d: "data = json_out None (entry_json key off e)"
    using assms(2) by (simp_all add: encode_entry_def split: if_splits)
  have "json_parse data = Some (entry_json key off e)"
    unfolding d by (rule json_roundtrip) (simp add: entry_json_def)
  then show ?thesis
    using assms(1) parse_fmt_time[OF y assms(3)]
    by (auto simp: decode_entry_def entry_json_def struct_members_def dec_string_def dec_time_def
        entry_key_def fold_entry_names)
qed

text \<open>The states in which an entry can be stored and found again.\<close>

definition disk_ready :: "(bytes \<Rightarrow> bytes) \<Rightarrow> string \<Rightarrow> disk_cache \<Rightarrow> string \<Rightarrow> 'n world \<Rightarrow> bool" where
  "disk_ready sha key c h w \<longleftrightarrow>
     entry_key key \<and> 0 \<le> dc_ttl c \<and> \<bar>wd_zone w\<bar> < 1440 \<and> year_in_range (wd_zone w) (wd_now w) \<and>
     wd_write w (disk_path sha c h) = WriteOk"

lemma write_file_other: "p \<noteq> q \<Longrightarrow> wd_files (write_file p data w) q = wd_files w q"
  by (simp add: write_file_def split: write_outcome.split)

lemma write_file_now [simp]: "wd_now (write_file p data w) = wd_now w"
  by (simp add: write_file_def split: write_outcome.split)

lemma disk_get_put:
  assumes "disk_ready sha key c h w"
  shows "fst (disk_get sha key c h (disk_put sha key c h cc w)) = (cc, True)"
proof -
  define e where "e = \<lparr>de_Host = h, de_Country = cc, de_FetchedAt = wd_now w\<rparr>"
  obtain data where d: "encode_entry key (wd_zone w) e = Some data"
    using assms by (simp add: disk_ready_def encode_entry_def e_def)
  have "decode_entry key data = Some e"
    using decode_encode_entry[OF _ d] assms by (simp add: disk_ready_def)
  then show ?thesis
    using assms d by (simp add: disk_get_def disk_put_def e_def[symmetric] write_file_def disk_ready_def
        sat64_def, simp add: e_def)
qed

interpretation disk: host_store "disk_get sha key c" "disk_put sha key c" "disk_ready sha key c"
  "\<lambda>h h'. disk_path sha c h \<noteq> disk_path sha c h'"
proof
  show "snd (disk_get sha key c h w) = w" for h and w :: "'a world"
    by (simp add: disk_get_def split: option.split)
  show "fst (disk_get sha key c h (disk_put sha key c h cc w)) = (cc, True)"
    if "disk_ready sha key c h w" for h cc and w :: "'a world"
    by (rule disk_get_put[OF that])
  show "fst (disk_get sha key c h' (disk_put sha key c h cc w)) = fst (disk_get sha key c h' w)"
    if "disk_path sha c h \<noteq> disk_path sha c h'" for h h' cc and w :: "'a world"
    using that by (simp add: disk_get_def disk_put_def write_file_other split: option.split)
qed

section \<open>Properties\<close>

lemma encode_ready:
  assumes "disk_ready sha key c h w"
  obtains data where "encode_entry key (wd_zone w) \<lparr>de_Host = h, de_Country = cc, de_FetchedAt = wd_now w\<rparr> = Some data"
    "disk_put sha key c h cc w = w\<lparr>wd_files := (wd_files w)(disk_path sha c h \<mapsto> data)\<rparr>"
    "decode_entry key data = Some \<lparr>de_Host = h, de_Country = cc, de_FetchedAt = wd_now w\<rparr>"
proof -
  obtain data where d: "encode_entry key (wd_zone w) \<lparr>de_Host = h, de_Country = cc, de_FetchedAt = wd_now w\<rparr> = Some data"
    using assms by (simp add: disk_ready_def encode_entry_def)
  moreover have "disk_put sha key c h cc w = w\<lparr>wd_files := (wd_files w)(disk_path sha c h \<mapsto> data)\<rparr>"
    using d assms by (simp add: disk_put_def write_file_def disk_ready_def)
  moreover have "decode_entry key data = Some \<lparr>de_Host = h, de_Country = cc, de_FetchedAt = wd_now w\<rparr>"
    using decode_encode_entry[OF _ d] assms by (simp add: disk_ready_def)
  ultimately show thesis by (rule that)
qed

text \<open>A store and a world for the witnesses: the hash is the identity, the clock stands in 2023.\<close>

definition sample_disk :: disk_cache where
  "sample_disk = \<lparr>dc_dir = ''/var/cache/tls'', dc_ttl = 3600 * second_ns\<rparr>"

definition sample_world :: "unit world" where
  "sample_world = \<lparr>wd_mem = Map.empty, wd_files = Map.empty, wd_now = 1700000000 * second_ns, wd_zone = 420,
     wd_write = (\<lambda>_. WriteOk), wd_net = ()\<rparr>"

definition torn_world :: "unit world" where
  "torn_world = sample_world\<lparr>wd_write := (\<lambda>_. WriteStops 30)\<rparr>"

lemma sample_ready: "disk_ready id ''host'' sample_disk h sample_world"
proof -
  have "year_in_range 420 (1700000000 * second_ns)" by code_simp
  then show ?thesis
    by (simp add: disk_ready_def sample_world_def sample_disk_def entry_key_def second_ns_def)
qed

text \<open>
  C36: An entry of the disk cache answers its country for exactly the configured time to live: \<open>d\<close>
  nanoseconds after the write, a country (or a cached miss, the empty country) is found as long as the
  age, saturated at the range of a duration, does not exceed the time to live, and is a miss afterwards.
\<close>

theorem disk_ttl_window:
  assumes "disk_ready sha key c h w"
  shows "fst (disk_get sha key c h ((disk_put sha key c h cc w)\<lparr>wd_now := wd_now w + d\<rparr>)) =
    (if sat64 d \<le> dc_ttl c then (cc, True) else ([], False))"
proof -
  obtain data where "disk_put sha key c h cc w = w\<lparr>wd_files := (wd_files w)(disk_path sha c h \<mapsto> data)\<rparr>"
    "decode_entry key data = Some \<lparr>de_Host = h, de_Country = cc, de_FetchedAt = wd_now w\<rparr>"
    using encode_ready[OF assms] by blast
  then show ?thesis by (simp add: disk_get_def)
qed

theorem disk_ttl_window_witness:
  "fst (disk_get id ''host'' sample_disk ''a.id''
     ((disk_put id ''host'' sample_disk ''a.id'' ''ID'' sample_world)
        \<lparr>wd_now := wd_now sample_world + 3600 * second_ns\<rparr>)) = (''ID'', True)"
  using disk_ttl_window[OF sample_ready, where cc = "''ID''" and d = "3600 * second_ns"]
  by (simp add: sample_disk_def sat64_def second_ns_def)

text \<open>
  The entries are written in place, not through a temporary file, so a crash or a full disk can leave
  a prefix of one.  Such a torn entry never answers a wrong country: whatever proper prefix of the entry
  the interrupted write leaves, the next read of the host is a miss.
\<close>

theorem torn_entry_is_miss:
  assumes "entry_key key"
    and "encode_entry key (wd_zone w) \<lparr>de_Host = h, de_Country = cc, de_FetchedAt = wd_now w\<rparr> = Some data"
    and "wd_write w (disk_path sha c h) = WriteStops n" and "n < length data"
  shows "fst (disk_get sha key c h (disk_put sha key c h cc w)) = ([], False)"
proof -
  let ?j = "entry_json key (wd_zone w) \<lparr>de_Host = h, de_Country = cc, de_FetchedAt = wd_now w\<rparr>"
  have d: "data = json_out None ?j" using assms(2) by (simp add: encode_entry_def split: if_splits)
  have "json_parse (take n data) = None"
    unfolding d entry_json_def
    by (rule json_truncated) (use assms(4) in \<open>simp_all add: d entry_json_def\<close>)
  then have "decode_entry key (take n data) = None" by (simp add: decode_entry_def)
  then show ?thesis using assms(2,3) by (simp add: disk_put_def disk_get_def write_file_def)
qed

theorem torn_entry_is_miss_witness:
  "fst (disk_get id ''host'' sample_disk ''a.id'' (disk_put id ''host'' sample_disk ''a.id'' ''ID'' torn_world)) =
    ([], False)"
proof -
  have y: "encode_entry ''host'' (wd_zone torn_world)
      \<lparr>de_Host = ''a.id'', de_Country = ''ID'', de_FetchedAt = wd_now torn_world\<rparr> =
      Some (json_out None (entry_json ''host'' 420
        \<lparr>de_Host = ''a.id'', de_Country = ''ID'', de_FetchedAt = 1700000000 * second_ns\<rparr>))"
    by code_simp
  show ?thesis
    by (rule torn_entry_is_miss[OF _ y, where n = 30])
       (simp add: entry_key_def, simp add: torn_world_def, code_simp)
qed

text \<open>
  Lookups are memoised: once a client with a disk cache has answered a host, a second lookup gives
  the same answer from the cache, whatever the network would answer now, and changes nothing.  This
  holds for the empty answer too, so a failed request (a timeout, a refused connection) is remembered as
  a miss for the whole time to live.
\<close>

theorem disk_lookup_memo:
  assumes "cached_lookup (Some (disk_store sha key c)) scan host w = (r, w')"
    and "norm_host host \<noteq> []" and "disk_ready sha key c (norm_host host) (snd (scan (norm_host host) w))"
  shows "cached_lookup (Some (disk_store sha key c)) scan' host w' = (r, w')"
  using disk.lookup_again[of sha key c scan host w r w' scan'] assms by (simp add: disk_store_def)

theorem disk_lookup_memo_witness:
  "\<exists>w'. cached_lookup (Some (disk_store id ''host'' sample_disk)) (\<lambda>_ w. ([], w)) '' Example.COM. '' sample_world =
      (([], False), w') \<and>
    cached_lookup (Some (disk_store id ''host'' sample_disk)) (\<lambda>_ w. (''ID'', w)) '' Example.COM. '' w' =
      (([], False), w')"
proof -
  have n: "norm_host '' Example.COM. '' = ''example.com''" by code_simp
  obtain w' where w': "cached_lookup (Some (disk_store id ''host'' sample_disk)) (\<lambda>_ w. ([], w)) '' Example.COM. ''
      sample_world = (([], False), w')"
  proof -
    have "wd_files sample_world = Map.empty" by (simp add: sample_world_def)
    then show thesis using that by (simp add: cached_lookup_def n disk_store_def disk_get_def)
  qed
  have "cached_lookup (Some (disk_store id ''host'' sample_disk)) (\<lambda>_ w. (''ID'', w)) '' Example.COM. '' w' =
      (([], False), w')"
    by (rule disk_lookup_memo[OF w']) (simp_all add: n sample_ready)
  with w' show ?thesis by blast
qed

end
