(* ===== verification/TlsCert.thy ===== *)
theory TlsCert
  imports Http HostCache
begin

text \<open>
  \<open>internal/tlscert\<close>: the country of a host's leaf certificate.  A certificate is the country list of its
  subject.  The dialers are parameters: the one a test injects and the one of \<open>crypto/tls\<close>; both take the
  address, the server name and the deadline to the peer's certificates or an error.
\<close>

record certificate =
  ce_Country :: "string list"

type_synonym 'w dialer = "string \<Rightarrow> string \<Rightarrow> int \<Rightarrow> 'w \<Rightarrow> certificate list option \<times> 'w"

record 'w tls_client =
  tc_Timeout :: int
  tc_Cache :: "'w host_cache option"
  tc_Dialer :: "'w dialer option"

definition tls_NewClient :: "'w tls_client" where
  "tls_NewClient = \<lparr>tc_Timeout = 3 * second_ns, tc_Cache = None, tc_Dialer = None\<rparr>"

fun first_alpha2 :: "string list \<Rightarrow> string" where
  "first_alpha2 [] = []"
| "first_alpha2 (c # cs) =
     (let u = to_upper (trim_space c) in if length u = 2 then u else first_alpha2 cs)"

definition leaf_country :: "certificate \<Rightarrow> string" where
  "leaf_country cert = first_alpha2 (ce_Country cert)"

definition tls_dial :: "'w dialer \<Rightarrow> 'w tls_client \<Rightarrow> string \<Rightarrow> 'w \<Rightarrow> string \<times> 'w" where
  "tls_dial net c host w =
     (let timeout = (if tc_Timeout c \<le> 0 then 3 * second_ns else tc_Timeout c);
          dialer = (case tc_Dialer c of None \<Rightarrow> net | Some d \<Rightarrow> d) in
      (case dialer (host @ '':443'') host timeout w of
         (None, w1) \<Rightarrow> ([], w1)
       | (Some [], w1) \<Rightarrow> ([], w1)
       | (Some (leaf # _), w1) \<Rightarrow> (leaf_country leaf, w1)))"

definition tls_lookup :: "'w dialer \<Rightarrow> 'w tls_client option \<Rightarrow> 'w layer" where
  "tls_lookup net c host w =
     (case c of None \<Rightarrow> (([], False), w) | Some c \<Rightarrow> cached_lookup (tc_Cache c) (tls_dial net c) host w)"

definition tls_disk :: "(bytes \<Rightarrow> bytes) \<Rightarrow> disk_cache \<Rightarrow> 'n world host_cache" where
  "tls_disk sha c = disk_store sha ''host'' c"

interpretation tls: country_layer "tls_lookup net c"
  by unfold_locales (auto simp: tls_lookup_def dest: cached.answers split: option.splits)

lemma first_alpha2_find:
  "first_alpha2 cs =
    (case find (\<lambda>c. length (trim_space c) = 2) cs of None \<Rightarrow> [] | Some c \<Rightarrow> to_upper (trim_space c))"
  by (induction cs) (simp_all add: Let_def)

text \<open>
  The certificate's country is the first entry of the subject that has two bytes after trimming, in
  upper case; entries of other lengths are skipped, and there is no country exactly when all are.  Two
  bytes is the whole test: the entry need not be letters.
\<close>

theorem leaf_country_first:
  "leaf_country cert =
     (case find (\<lambda>c. length (trim_space c) = 2) (ce_Country cert) of
        None \<Rightarrow> [] | Some c \<Rightarrow> to_upper (trim_space c)) \<and>
   leaf_country \<lparr>ce_Country = [''Indonesia'', '' 1? '', ''ID'']\<rparr> = ''1?''"
proof
  show "leaf_country \<lparr>ce_Country = [''Indonesia'', '' 1? '', ''ID'']\<rparr> = ''1?''" by code_simp
qed (simp add: leaf_country_def first_alpha2_find)

text \<open>
  A handshake that fails, or that shows no certificate, is a miss, and the deadline handed to the
  dialer is never zero: a client without a timeout gets three seconds.
\<close>

theorem tls_dial_deadline:
  "\<exists>t>0. (\<forall>dial. tls_dial net (c\<lparr>tc_Dialer := Some dial\<rparr>) host w =
     (case dial (host @ '':443'') host t w of
        (None, w1) \<Rightarrow> ([], w1)
      | (Some certs, w1) \<Rightarrow> ((case certs of [] \<Rightarrow> [] | leaf # _ \<Rightarrow> leaf_country leaf), w1)))"
proof -
  define t where "t = (if tc_Timeout c \<le> 0 then 3 * second_ns else tc_Timeout c)"
  have "0 < t" by (simp add: t_def second_ns_def)
  moreover have "tls_dial net (c\<lparr>tc_Dialer := Some dial\<rparr>) host w =
     (case dial (host @ '':443'') host t w of
        (None, w1) \<Rightarrow> ([], w1)
      | (Some certs, w1) \<Rightarrow> ((case certs of [] \<Rightarrow> [] | leaf # _ \<Rightarrow> leaf_country leaf), w1))" for dial
    by (cases "tc_Timeout c \<le> 0") (simp_all add: tls_dial_def t_def split: prod.split option.split list.split)
  ultimately show ?thesis by blast
qed

end
