(* ===== verification/CtLog.thy ===== *)
theory CtLog
  imports TlsCert
begin

text \<open>
  \<open>internal/ctlog\<close>: the country of the oldest certificates in the Certificate Transparency logs, through
  crt.sh.  \<open>crypto/x509\<close> and \<open>encoding/pem\<close> are the parameter \<open>cl_Cert\<close>: a PEM text to a certificate.
  \<open>cl_CtxErr\<close> tells whether the deadline of the lookup has passed.
\<close>

section \<open>itoa\<close>

text \<open>The digits of a positive number, the loop that fills the buffer from its end.\<close>

function itoa_loop :: "int \<Rightarrow> string \<Rightarrow> string" where
  "itoa_loop n buf = (if 0 < n then itoa_loop (n div 10) (char_of (nat (48 + n mod 10)) # buf) else buf)"
  by pat_completeness auto
termination by (relation "measure (\<lambda>(n, buf). nat n)") auto

declare itoa_loop.simps [simp del]

definition itoa :: "int \<Rightarrow> string" where
  "itoa n =
     (if n = 0 then ''0''
      else
        let m = (if n < 0 then wrap64 (- n) else n); digits = itoa_loop m [] in
        if n < 0 then CHR ''-'' # digits else digits)"

section \<open>The client\<close>

record 'w ct_client =
  cl_HTTP :: "'w http"
  cl_Cert :: "bytes \<Rightarrow> certificate option"
  cl_CtxErr :: "'w \<Rightarrow> bool"
  cl_Cache :: "'w host_cache option"
  cl_MaxCerts :: int
  cl_Timeout :: int
  cl_UserAgent :: string

definition ct_NewClient :: "'w http \<Rightarrow> (bytes \<Rightarrow> certificate option) \<Rightarrow> ('w \<Rightarrow> bool) \<Rightarrow> 'w ct_client" where
  "ct_NewClient http cert err =
     \<lparr>cl_HTTP = http, cl_Cert = cert, cl_CtxErr = err, cl_Cache = None, cl_MaxCerts = 10,
      cl_Timeout = 8 * second_ns,
      cl_UserAgent = ''regionchecker/0.2 (+https://github.com/binsarjr/regionchecker)''\<rparr>"

definition ct_get :: "'w ct_client \<Rightarrow> string \<Rightarrow> int \<Rightarrow> 'w \<Rightarrow> bytes \<times> 'w" where
  "ct_get c url limit w =
     (case cl_HTTP c
        \<lparr>rq_Method = ''GET'', rq_URL = url, rq_Header = header_if ''User-Agent'' (cl_UserAgent c),
         rq_Timeout = deadline (cl_Timeout c)\<rparr> w of
        (None, w1) \<Rightarrow> ([], w1)
      | (Some resp, w1) \<Rightarrow>
          (if rs_StatusCode resp \<noteq> 200 then []
           else (case read_limited limit resp of None \<Rightarrow> [] | Some data \<Rightarrow> data), w1))"

definition dec_crt_entry :: "int \<Rightarrow> json \<Rightarrow> int option" where
  "dec_crt_entry x v = Option.bind (struct_members v) (dec_field dec_int64 ''id'' x)"

definition crt_entries :: "bytes \<Rightarrow> int list option" where
  "crt_entries body = Option.bind (json_parse body) (dec_list dec_crt_entry 0 [])"

fun dedup_ids :: "int set \<Rightarrow> int list \<Rightarrow> int list" where
  "dedup_ids seen [] = []"
| "dedup_ids seen (i # js) =
     (if i = 0 \<or> i \<in> seen then dedup_ids seen js else i # dedup_ids (insert i seen) js)"

definition query_ids :: "'w ct_client \<Rightarrow> string \<Rightarrow> 'w \<Rightarrow> int list \<times> 'w" where
  "query_ids c host w =
     (case ct_get c (''https://crt.sh/?q='' @ host @ ''&output=json&exclude=expired'') (1024 * 1024) w of
        (body, w1) \<Rightarrow>
          (if body = [] then []
           else (case crt_entries body of None \<Rightarrow> [] | Some js \<Rightarrow> dedup_ids {} js), w1))"

definition fetch_subject_country :: "'w ct_client \<Rightarrow> int \<Rightarrow> 'w \<Rightarrow> string \<times> 'w" where
  "fetch_subject_country c i w =
     (case ct_get c (''https://crt.sh/?d='' @ itoa i) (64 * 1024) w of
        (body, w1) \<Rightarrow>
          (if body = [] then []
           else (case cl_Cert c body of None \<Rightarrow> [] | Some cert \<Rightarrow> first_alpha2 (ce_Country cert)), w1))"

fun ct_try :: "'w ct_client \<Rightarrow> int list \<Rightarrow> 'w \<Rightarrow> string \<times> 'w" where
  "ct_try c [] w = ([], w)"
| "ct_try c (i # js) w =
     (case fetch_subject_country c i w of
        (cc, w1) \<Rightarrow>
          if cc \<noteq> [] then (cc, w1) else if cl_CtxErr c w1 then ([], w1) else ct_try c js w1)"

definition ct_limit :: "'w ct_client \<Rightarrow> nat" where
  "ct_limit c = nat (if cl_MaxCerts c \<le> 0 then 10 else cl_MaxCerts c)"

definition ct_scan :: "'w ct_client \<Rightarrow> string \<Rightarrow> 'w \<Rightarrow> string \<times> 'w" where
  "ct_scan c host w =
     (case query_ids c host w of
        (ids, w1) \<Rightarrow>
          if ids = [] then ([], w1)
          else ct_try c (take (ct_limit c) (slice_sort (\<lambda>i. i) ids)) w1)"

definition ct_lookup :: "'w ct_client option \<Rightarrow> 'w layer" where
  "ct_lookup c host w =
     (case c of None \<Rightarrow> (([], False), w) | Some c \<Rightarrow> cached_lookup (cl_Cache c) (ct_scan c) host w)"

definition ct_disk :: "(bytes \<Rightarrow> bytes) \<Rightarrow> disk_cache \<Rightarrow> 'n world host_cache" where
  "ct_disk sha c = disk_store sha ''host'' c"

interpretation ct: country_layer "ct_lookup c"
  by unfold_locales (auto simp: ct_lookup_def dest: cached.answers split: option.splits)

section \<open>Lemmas\<close>

lemma itoa_loop_stop: "n \<le> 0 \<Longrightarrow> itoa_loop n buf = buf"
  by (subst itoa_loop.simps) simp

lemma itoa_loop_digits: "0 < n \<Longrightarrow> itoa_loop n buf = dec_digits (nat n) @ buf"
proof (induction n buf rule: itoa_loop.induct)
  case (1 n buf)
  show ?case
  proof (cases "n < 10")
    case True
    then have "nat (48 + n) = 48 + nat n" "n mod 10 = n" using 1(2) by (simp_all add: nat_add_distrib)
    then show ?thesis
      using 1(2) True by (simp add: itoa_loop.simps[of n] itoa_loop_stop dec_digits_small)
  next
    case False
    then have d: "0 < n div 10" by simp
    have c: "nat (48 + n mod 10) = 48 + nat n mod 10" and dv: "nat (n div 10) = nat n div 10"
      using 1(2) by (simp_all add: nat_add_distrib nat_mod_distrib nat_div_distrib)
    have "itoa_loop n buf = itoa_loop (n div 10) (char_of (48 + nat n mod 10) # buf)"
      using 1(2) by (simp only: itoa_loop.simps[of n] if_True c)
    also have "\<dots> = dec_digits (nat n div 10) @ char_of (48 + nat n mod 10) # buf"
      using 1(1)[OF 1(2) d] by (simp only: c dv)
    also have "\<dots> = dec_digits (nat n) @ buf" using False by (subst (2) dec_digits_step) simp_all
    finally show ?thesis .
  qed
qed

lemma dec_digits_length: "n < 10 ^ k \<Longrightarrow> 0 < k \<Longrightarrow> length (dec_digits n) \<le> k"
proof (induction k arbitrary: n)
  case (Suc k)
  show ?case
  proof (cases "n < 10")
    case False
    then have "k \<noteq> 0" using Suc.prems by (cases k) auto
    moreover have "n div 10 < 10 ^ k" using Suc.prems by (simp add: less_mult_imp_div_less mult.commute)
    ultimately show ?thesis using Suc.IH[of "n div 10"] False by (simp add: dec_digits_step)
  qed (simp add: dec_digits_small)
qed simp

lemma dedup_ids_spec:
  "distinct (dedup_ids seen js) \<and> set (dedup_ids seen js) = set js - seen - {0}"
  by (induction seen js rule: dedup_ids.induct) auto

section \<open>Properties\<close>

text \<open>
  \<open>itoa\<close> prints every 64-bit integer in decimal and never needs more than the 20 bytes of its buffer,
  with one exception: the most negative integer, whose negation wraps to itself, prints as a lone minus
  sign.
\<close>

theorem itoa_decimal:
  assumes "- (2 ^ 63) \<le> n" "n < 2 ^ 63"
  shows "itoa n = (if n = - (2 ^ 63) then ''-'' else int64_text n) \<and> length (itoa n) \<le> 20"
proof -
  have len: "length (dec_digits (nat m)) \<le> 19" if "m < 2 ^ 63" for m :: int
    using dec_digits_length[of "nat m" 19] that by simp
  consider "n = - (2 ^ 63)" | "n = 0" | "0 < n" | "n < 0" "n \<noteq> - (2 ^ 63)" by linarith
  then show ?thesis
  proof cases
    case 1
    then have "wrap64 (- n) = - (2 ^ 63)" by (simp add: wrap64_def)
    then have "itoa n = ''-''" using 1 by (simp add: itoa_def itoa_loop_stop Let_def)
    then show ?thesis using 1 by simp
  next
    case 2
    have "int64_text 0 = ''0''" by code_simp
    then show ?thesis using 2 by (simp add: itoa_def)
  next
    case 3
    then show ?thesis using len[OF assms(2)] by (simp add: itoa_def itoa_loop_digits int64_text_def Let_def)
  next
    case 4
    have m: "- n < 2 ^ 63" using 4 assms by linarith
    then have "wrap64 (- n) = - n" using 4 by (simp add: wrap64_def)
    then show ?thesis using 4 len[OF m] by (simp add: itoa_def itoa_loop_digits int64_text_def Let_def)
  qed
qed

theorem itoa_decimal_witness: "itoa (- 42) = ''-42'' \<and> itoa (- (2 ^ 63)) = ''-''"
proof -
  have "int64_text (- 42) = ''-42''" by code_simp
  then show ?thesis using itoa_decimal[of "- 42"] itoa_decimal[of "- (2 ^ 63)"] by simp
qed

text \<open>
  The certificates tried are the oldest ones: with a network whose answers do not depend on the
  moment and a deadline that does not pass, the scan answers the country of the first certificate that
  has one among the \<open>limit\<close> smallest distinct non-zero identifiers of the log's answer, in ascending
  order, and nothing when none of these has one.
\<close>

theorem ct_scan_oldest:
  assumes "query_ids c host w = (ids, w)"
    and "\<And>i. fetch_subject_country c i w = (f i, w)" and "\<not> cl_CtxErr c w"
  shows "ct_scan c host w =
    (case find (\<lambda>i. f i \<noteq> []) (take (ct_limit c) (sorted_list_of_set (set ids))) of
       None \<Rightarrow> [] | Some i \<Rightarrow> f i, w)"
proof -
  have tr: "ct_try c js w = (case find (\<lambda>i. f i \<noteq> []) js of None \<Rightarrow> [] | Some i \<Rightarrow> f i, w)" for js
    using assms(2,3) by (induction js) auto
  have "distinct ids"
    using assms(1) dedup_ids_spec[of "{}"]
    by (auto simp: query_ids_def split: prod.splits if_splits option.splits)
  then have "slice_sort (\<lambda>i. i) ids = sorted_list_of_set (set ids)"
    by (simp add: slice_sort_def sorted_list_of_set_sort_remdups distinct_remdups_id)
  then show ?thesis using assms(1) tr by (auto simp: ct_scan_def)
qed

text \<open>A log with three certificates, one of them listed twice; only the second oldest names a country.\<close>

definition sample_log :: "unit http" where
  "sample_log rq w =
     (Some \<lparr>rs_StatusCode = 200, rs_Header = (\<lambda>_. []),
        rs_Body = (if prefix ''https://crt.sh/?q='' (rq_URL rq)
                   then ''['' @ [CHR ''{'', CHR 0x22] @ ''id'' @ [CHR 0x22] @ '':9},'' @
                        [CHR ''{'', CHR 0x22] @ ''id'' @ [CHR 0x22] @ '':7},'' @
                        [CHR ''{'', CHR 0x22] @ ''id'' @ [CHR 0x22] @ '':9},'' @
                        [CHR ''{'', CHR 0x22] @ ''id'' @ [CHR 0x22] @ '':3}]''
                   else rq_URL rq),
        rs_BodyErr = False\<rparr>, w)"

definition sample_ct :: "unit ct_client" where
  "sample_ct = ct_NewClient sample_log
     (\<lambda>pem. Some \<lparr>ce_Country = (if suffix ''=3'' pem then [] else [''Japan'', ''jp''])\<rparr>) (\<lambda>_. False)"

theorem ct_scan_oldest_witness: "ct_scan sample_ct ''example.com'' () = (''JP'', ())"
proof -
  have q: "query_ids sample_ct ''example.com'' () = ([9, 7, 3], ())" by code_simp
  have f: "fetch_subject_country sample_ct i () = (fst (fetch_subject_country sample_ct i ()), ())" for i
    by (simp add: prod_eq_iff)
  have e: "\<not> cl_CtxErr sample_ct ()" by (simp add: sample_ct_def ct_NewClient_def)
  have l: "sorted_list_of_set (set [9, 7, 3]) = [3, 7, 9 :: int]" by code_simp
  have v: "fst (fetch_subject_country sample_ct 3 ()) = []" "fst (fetch_subject_country sample_ct 7 ()) = ''JP''"
    by code_simp+
  have "ct_limit sample_ct = 10" by (simp add: ct_limit_def sample_ct_def ct_NewClient_def)
  then show ?thesis unfolding ct_scan_oldest[OF q f e] l by (simp add: v)
qed

end
