(* ===== verification/ContentScan.thy ===== *)
theory ContentScan
  imports Regex Http HostCache
begin

text \<open>
  \<open>internal/contentscan\<close>: the page of a host is scored by one detector per country, the best score at or
  above a threshold decides.  \<open>helpers.go\<close> (counting), \<open>detectors.go\<close> (the six detectors), \<open>scan.go\<close>
  (the client).  The lookup and the cache are those of \<open>HostCache\<close>.
\<close>

section \<open>helpers.go\<close>

text \<open>
  \<open>len(re.FindAllString(body, -1))\<close>: the preferred match at the leftmost position, then on from its end.
  An empty match is taken unless the previous match ended there (\<open>adj\<close>).
\<close>

function count_all :: "re \<Rightarrow> bool \<Rightarrow> string \<Rightarrow> string \<Rightarrow> nat" where
  "count_all r adj b a =
     (case ends r (b, a) of
        [] \<Rightarrow> (case a of [] \<Rightarrow> 0 | c # a1 \<Rightarrow> count_all r False (c # b) a1)
      | q # _ \<Rightarrow>
          if length (snd q) < length a then Suc (count_all r True (fst q) (snd q))
          else (if adj then 0 else 1) + (case a of [] \<Rightarrow> 0 | c # a1 \<Rightarrow> count_all r False (c # b) a1))"
  by pat_completeness auto
termination by (relation "measure (\<lambda>(r, adj, b, a). length a)") auto

declare count_all.simps [simp del]

definition count_matches :: "re \<Rightarrow> string \<Rightarrow> int \<Rightarrow> int" where
  "count_matches r body cap =
     (let n = int (count_all r False [] body) in if cap \<le> 0 then n else min cap n)"

definition contains_any_fold :: "string \<Rightarrow> string list \<Rightarrow> bool" where
  "contains_any_fold body needles = (let lb = body_lower body in list_ex (\<lambda>n. contains lb (to_lower n)) needles)"

fun count_fold_loop :: "string \<Rightarrow> int \<Rightarrow> int \<Rightarrow> string list \<Rightarrow> int" where
  "count_fold_loop lb cap k [] = k"
| "count_fold_loop lb cap k (n # ns) =
     (if contains lb (to_lower n)
      then (if 0 < cap \<and> cap \<le> k + 1 then cap else count_fold_loop lb cap (k + 1) ns)
      else count_fold_loop lb cap k ns)"

definition count_any_fold :: "string \<Rightarrow> string list \<Rightarrow> int \<Rightarrow> int" where
  "count_any_fold body needles cap = count_fold_loop (body_lower body) cap 0 needles"

section \<open>detectors.go\<close>

fun seqs :: "re list \<Rightarrow> re" where
  "seqs [] = Eps"
| "seqs [r] = r"
| "seqs (r # s # rs) = Seq r (seqs (s # rs))"

definition ws :: re where "ws = Cls is_space_char"
definition digit :: re where "digit = Cls is_digit"

definition gap :: re where
  "gap = Opt (Cls (\<lambda>c. is_space_char c \<or> c = CHR ''-''))"

definition between :: "char \<Rightarrow> char \<Rightarrow> char \<Rightarrow> bool" where
  "between lo hi c \<longleftrightarrow> (of_char lo :: nat) \<le> of_char c \<and> (of_char c :: nat) \<le> of_char hi"

text \<open>\<open>(?i)\blang\s*=\s*["']?\<close> followed by a language tag and a word boundary.\<close>

definition lang_re :: "re \<Rightarrow> re" where
  "lang_re tag =
     seqs [WordB, ci_lit ''lang'', Star ws, Lit ''='', Star ws,
           Opt (Cls (\<lambda>c. c = CHR 0x22 \<or> c = CHR 0x27)), tag, WordB]"

text \<open>\<open>\b[a-z0-9-]+\.(?:...)\.cc\b\<close>\<close>

definition tld_re :: "string list \<Rightarrow> string \<Rightarrow> re" where
  "tld_re labels cc =
     seqs [WordB, Plus (Cls (\<lambda>c. is_lower c \<or> is_digit c \<or> c = CHR ''-'')), Lit ''.'',
           alts (map Lit labels), Lit cc, WordB]"

definition word_re :: "re \<Rightarrow> re" where
  "word_re r = seqs [WordB, r, WordB]"

record markers =
  mk_lang :: re
  mk_phone :: re
  mk_tld :: re
  mk_cities :: "string list"
  mk_legal :: re
  mk_money :: re
  mk_country :: re

record id_markers = markers +
  mk_bahasa :: re

record us_markers =
  us_lang :: re
  us_phone :: re
  us_tld :: re
  us_cities :: "string list"
  us_money :: re
  us_country :: re
  us_states :: "string list"

definition new_ID :: id_markers where
  "new_ID =
     \<lparr>mk_lang = lang_re (Seq (ci_lit ''id'') (Opt (ci_lit ''-ID''))),
      mk_phone = seqs [Lit ''+62'', gap, Lit ''8'', digit],
      mk_tld = tld_re [''co'', ''go'', ''or'', ''ac'', ''net'', ''web'', ''sch'', ''mil''] ''.id'',
      mk_cities = [''Jakarta'', ''Surabaya'', ''Bandung'', ''Yogyakarta'', ''Medan'', ''Semarang'', ''Denpasar'',
        ''Makassar'', ''Palembang'', ''Bekasi'', ''Tangerang''],
      mk_legal = seqs [WordB, Lit ''PT'', Opt (Lit ''.''), Plus ws, Cls is_upper,
        Cls (\<lambda>c. is_upper c \<or> is_lower c \<or> c = CHR ''&'')],
      mk_money = Seq WordB (Alt (seqs [ci_lit ''Rp'', Opt (Lit ''.''), Opt ws, digit]) (Seq (ci_lit ''IDR'') WordB)),
      mk_country = word_re (ci_lit ''Indonesia''),
      mk_bahasa = word_re (seqs [ci_lit ''bahasa'', Plus ws, ci_lit ''indonesia''])\<rparr>"

definition new_SG :: markers where
  "new_SG =
     \<lparr>mk_lang = lang_re (ci_lit ''en-SG''),
      mk_phone = seqs [Lit ''+65'', gap, Cls (between CHR ''6'' CHR ''9''), digit, digit, digit],
      mk_tld = tld_re [''com'', ''edu'', ''org'', ''net''] ''.sg'',
      mk_cities = [''Singapore'', ''Orchard Road'', ''Marina Bay'', ''Changi'', ''Jurong'', ''Bishan''],
      mk_legal = word_re (seqs [ci_lit ''Pte'', Opt (Lit ''.''), Plus ws, ci_lit ''Ltd'', Opt (Lit ''.'')]),
      mk_money = Seq WordB (Alt (Seq (ci_lit ''SGD'') WordB) (seqs [ci_lit ''S$'', Opt ws, digit])),
      mk_country = word_re (ci_lit ''Singapore'')\<rparr>"

definition new_MY :: markers where
  "new_MY =
     \<lparr>mk_lang = lang_re (Alt (ci_lit ''ms'') (ci_lit ''en-MY'')),
      mk_phone = seqs [Lit ''+60'', gap, Lit ''1'', digit],
      mk_tld = tld_re [''com'', ''edu'', ''org'', ''net'', ''gov''] ''.my'',
      mk_cities = [''Kuala Lumpur'', ''Penang'', ''Johor'', ''Selangor'', ''Sabah'', ''Sarawak'', ''Putrajaya'', ''Melaka''],
      mk_legal = word_re (seqs [ci_lit ''Sdn'', Opt (Lit ''.''), Plus ws, ci_lit ''Bhd'', Opt (Lit ''.'')]),
      mk_money = Seq WordB (Alt (Seq (ci_lit ''MYR'') WordB) (seqs [ci_lit ''RM'', Opt ws, digit])),
      mk_country = word_re (ci_lit ''Malaysia'')\<rparr>"

definition new_GB :: markers where
  "new_GB =
     \<lparr>mk_lang = lang_re (ci_lit ''en-GB''),
      mk_phone = seqs [Lit ''+44'', gap, Cls (\<lambda>c. c \<in> {CHR ''1'', CHR ''2'', CHR ''3'', CHR ''7'', CHR ''8''}), digit],
      mk_tld = tld_re [''co'', ''ac'', ''gov'', ''org'', ''me'', ''ltd'', ''plc''] ''.uk'',
      mk_cities = [''London'', ''Manchester'', ''Birmingham'', ''Edinburgh'', ''Glasgow'', ''Liverpool'', ''Bristol'',
        ''Leeds'', ''Cardiff'', ''Belfast''],
      mk_legal = word_re (alts [ci_lit ''Ltd.'', ci_lit ''Limited'', ci_lit ''PLC'']),
      mk_money = Seq WordB (Alt (Seq (ci_lit ''GBP'') WordB) (seqs [Lit [CHR 0xC2, CHR 0xA3], Opt ws, digit])),
      mk_country = word_re (Alt (seqs [ci_lit ''United'', Plus ws, ci_lit ''Kingdom''])
        (seqs [ci_lit ''Great'', Plus ws, ci_lit ''Britain'']))\<rparr>"

definition new_JP :: markers where
  "new_JP =
     \<lparr>mk_lang = lang_re (Seq (ci_lit ''ja'') (Opt (ci_lit ''-JP''))),
      mk_phone = seqs [Lit ''+81'', gap, Cls (between CHR ''3'' CHR ''9''), digit],
      mk_tld = tld_re [''co'', ''ne'', ''or'', ''ac'', ''go'', ''ad'', ''ed''] ''.jp'',
      mk_cities = [''Tokyo'', ''Osaka'', ''Kyoto'', ''Yokohama'', ''Nagoya'', ''Sapporo'', ''Fukuoka''],
      mk_legal = Alt
        (Lit [CHR 0xE6, CHR 0xA0, CHR 0xAA, CHR 0xE5, CHR 0xBC, CHR 0x8F, CHR 0xE4, CHR 0xBC, CHR 0x9A,
              CHR 0xE7, CHR 0xA4, CHR 0xBE])
        (Lit [CHR 0xE6, CHR 0x9C, CHR 0x89, CHR 0xE9, CHR 0x99, CHR 0x90, CHR 0xE4, CHR 0xBC, CHR 0x9A,
              CHR 0xE7, CHR 0xA4, CHR 0xBE]),
      mk_money = Seq WordB (Alt (Seq (ci_lit ''JPY'') WordB) (seqs [Lit [CHR 0xC2, CHR 0xA5], Opt ws, digit])),
      mk_country = word_re (ci_lit ''Japan'')\<rparr>"

definition new_US :: us_markers where
  "new_US =
     \<lparr>us_lang = lang_re (ci_lit ''en-US''),
      us_phone = seqs [Lit ''+1'', gap, Opt (Lit ''(''), Cls (between CHR ''2'' CHR ''9''), digit, digit, Opt (Lit '')''),
        gap, digit, digit, digit, gap, digit, digit, digit, digit],
      us_tld = seqs [Lit ''.'', Alt (Lit ''gov'') (Lit ''mil''), WordB],
      us_cities = [''New York'', ''Los Angeles'', ''Chicago'', ''Houston'', ''Phoenix'', ''San Francisco'', ''Seattle'',
        ''Boston'', ''Washington, DC''],
      us_money = word_re (ci_lit ''USD''),
      us_country = word_re (seqs [ci_lit ''United'', Plus ws, ci_lit ''States'', Plus ws, ci_lit ''of'', Plus ws, ci_lit ''America'']),
      us_states = ['', CA '', '', NY '', '', TX '', '', FL '', '', WA '', '', MA '']\<rparr>"

definition points :: "int \<Rightarrow> re \<Rightarrow> string \<Rightarrow> int" where
  "points n r b = (if match_string r b then n else 0)"

definition score_ID :: "string \<Rightarrow> int" where
  "score_ID b =
     (let d = new_ID in
      points 3 (mk_lang d) b + 3 * count_matches (mk_phone d) b 1 + 2 * count_matches (mk_tld d) b 2 +
      count_any_fold b (mk_cities d) 3 + points 2 (mk_legal d) b + points 2 (mk_money d) b +
      points 2 (mk_bahasa d) b + points 1 (mk_country d) b)"

text \<open>The score of the Singaporean and the Malaysian detector.\<close>

definition score_markers :: "markers \<Rightarrow> int \<Rightarrow> string \<Rightarrow> int" where
  "score_markers d legal b =
     points 3 (mk_lang d) b + 3 * count_matches (mk_phone d) b 1 + 2 * count_matches (mk_tld d) b 2 +
     count_any_fold b (mk_cities d) 3 + points legal (mk_legal d) b + points 2 (mk_money d) b +
     points 1 (mk_country d) b"

definition score_SG :: "string \<Rightarrow> int" where "score_SG b = score_markers new_SG 2 b"
definition score_MY :: "string \<Rightarrow> int" where "score_MY b = score_markers new_MY 2 b"
definition score_GB :: "string \<Rightarrow> int" where "score_GB b = score_markers new_GB 1 b"
definition score_JP :: "string \<Rightarrow> int" where "score_JP b = score_markers new_JP 3 b"

definition score_US :: "string \<Rightarrow> int" where
  "score_US b =
     (let d = new_US in
      points 2 (us_lang d) b + 2 * count_matches (us_phone d) b 1 + 3 * count_matches (us_tld d) b 1 +
      count_any_fold b (us_cities d) 2 + count_any_fold b (us_states d) 2 + points 1 (us_money d) b +
      points 1 (us_country d) b)"

section \<open>scan.go\<close>

record detector =
  dt_CC :: string
  dt_Score :: "string \<Rightarrow> int"

text \<open>The registry: \<open>init\<close> registers the six detectors in this order.\<close>

definition register_detector :: "detector \<Rightarrow> detector list \<Rightarrow> detector list" where
  "register_detector d ds = ds @ [d]"

definition init_detectors :: "detector list \<Rightarrow> detector list" where
  "init_detectors =
     register_detector \<lparr>dt_CC = ''US'', dt_Score = score_US\<rparr> \<circ>
     register_detector \<lparr>dt_CC = ''JP'', dt_Score = score_JP\<rparr> \<circ>
     register_detector \<lparr>dt_CC = ''GB'', dt_Score = score_GB\<rparr> \<circ>
     register_detector \<lparr>dt_CC = ''MY'', dt_Score = score_MY\<rparr> \<circ>
     register_detector \<lparr>dt_CC = ''SG'', dt_Score = score_SG\<rparr> \<circ>
     register_detector \<lparr>dt_CC = ''ID'', dt_Score = score_ID\<rparr>"

definition default_detectors :: "detector list" where
  "default_detectors = init_detectors []"

record 'w cs_client =
  cs_HTTP :: "'w http"
  cs_Detectors :: "detector list"
  cs_Cache :: "'w host_cache option"
  cs_Threshold :: int
  cs_UserAgent :: string
  cs_MaxBody :: int
  cs_Timeout :: int

definition cs_NewClient :: "'w http \<Rightarrow> 'w cs_client" where
  "cs_NewClient http =
     \<lparr>cs_HTTP = http, cs_Detectors = default_detectors, cs_Cache = None, cs_Threshold = 3,
      cs_UserAgent = ''Mozilla/5.0 (compatible; regionchecker/0.1; +https://github.com/binsarjr/regionchecker)'',
      cs_MaxBody = 512 * 1024, cs_Timeout = 4 * second_ns\<rparr>"

definition html_like :: "string \<Rightarrow> bool" where
  "html_like ct \<longleftrightarrow>
     ct = [] \<or> contains (body_lower ct) ''html'' \<or> contains (body_lower ct) ''xml'' \<or>
     contains (body_lower ct) ''text/plain''"

definition cs_fetch_body :: "'w cs_client \<Rightarrow> string \<Rightarrow> 'w \<Rightarrow> string \<times> 'w" where
  "cs_fetch_body c url w =
     (case cs_HTTP c
        \<lparr>rq_Method = ''GET'', rq_URL = url,
         rq_Header = header_if ''User-Agent'' (cs_UserAgent c) @
           [(''Accept'', ''text/html,application/xhtml+xml,application/xml;q=0.9,*/*;q=0.8''),
            (''Accept-Language'', ''en,id;q=0.9,*;q=0.5'')],
         rq_Timeout = deadline (cs_Timeout c)\<rparr> w of
        (None, w1) \<Rightarrow> ([], w1)
      | (Some resp, w1) \<Rightarrow>
          (if 400 \<le> rs_StatusCode resp then []
           else if \<not> html_like (rs_Header resp ''Content-Type'') then []
           else (case read_limited (if cs_MaxBody c \<le> 0 then 512 * 1024 else cs_MaxBody c) resp of
                   None \<Rightarrow> [] | Some data \<Rightarrow> data), w1))"

fun best_detector :: "detector list \<Rightarrow> string \<Rightarrow> string \<times> int \<Rightarrow> string \<times> int" where
  "best_detector [] body acc = acc"
| "best_detector (d # ds) body (best, s) =
     best_detector ds body (if s < dt_Score d body then (dt_CC d, dt_Score d body) else (best, s))"

definition winner :: "detector list \<Rightarrow> int \<Rightarrow> string \<Rightarrow> string" where
  "winner ds threshold body =
     (let (best, s) = best_detector ds body ([], 0) in if s < threshold then [] else best)"

definition cs_scan :: "'w cs_client \<Rightarrow> string \<Rightarrow> 'w \<Rightarrow> string \<times> 'w" where
  "cs_scan c host w =
     (case cs_fetch_body c (''https://'' @ host) w of
        (b1, w1) \<Rightarrow>
     (case (if b1 = [] then cs_fetch_body c (''http://'' @ host) w1 else (b1, w1)) of
        (body, w2) \<Rightarrow>
          (if body = [] then [] else winner (cs_Detectors c) (cs_Threshold c) body, w2)))"

definition cs_lookup :: "'w cs_client option \<Rightarrow> 'w layer" where
  "cs_lookup c host w =
     (case c of None \<Rightarrow> (([], False), w) | Some c \<Rightarrow> cached_lookup (cs_Cache c) (cs_scan c) host w)"

text \<open>
  \<open>Debug\<close>: the scores of all detectors as a map, and the best of them in the order \<open>ord\<close> in which Go
  happens to iterate over that map.
\<close>

definition debug_scores :: "detector list \<Rightarrow> string \<Rightarrow> string \<Rightarrow> int option" where
  "debug_scores ds body = foldl (\<lambda>m d. m(dt_CC d \<mapsto> dt_Score d body)) Map.empty ds"

fun debug_best :: "(string \<Rightarrow> int option) \<Rightarrow> string list \<Rightarrow> string \<times> int \<Rightarrow> string \<times> int" where
  "debug_best m [] acc = acc"
| "debug_best m (cc # ord) (best, s) =
     debug_best m ord (case m cc of None \<Rightarrow> (best, s) | Some v \<Rightarrow> if s < v then (cc, v) else (best, s))"

definition cs_debug ::
  "'w cs_client \<Rightarrow> string list \<Rightarrow> string \<Rightarrow> 'w \<Rightarrow> (string \<times> (string \<Rightarrow> int option)) \<times> 'w" where
  "cs_debug c ord host w =
     (case cs_fetch_body c (''https://'' @ host) w of
        (b1, w1) \<Rightarrow>
     (case (if b1 = [] then cs_fetch_body c (''http://'' @ host) w1 else (b1, w1)) of
        (body, w2) \<Rightarrow>
          (let m = debug_scores (cs_Detectors c) body; (best, s) = debug_best m ord ([], 0) in
           ((if s < cs_Threshold c then [] else best, m), w2))))"

interpretation cs: country_layer "cs_lookup c"
  by unfold_locales (auto simp: cs_lookup_def dest: cached.answers split: option.splits)

definition sample_page :: string where
  "sample_page = ''<i lang=id>Rp 1''"

section \<open>Counting\<close>

lemma count_all_match: "0 < count_all r False b a \<longleftrightarrow> search_from r b a"
proof (induction r "False" b a rule: count_all.induct)
  case (1 r b a)
  show ?case
  proof (cases "ends r (b, a)")
    case Nil
    then show ?thesis using 1 by (cases a) (simp_all add: count_all.simps[of r False])
  next
    case (Cons q qs)
    then show ?thesis by (cases a) (simp_all add: count_all.simps[of r False])
  qed
qed

lemma count_matches_bounds: "0 < cap \<Longrightarrow> 0 \<le> count_matches r b cap \<and> count_matches r b cap \<le> cap"
  by (simp add: count_matches_def)

lemma count_fold_loop_bounds:
  "0 < cap \<Longrightarrow> 0 \<le> k \<Longrightarrow> k \<le> cap \<Longrightarrow> 0 \<le> count_fold_loop lb cap k ns \<and> count_fold_loop lb cap k ns \<le> cap"
  by (induction ns arbitrary: k) auto

lemma count_any_fold_bounds: "0 < cap \<Longrightarrow> 0 \<le> count_any_fold b ns cap \<and> count_any_fold b ns cap \<le> cap"
  by (simp add: count_any_fold_def count_fold_loop_bounds)

lemma count_fold_loop_eq:
  "0 \<le> k \<Longrightarrow> k < cap \<Longrightarrow>
   count_fold_loop lb cap k ns = min cap (k + int (length (filter (\<lambda>n. contains lb (to_lower n)) ns)))"
proof (induction ns arbitrary: k)
  case (Cons n ns)
  show ?case using Cons.prems Cons.IH[of "k + 1"] Cons.IH[of k] by (auto simp: min_def)
qed simp

lemma points_bounds: "0 \<le> n \<Longrightarrow> 0 \<le> points n r b \<and> points n r b \<le> n"
  by (simp add: points_def)

lemma score_markers_bounds: "0 \<le> n \<Longrightarrow> 0 \<le> score_markers d n b \<and> score_markers d n b \<le> 16 + n"
  using count_matches_bounds[of 1 "mk_phone d" b] count_matches_bounds[of 2 "mk_tld d" b]
    count_any_fold_bounds[of 3 b "mk_cities d"] points_bounds[of 3 "mk_lang d" b] points_bounds[of n "mk_legal d" b]
    points_bounds[of 2 "mk_money d" b] points_bounds[of 1 "mk_country d" b]
  unfolding score_markers_def by linarith


lemma default_detectors_eq:
  "default_detectors =
    [\<lparr>dt_CC = ''ID'', dt_Score = score_ID\<rparr>, \<lparr>dt_CC = ''SG'', dt_Score = score_SG\<rparr>,
     \<lparr>dt_CC = ''MY'', dt_Score = score_MY\<rparr>, \<lparr>dt_CC = ''GB'', dt_Score = score_GB\<rparr>,
     \<lparr>dt_CC = ''JP'', dt_Score = score_JP\<rparr>, \<lparr>dt_CC = ''US'', dt_Score = score_US\<rparr>]"
  by (simp add: default_detectors_def init_detectors_def register_detector_def)

lemma score_ID_bounds: "0 \<le> score_ID b \<and> score_ID b \<le> 20"
  using count_matches_bounds[of 1 "mk_phone new_ID" b] count_matches_bounds[of 2 "mk_tld new_ID" b]
    count_any_fold_bounds[of 3 b "mk_cities new_ID"] points_bounds[of 3 "mk_lang new_ID" b]
    points_bounds[of 2 "mk_legal new_ID" b] points_bounds[of 2 "mk_money new_ID" b]
    points_bounds[of 2 "mk_bahasa new_ID" b] points_bounds[of 1 "mk_country new_ID" b]
  unfolding score_ID_def Let_def by linarith

lemma score_US_bounds: "0 \<le> score_US b \<and> score_US b \<le> 13"
  using count_matches_bounds[of 1 "us_phone new_US" b] count_matches_bounds[of 1 "us_tld new_US" b]
    count_any_fold_bounds[of 2 b "us_cities new_US"] count_any_fold_bounds[of 2 b "us_states new_US"]
    points_bounds[of 2 "us_lang new_US" b] points_bounds[of 1 "us_money new_US" b]
    points_bounds[of 1 "us_country new_US" b]
  unfolding score_US_def Let_def by linarith

section \<open>The best detector\<close>

lemma best_detector_spec:
  "best_detector ds body (b0, s0) = (b, s) \<Longrightarrow>
     s0 \<le> s \<and> (\<forall>d \<in> set ds. dt_Score d body \<le> s) \<and>
     ((b, s) = (b0, s0) \<or>
      (\<exists>i < length ds. b = dt_CC (ds ! i) \<and> s = dt_Score (ds ! i) body \<and> s0 < s \<and>
         (\<forall>j < i. dt_Score (ds ! j) body < s)))"
proof (induction ds arbitrary: b0 s0)
  case (Cons d ds)
  show ?case
  proof (cases "s0 < dt_Score d body")
    case True
    then have "best_detector ds body (dt_CC d, dt_Score d body) = (b, s)" using Cons.prems by simp
    from Cons.IH[OF this] True show ?thesis
    proof (elim conjE disjE)
      assume "(b, s) = (dt_CC d, dt_Score d body)" "\<forall>d \<in> set ds. dt_Score d body \<le> s"
      then show ?thesis using True by (intro conjI disjI2 exI[of _ 0]) auto
    next
      assume a: "dt_Score d body \<le> s" "\<forall>d \<in> set ds. dt_Score d body \<le> s"
        "\<exists>i < length ds. b = dt_CC (ds ! i) \<and> s = dt_Score (ds ! i) body \<and> dt_Score d body < s \<and>
          (\<forall>j < i. dt_Score (ds ! j) body < s)"
      then obtain i where i: "i < length ds" "b = dt_CC (ds ! i)" "s = dt_Score (ds ! i) body"
        "dt_Score d body < s" "\<forall>j < i. dt_Score (ds ! j) body < s" by blast
      then have "\<forall>j < Suc i. dt_Score ((d # ds) ! j) body < s" by (auto simp: less_Suc_eq_0_disj)
      then show ?thesis using True a i by (intro conjI disjI2 exI[of _ "Suc i"]) auto
    qed
  next
    case False
    then have "best_detector ds body (b0, s0) = (b, s)" using Cons.prems by simp
    from Cons.IH[OF this] False show ?thesis
    proof (elim conjE disjE)
      assume a: "s0 \<le> s" "\<forall>d \<in> set ds. dt_Score d body \<le> s"
        "\<exists>i < length ds. b = dt_CC (ds ! i) \<and> s = dt_Score (ds ! i) body \<and> s0 < s \<and>
          (\<forall>j < i. dt_Score (ds ! j) body < s)"
      then obtain i where i: "i < length ds" "b = dt_CC (ds ! i)" "s = dt_Score (ds ! i) body" "s0 < s"
        "\<forall>j < i. dt_Score (ds ! j) body < s" by blast
      then have "\<forall>j < Suc i. dt_Score ((d # ds) ! j) body < s" using False by (auto simp: less_Suc_eq_0_disj)
      then show ?thesis using False a i by (intro conjI disjI2 exI[of _ "Suc i"]) auto
    qed auto
  qed
qed simp

section \<open>Properties\<close>

text \<open>
  The verdict on a page is the country of the first detector with the highest score, and it is given
  exactly when that score reaches the (positive) threshold; a tie goes to the detector registered first.
\<close>

theorem winner_spec:
  assumes "0 < t"
  shows "winner ds t body = [] \<and> (\<forall>d \<in> set ds. dt_Score d body < t) \<or>
    (\<exists>i < length ds. winner ds t body = dt_CC (ds ! i) \<and> t \<le> dt_Score (ds ! i) body \<and>
       (\<forall>j < length ds. dt_Score (ds ! j) body \<le> dt_Score (ds ! i) body) \<and>
       (\<forall>j < i. dt_Score (ds ! j) body < dt_Score (ds ! i) body))"
proof -
  obtain b s where bs: "best_detector ds body ([], 0) = (b, s)" by fastforce
  note spec = best_detector_spec[OF bs]
  show ?thesis
  proof (cases "s < t")
    case True
    then have "\<forall>d \<in> set ds. dt_Score d body < t" using spec by fastforce
    then show ?thesis using True bs by (simp add: winner_def)
  next
    case False
    then have w: "winner ds t body = b" using bs by (simp add: winner_def)
    obtain i where "i < length ds" "b = dt_CC (ds ! i)" "s = dt_Score (ds ! i) body"
      "\<forall>j < i. dt_Score (ds ! j) body < s" using spec False assms by auto
    then show ?thesis using spec False w by (intro disjI2 exI[of _ i]) auto
  qed
qed

theorem winner_spec_witness:
  "winner default_detectors 3 sample_page = ''ID'' \<and>
   (winner default_detectors 3 sample_page = [] \<and> (\<forall>d \<in> set default_detectors. dt_Score d sample_page < 3) \<or>
    (\<exists>i < length default_detectors. winner default_detectors 3 sample_page = dt_CC (default_detectors ! i) \<and>
       3 \<le> dt_Score (default_detectors ! i) sample_page \<and>
       (\<forall>j < length default_detectors. dt_Score (default_detectors ! j) sample_page \<le> dt_Score (default_detectors ! i) sample_page) \<and>
       (\<forall>j < i. dt_Score (default_detectors ! j) sample_page < dt_Score (default_detectors ! i) sample_page)))"
proof
  show "winner default_detectors 3 sample_page = ''ID''" by code_simp
qed (rule winner_spec, simp)

text \<open>
  Every default detector scores every page between 0 and 20 points, whatever the page: the caps of
  the counters bound it, so a long page of repeated markers cannot push one country out of reach.
\<close>

theorem detector_scores_bounded: "\<forall>d \<in> set default_detectors. 0 \<le> dt_Score d body \<and> dt_Score d body \<le> 20"
proof -
  have "0 \<le> score_SG body \<and> score_SG body \<le> 18" "0 \<le> score_MY body \<and> score_MY body \<le> 18"
    "0 \<le> score_GB body \<and> score_GB body \<le> 17" "0 \<le> score_JP body \<and> score_JP body \<le> 19"
    using score_markers_bounds[of 2 new_SG body] score_markers_bounds[of 2 new_MY body]
      score_markers_bounds[of 1 new_GB body] score_markers_bounds[of 3 new_JP body]
    by (simp_all add: score_SG_def score_MY_def score_GB_def score_JP_def)
  then show ?thesis using score_ID_bounds[of body] score_US_bounds[of body] by (simp add: default_detectors_eq)
qed

theorem detector_scores_bounded_witness: "0 \<le> score_ID sample_page \<and> score_ID sample_page \<le> 20"
  using detector_scores_bounded[of sample_page] by (simp add: default_detectors_eq)

text \<open>
  The content scan of a default client answers one of the six registered countries or nothing, for
  every host, every network and every state of the world; the flag says which.
\<close>

theorem content_country_known:
  assumes "cs_lookup (Some (cs_NewClient http)) host w = ((cc, ok), w')"
  shows "ok = (cc \<noteq> []) \<and> cc \<in> {[], ''ID'', ''SG'', ''MY'', ''GB'', ''JP'', ''US''}"
proof -
  have win: "winner default_detectors 3 body \<in> {[], ''ID'', ''SG'', ''MY'', ''GB'', ''JP'', ''US''}" for body
  proof -
    consider "winner default_detectors 3 body = []"
      | i where "i < length default_detectors" "winner default_detectors 3 body = dt_CC (default_detectors ! i)"
      using winner_spec[of 3 default_detectors body] by auto
    then show ?thesis
    proof cases
      case 2
      then have "winner default_detectors 3 body \<in> dt_CC ` set default_detectors" by simp
      then show ?thesis by (auto simp: default_detectors_eq)
    qed simp
  qed
  show ?thesis
    using assms win
    by (auto simp: cs_lookup_def cached_lookup_def cs_NewClient_def cs_scan_def Let_def split: if_splits prod.splits)
qed


text \<open>A network that serves the sample page over plain HTTP only and counts the requests.\<close>

definition sample_http :: "nat http" where
  "sample_http rq n =
     (if prefix ''http://'' (rq_URL rq)
      then Some \<lparr>rs_StatusCode = 200, rs_Header = (\<lambda>_. ''text/html; charset=utf-8''), rs_Body = sample_page,
                  rs_BodyErr = False\<rparr>
      else None, n + 1)"

theorem content_country_known_witness:
  "cs_lookup (Some (cs_NewClient sample_http)) ''Toko.Example.'' 0 = ((''ID'', True), 2) \<and>
   True = (''ID'' \<noteq> []) \<and> ''ID'' \<in> {[], ''ID'', ''SG'', ''MY'', ''GB'', ''JP'', ''US''}"
proof -
  have r: "cs_lookup (Some (cs_NewClient sample_http)) ''Toko.Example.'' 0 = ((''ID'', True), 2)" by code_simp
  from content_country_known[OF r] r show ?thesis by blast
qed

lemma money_cases:
  assumes "match_string (Seq WordB (Alt (Seq code WordB) (seqs [Lit (CHR 0xC2 # s), Opt ws, digit]))) b"
  shows "(\<exists>u v q. b = u @ v \<and> matches code (rev u, v) q) \<or>
    (\<exists>u c v. b = u @ c # CHR 0xC2 # s @ v \<and> is_word_char c)"
proof -
  obtain u v q where b: "b = u @ v"
    and m0: "matches (Seq WordB (Alt (Seq code WordB) (seqs [Lit (CHR 0xC2 # s), Opt ws, digit]))) (rev u, v) q"
    using assms unfolding match_string_iff by blast
  have at: "at_word_boundary (rev u, v)" using m0 by auto
  have m: "matches (Seq code WordB) (rev u, v) q \<or> matches (seqs [Lit (CHR 0xC2 # s), Opt ws, digit]) (rev u, v) q"
    using m0 by (auto simp del: seqs.simps matches_simps(4) simp: matches_simps(4)[of WordB])
  from m show ?thesis
  proof
    assume "matches (Seq code WordB) (rev u, v) q"
    then have "\<exists>q. matches code (rev u, v) q" by (auto simp del: split_paired_Ex split_paired_All)
    with b show ?thesis by blast
  next
    assume "matches (seqs [Lit (CHR 0xC2 # s), Opt ws, digit]) (rev u, v) q"
    then obtain v' where v: "v = CHR 0xC2 # s @ v'" by auto
    have "\<not> is_word_char CHR 0xC2" by code_simp
    then obtain c u' where "rev u = c # u'" "is_word_char c"
      using at v by (cases "rev u") (auto simp: at_word_boundary_def)
    then have "b = rev u' @ c # CHR 0xC2 # s @ v'" using b v by (metis append.assoc append_Cons append_Nil rev.simps(2) rev_rev_ident)
    with \<open>is_word_char c\<close> show ?thesis by blast
  qed
qed

text \<open>
  The price markers of the British and the Japanese detector want a word boundary in front of the
  currency sign, which is no word character: besides the letter code, only a sign glued to a preceding
  letter, digit or underscore is counted, never a price at the start of a page or after a blank.
\<close>

theorem price_sign_needs_word:
  "(match_string (mk_money new_GB) b \<longrightarrow>
      (\<exists>u v q. b = u @ v \<and> matches (ci_lit ''GBP'') (rev u, v) q) \<or>
      (\<exists>u c v. b = u @ c # CHR 0xC2 # CHR 0xA3 # v \<and> is_word_char c)) \<and>
   (match_string (mk_money new_JP) b \<longrightarrow>
      (\<exists>u v q. b = u @ v \<and> matches (ci_lit ''JPY'') (rev u, v) q) \<or>
      (\<exists>u c v. b = u @ c # CHR 0xC2 # CHR 0xA5 # v \<and> is_word_char c))"
  using money_cases[of "ci_lit ''GBP''" "[CHR 0xA3]" b] money_cases[of "ci_lit ''JPY''" "[CHR 0xA5]" b]
  by (simp add: new_GB_def new_JP_def del: split_paired_Ex split_paired_All seqs.simps)

theorem price_sign_needs_word_witness:
  "match_string (mk_money new_GB) (CHR ''x'' # CHR 0xC2 # CHR 0xA3 # ''25'') \<and>
   \<not> match_string (mk_money new_GB) (CHR '' '' # CHR 0xC2 # CHR 0xA3 # ''25'') \<and>
   ((\<exists>u v q. CHR ''x'' # CHR 0xC2 # CHR 0xA3 # ''25'' = u @ v \<and> matches (ci_lit ''GBP'') (rev u, v) q) \<or>
    (\<exists>u c v. CHR ''x'' # CHR 0xC2 # CHR 0xA3 # ''25'' = u @ c # CHR 0xC2 # CHR 0xA3 # v \<and> is_word_char c))"
proof -
  have "match_string (mk_money new_GB) (CHR ''x'' # CHR 0xC2 # CHR 0xA3 # ''25'')"
    "\<not> match_string (mk_money new_GB) (CHR '' '' # CHR 0xC2 # CHR 0xA3 # ''25'')" by code_simp+
  then show ?thesis using price_sign_needs_word by blast
qed

end
