(* ===== verification/Wayback.thy ===== *)
theory Wayback
  imports ContentScan
begin

text \<open>
  \<open>internal/wayback\<close>: the nearest archived page of a host, scored by the content detectors.
\<close>

section \<open>rawSnapshotURL\<close>

fun index_of :: "string \<Rightarrow> string \<Rightarrow> nat option" where
  "index_of sub [] = (if sub = [] then Some 0 else None)"
| "index_of sub (c # s) = (if prefix sub (c # s) then Some 0 else map_option Suc (index_of sub s))"

definition raw_snapshot_url :: "string \<Rightarrow> string" where
  "raw_snapshot_url u =
     (case index_of ''/web/'' u of
        None \<Rightarrow> u
      | Some i \<Rightarrow>
          let tail = drop (i + 5) u in
          (case index_of ''/'' tail of
             None \<Rightarrow> u
           | Some j \<Rightarrow>
               let ts = take j tail; rest = drop j tail in
               if suffix ''id_'' ts then u else take (i + 5) u @ ts @ ''id_'' @ rest))"

section \<open>The client\<close>

record 'w wb_client =
  wb_HTTP :: "'w http"
  wb_Detectors :: "detector list"
  wb_Cache :: "'w host_cache option"
  wb_Threshold :: int
  wb_Timeout :: int
  wb_UserAgent :: string
  wb_MaxBody :: int

definition wb_NewClient :: "'w http \<Rightarrow> 'w wb_client" where
  "wb_NewClient http =
     \<lparr>wb_HTTP = http, wb_Detectors = default_detectors, wb_Cache = None, wb_Threshold = 3,
      wb_Timeout = 8 * second_ns,
      wb_UserAgent = ''regionchecker/0.2 (+https://github.com/binsarjr/regionchecker)'', wb_MaxBody = 512 * 1024\<rparr>"

text \<open>The envelope of \<open>/wayback/available\<close>; nested structs are decoded into the value decoded so far.\<close>

record closest =
  av_Available :: bool
  av_URL :: string
  av_Status :: string

definition dec_closest :: "closest \<Rightarrow> json \<Rightarrow> closest option" where
  "dec_closest x v =
     Option.bind (struct_members v) (\<lambda>ms.
     Option.bind (dec_field dec_bool ''available'' (av_Available x) ms) (\<lambda>a.
     Option.bind (dec_field dec_string ''url'' (av_URL x) ms) (\<lambda>u.
     Option.bind (dec_field dec_string ''status'' (av_Status x) ms) (\<lambda>s.
       Some \<lparr>av_Available = a, av_URL = u, av_Status = s\<rparr>))))"

definition dec_snapshots :: "closest \<Rightarrow> json \<Rightarrow> closest option" where
  "dec_snapshots x v = Option.bind (struct_members v) (dec_field dec_closest ''closest'' x)"

definition no_snapshot :: closest where
  "no_snapshot = \<lparr>av_Available = False, av_URL = [], av_Status = []\<rparr>"

definition dec_availability :: "json \<Rightarrow> closest option" where
  "dec_availability v =
     Option.bind (struct_members v) (dec_field dec_snapshots ''archived_snapshots'' no_snapshot)"

definition wb_request :: "'w wb_client \<Rightarrow> string \<Rightarrow> http_request" where
  "wb_request c url =
     \<lparr>rq_Method = ''GET'', rq_URL = url, rq_Header = header_if ''User-Agent'' (wb_UserAgent c),
      rq_Timeout = deadline (wb_Timeout c)\<rparr>"

definition snapshot_of :: "closest \<Rightarrow> string" where
  "snapshot_of av =
     (if \<not> av_Available av then []
      else if av_Status av \<noteq> [] \<and> \<not> prefix ''2'' (av_Status av) then []
      else av_URL av)"

definition find_snapshot :: "'w wb_client \<Rightarrow> string \<Rightarrow> 'w \<Rightarrow> string \<times> 'w" where
  "find_snapshot c target w =
     (case wb_HTTP c (wb_request c (''https://archive.org/wayback/available?url='' @ target)) w of
        (None, w1) \<Rightarrow> ([], w1)
      | (Some resp, w1) \<Rightarrow>
          (if rs_StatusCode resp \<noteq> 200 then []
           else
             (case Option.bind (json_decode_first (take (32 * 1024) (rs_Body resp))) dec_availability of
                None \<Rightarrow> [] | Some av \<Rightarrow> snapshot_of av), w1))"

definition wb_fetch_body :: "'w wb_client \<Rightarrow> string \<Rightarrow> 'w \<Rightarrow> string \<times> 'w" where
  "wb_fetch_body c url w =
     (case wb_HTTP c (wb_request c url) w of
        (None, w1) \<Rightarrow> ([], w1)
      | (Some resp, w1) \<Rightarrow>
          (if 400 \<le> rs_StatusCode resp then []
           else (case read_limited (if wb_MaxBody c \<le> 0 then 512 * 1024 else wb_MaxBody c) resp of
                   None \<Rightarrow> [] | Some data \<Rightarrow> data), w1))"

definition wb_scan :: "'w wb_client \<Rightarrow> string \<Rightarrow> 'w \<Rightarrow> string \<times> 'w" where
  "wb_scan c host w =
     (case find_snapshot c (''http://'' @ host) w of
        (s1, w1) \<Rightarrow>
     (case (if s1 = [] then find_snapshot c (''https://'' @ host) w1 else (s1, w1)) of
        (snap, w2) \<Rightarrow>
          if snap = [] then ([], w2)
          else
            (case wb_fetch_body c (raw_snapshot_url snap) w2 of
               (body, w3) \<Rightarrow>
                 (if body = [] then [] else winner (wb_Detectors c) (wb_Threshold c) body, w3))))"

definition wb_lookup :: "'w wb_client option \<Rightarrow> 'w layer" where
  "wb_lookup c host w =
     (case c of None \<Rightarrow> (([], False), w) | Some c \<Rightarrow> cached_lookup (wb_Cache c) (wb_scan c) host w)"

definition wb_disk :: "(bytes \<Rightarrow> bytes) \<Rightarrow> disk_cache \<Rightarrow> 'n world host_cache" where
  "wb_disk sha c = disk_store sha ''host'' c"

interpretation wb: country_layer "wb_lookup c"
  by unfold_locales (auto simp: wb_lookup_def dest: cached.answers split: option.splits)

section \<open>Lemmas\<close>

lemma index_of_Some:
  "index_of sub s = Some i \<Longrightarrow>
     s = take i s @ sub @ drop (i + length sub) s \<and> i + length sub \<le> length s"
proof (induction s arbitrary: i)
  case (Cons c s)
  show ?case
  proof (cases "prefix sub (c # s)")
    case True
    then have "i = 0" using Cons.prems by simp
    obtain zs where z: "c # s = sub @ zs" using True by (auto simp: prefix_def)
    show ?thesis unfolding z using \<open>i = 0\<close> by simp
  next
    case False
    then obtain j where "i = Suc j" "index_of sub s = Some j" using Cons.prems by auto
    then show ?thesis using Cons.IH[of j] by simp
  qed
qed (simp split: if_splits)

lemma index_of_empty [simp]: "index_of [] z = Some 0"
  by (cases z) auto

text \<open>The first occurrence depends on the text up to its end only.\<close>

lemma index_of_take:
  "index_of sub s = Some i \<Longrightarrow> index_of sub (take (i + length sub) s @ z) = Some i"
proof (induction s arbitrary: i)
  case (Cons c s)
  show ?case
  proof (cases "prefix sub (c # s)")
    case True
    then have i: "i = 0" using Cons.prems by simp
    have "take (length sub) (c # s) = sub" using True by (auto simp: prefix_def)
    then have t: "take (i + length sub) (c # s) @ z = sub @ z" using i by simp
    have "prefix sub (sub @ z)" by simp
    then show ?thesis unfolding t using i by (cases "sub @ z") (auto simp del: prefix_code)
  next
    case False
    then obtain j where j: "i = Suc j" "index_of sub s = Some j" using Cons.prems by auto
    have "\<not> prefix sub (c # take (j + length sub) s @ z)"
    proof
      assume "prefix sub (c # take (j + length sub) s @ z)"
      then have "sub = take (length sub) (c # take (j + length sub) s @ z)" by (auto simp: prefix_def)
      also have "\<dots> = take (length sub) (c # s)"
        using index_of_Some[OF j(2)] by (cases "length sub") (simp_all add: min_def)
      finally show False using False by (metis take_is_prefix)
    qed
    then show ?thesis using j Cons.IH[OF j(2)] by simp
  qed
qed (simp split: if_splits)

lemma index_slash:
  "index_of ''/'' s = Some j \<Longrightarrow> CHR ''/'' \<notin> set (take j s)"
  by (induction s arbitrary: j) (auto split: if_splits)

lemma index_slash_first: "CHR ''/'' \<notin> set ts \<Longrightarrow> index_of ''/'' (ts @ CHR ''/'' # r) = Some (length ts)"
  by (induction ts) auto

section \<open>Properties\<close>

text \<open>
  Rewriting a snapshot URL to its raw variant is idempotent, and a URL that is rewritten only gains
  the three bytes \<open>id_\<close> behind its time stamp.
\<close>

theorem raw_snapshot_idempotent:
  "raw_snapshot_url (raw_snapshot_url u) = raw_snapshot_url u \<and>
   (raw_snapshot_url u = u \<or>
    (\<exists>a ts b. u = a @ ''/web/'' @ ts @ CHR ''/'' # b \<and> raw_snapshot_url u = a @ ''/web/'' @ ts @ ''id_/'' @ b))"
proof (cases "raw_snapshot_url u = u")
  case True
  then show ?thesis by simp
next
  case False
  then obtain i where i: "index_of ''/web/'' u = Some i" by (auto simp: raw_snapshot_url_def split: option.splits)
  define tail where "tail = drop (i + 5) u"
  obtain j where j: "index_of ''/'' tail = Some j"
    using False i by (auto simp: raw_snapshot_url_def tail_def Let_def split: option.splits)
  define ts r where "ts = take j tail" and "r = drop (Suc j) tail"
  have tail: "tail = ts @ CHR ''/'' # r" using index_of_Some[OF j] by (simp add: ts_def r_def)
  have new: "raw_snapshot_url u = take (i + 5) u @ ts @ ''id_'' @ CHR ''/'' # r"
  proof -
    have "drop j tail = CHR ''/'' # r" using append_take_drop_id[of j tail] tail unfolding ts_def by (metis same_append_eq)
    then show ?thesis
      using False i j unfolding raw_snapshot_url_def tail_def[symmetric] ts_def
      by (auto simp: Let_def tail_def[symmetric] split: if_splits)
  qed
  have u: "u = take i u @ ''/web/'' @ ts @ CHR ''/'' # r" "i + 5 \<le> length u"
  proof -
    have l: "length ''/web/'' = 5" by simp
    note s = index_of_Some[OF i, unfolded l]
    show "u = take i u @ ''/web/'' @ ts @ CHR ''/'' # r" "i + 5 \<le> length u"
      using s tail unfolding tail_def by auto
  qed
  have pre: "take (i + 5) u = take i u @ ''/web/''"
    by (subst u(1)) (use u(2) in \<open>simp add: min_def\<close>)
  have i2: "index_of ''/web/'' (raw_snapshot_url u) = Some i"
  proof -
    have l: "length ''/web/'' = 5" by simp
    show ?thesis unfolding new by (rule index_of_take[OF i, unfolded l])
  qed
  have t2: "drop (i + 5) (raw_snapshot_url u) = (ts @ ''id_'') @ CHR ''/'' # r"
    unfolding new using u(2) by simp
  have "CHR ''/'' \<notin> set (ts @ ''id_'')" using index_slash[OF j] by (simp add: ts_def)
  then have j2: "index_of ''/'' ((ts @ ''id_'') @ CHR ''/'' # r) = Some (length (ts @ ''id_''))"
    by (rule index_slash_first)
  have "suffix ''id_'' (take (length (ts @ ''id_'')) ((ts @ ''id_'') @ CHR ''/'' # r))"
    unfolding suffix_def by (intro exI[of _ ts]) simp
  then have "raw_snapshot_url (raw_snapshot_url u) = raw_snapshot_url u"
    by (subst raw_snapshot_url_def) (simp only: i2 t2 j2 option.case Let_def if_True)
  moreover have "raw_snapshot_url u = take i u @ ''/web/'' @ ts @ ''id_/'' @ r" unfolding new pre by simp
  ultimately show ?thesis using u(1) by blast
qed

text \<open>
  A snapshot is used only when the archive says it is available and its status, if it gives one,
  begins with a 2; an answer that is not valid JSON, has another type or has another HTTP status finds no
  snapshot.
\<close>

theorem find_snapshot_iff:
  "fst (find_snapshot c target w) = u \<and> u \<noteq> [] \<longleftrightarrow>
    (\<exists>resp av. fst (wb_HTTP c (wb_request c (''https://archive.org/wayback/available?url='' @ target)) w) = Some resp \<and>
       rs_StatusCode resp = 200 \<and>
       Option.bind (json_decode_first (take 32768 (rs_Body resp))) dec_availability = Some av \<and>
       av_Available av \<and> (av_Status av = [] \<or> hd (av_Status av) = CHR ''2'') \<and> av_URL av = u \<and> u \<noteq> [])"
proof -
  obtain r w1 where r: "wb_HTTP c (wb_request c (''https://archive.org/wayback/available?url='' @ target)) w = (r, w1)"
    by fastforce
  have p: "prefix ''2'' s \<longleftrightarrow> s \<noteq> [] \<and> hd s = CHR ''2''" for s :: string by (cases s) auto
  show ?thesis
    unfolding find_snapshot_def r
    by (cases r) (auto simp: snapshot_of_def p split: option.split)
qed

end
