(* ===== verification/Rdap.thy ===== *)
theory Rdap
  imports Regex Http HostCache
begin

text \<open>
  \<open>internal/rdap\<close>: the registrant's country from the RDAP service of a domain's registry.
  \<open>bootstrap.go\<close> (the table of services; the embedded \<open>dns.json\<close> is the argument of
  \<open>parse_bootstrap\<close>), \<open>parse.go\<close> (the walk over the entities of an answer), \<open>client.go\<close>.
\<close>

section \<open>bootstrap.go\<close>

type_synonym bootstrap = "string \<Rightarrow> string option"

definition trim_right_slash :: "string \<Rightarrow> string" where
  "trim_right_slash s = rev (dropWhile (\<lambda>c. c = CHR ''/'') (rev s))"

definition add_service :: "bootstrap \<Rightarrow> string list list \<Rightarrow> bootstrap" where
  "add_service b svc =
     (if length svc < 2 \<or> svc ! 1 = [] then b
      else
        let base = trim_right_slash (hd (svc ! 1)) @ ''/'' in
        foldl (\<lambda>b tld. b(to_lower tld \<mapsto> base)) b (svc ! 0))"

definition dec_services :: "json \<Rightarrow> string list list list option" where
  "dec_services v =
     Option.bind (struct_members v)
       (dec_field (dec_list (dec_list (dec_list dec_string [])  []) []) ''services'' [])"

definition parse_bootstrap :: "bytes \<Rightarrow> bootstrap option" where
  "parse_bootstrap raw =
     map_option (foldl add_service Map.empty) (Option.bind (json_parse raw) dec_services)"

definition base_url :: "bootstrap option \<Rightarrow> string \<Rightarrow> string" where
  "base_url b tld =
     (case b of
        None \<Rightarrow> []
      | Some m \<Rightarrow> (case m (to_lower (trim_prefix tld ''.'')) of None \<Rightarrow> [] | Some u \<Rightarrow> u))"

definition tld_of :: "string \<Rightarrow> string" where
  "tld_of dm =
     (let d = trim_suffix (to_lower (trim_space dm)) ''.'' in
      if CHR ''.'' \<in> set d then after_last CHR ''.'' d else d)"

section \<open>parse.go\<close>

fun re_words :: "re \<Rightarrow> string list \<Rightarrow> re" where
  "re_words sep [] = Eps"
| "re_words sep [w] = ci_lit w"
| "re_words sep (w # v # ws) = Seq (ci_lit w) (Seq sep (re_words sep (v # ws)))"

definition blanks :: re where
  "blanks = Plus (Cls is_space_char)"

definition privacy_proxy_re :: re where
  "privacy_proxy_re =
     Seq WordB (Seq (alts
       [ci_lit ''cloudflare'',
        re_words blanks [''domains'', ''by'', ''proxy''],
        ci_lit ''whoisguard'',
        re_words (Star (Cls is_space_char)) [''privacy'', ''protect''],
        re_words blanks [''perfect'', ''privacy''],
        ci_lit ''privacyguardian'',
        re_words blanks [''contact'', ''privacy''],
        re_words blanks [''withheld'', ''for'', ''privacy''],
        re_words blanks [''registration'', ''private''],
        re_words blanks [''redacted'', ''for'', ''privacy''],
        re_words blanks [''proxy'', ''protection''],
        re_words blanks [''identity'', ''protection'']]) WordB)"

definition is_privacy_proxy :: "string \<Rightarrow> bool" where
  "is_privacy_proxy org = (if org = [] then False else match_string privacy_proxy_re org)"

record registrant_info =
  ri_Country :: string
  ri_Org :: string

definition no_info :: registrant_info where
  "no_info = \<lparr>ri_Country = [], ri_Org = []\<rparr>"

datatype entity = Entity (en_Roles: "string list") (en_VCard: "json option") (en_Entities: "entity list")

definition no_entity :: entity where
  "no_entity = Entity [] None []"

text \<open>The decoder of an entity calls itself on the values of its members: congruence rules for that.\<close>

lemma dec_field_cong [fundef_cong]:
  assumes "ms = ms'" "name = name'" "x = x'" "\<And>y k v. (k, v) \<in> set ms' \<Longrightarrow> d y v = d' y v"
  shows "dec_field d name x ms = dec_field d' name' x' ms'"
  unfolding assms(1,2,3) using assms(4)
proof (induction ms' arbitrary: x')
  case (Cons m ms')
  obtain k v where m: "m = (k, v)" by (cases m)
  have "d y v = d' y v" for y using Cons.prems[of k v] m by simp
  moreover have "dec_field d name' y ms' = dec_field d' name' y ms'" for y by (rule Cons.IH) (auto intro: Cons.prems)
  ultimately show ?case by (simp add: m split: option.split)
qed simp

lemma dec_all_cong:
  "(\<And>y u. u \<in> set vs \<Longrightarrow> d y u = d' y u) \<Longrightarrow> dec_all d z vs = dec_all d' z vs"
  by (induction vs) (auto split: option.split)

lemma dec_list_cong [fundef_cong]:
  assumes "v = v'" "x = x'" "z = z'" "\<And>y u vs. v' = JArr vs \<Longrightarrow> u \<in> set vs \<Longrightarrow> d y u = d' y u"
  shows "dec_list d z x v = dec_list d' z' x' v'"
  using assms dec_all_cong[of _ d d' z'] by (auto simp: dec_list_def split: json.split)

lemma size_member: "(k, v) \<in> set ms \<Longrightarrow> size v < size (JObj ms)"
  by (induction ms) auto

lemma size_element: "v \<in> set vs \<Longrightarrow> size v < size (JArr vs)"
  by (induction vs) auto

definition dec_raw :: "json option \<Rightarrow> json \<Rightarrow> json option option" where
  "dec_raw x v = Some (Some v)"

function dec_entity :: "entity \<Rightarrow> json \<Rightarrow> entity option" where
  "dec_entity x v =
     (case v of
        JNull \<Rightarrow> Some x
      | JObj ms \<Rightarrow>
          (case dec_field (dec_list dec_string []) ''roles'' (en_Roles x) ms of
             None \<Rightarrow> None
           | Some r \<Rightarrow>
               (case dec_field (\<lambda>y u. dec_list dec_entity no_entity y u) ''entities'' (en_Entities x) ms of
                  None \<Rightarrow> None
                | Some es \<Rightarrow>
                    map_option (\<lambda>vc. Entity r vc es) (dec_field dec_raw ''vcardArray'' (en_VCard x) ms)))
      | _ \<Rightarrow> None)"
  by pat_completeness auto
termination
proof (relation "measure (\<lambda>(x, v). size v)")
  fix x v ms r y k u y2 w vs
  show "((y2, w), x, v) \<in> measure (\<lambda>(x, v). size v)"
    if "v = JObj ms" "(k, u) \<in> set ms" "u = JArr vs" "w \<in> set vs"
    using size_member[OF that(2)] size_element[OF that(4)] that by simp
qed simp

declare dec_entity.simps [simp del]

record rdap_link =
  ln_Href :: string
  ln_Rel :: string
  ln_Type :: string

definition dec_link :: "rdap_link \<Rightarrow> json \<Rightarrow> rdap_link option" where
  "dec_link x v =
     Option.bind (struct_members v) (\<lambda>ms.
     Option.bind (dec_field dec_string ''href'' (ln_Href x) ms) (\<lambda>h.
     Option.bind (dec_field dec_string ''rel'' (ln_Rel x) ms) (\<lambda>r.
     Option.bind (dec_field dec_string ''type'' (ln_Type x) ms) (\<lambda>t.
       Some \<lparr>ln_Href = h, ln_Rel = r, ln_Type = t\<rparr>))))"

text \<open>\<open>strings.EqualFold\<close>: the same simple folding as that of field names.\<close>

definition equal_fold :: "string \<Rightarrow> string \<Rightarrow> bool" where
  "equal_fold a b \<longleftrightarrow> fold_name a = fold_name b"

definition has_role :: "string list \<Rightarrow> string \<Rightarrow> bool" where
  "has_role roles want = list_ex (\<lambda>r. equal_fold r want) roles"

text \<open>A key of a \<open>map[string]any\<close>: the last member of that exact name.\<close>

definition map_key :: "(string \<times> json) list \<Rightarrow> string \<Rightarrow> json option" where
  "map_key ms k = map_option snd (find (\<lambda>m. fst m = k) (rev ms))"

definition alpha2 :: "json option \<Rightarrow> string option" where
  "alpha2 v = (case v of Some (JStr s) \<Rightarrow> if length s = 2 then Some s else None | _ \<Rightarrow> None)"

definition adr_params :: "json \<Rightarrow> (string \<times> json) list" where
  "adr_params v = (case v of JObj ms \<Rightarrow> ms | _ \<Rightarrow> [])"

definition adr_last :: "json \<Rightarrow> json option" where
  "adr_last v = (case v of JArr vs \<Rightarrow> if length vs = 7 then Some (vs ! 6) else None | _ \<Rightarrow> None)"

definition vcard_adr :: "json list \<Rightarrow> registrant_info \<times> bool \<Rightarrow> registrant_info \<times> bool" where
  "vcard_adr prop st =
     (let st1 = (case alpha2 (map_key (adr_params (prop ! 1)) ''cc'') of
                   Some s \<Rightarrow> ((fst st)\<lparr>ri_Country := s\<rparr>, True) | None \<Rightarrow> st) in
      if snd st1 then st1
      else (case alpha2 (adr_last (prop ! 3)) of
              Some s \<Rightarrow> ((fst st1)\<lparr>ri_Country := s\<rparr>, True) | None \<Rightarrow> st1))"

definition vcard_org :: "json list \<Rightarrow> registrant_info \<times> bool \<Rightarrow> registrant_info \<times> bool" where
  "vcard_org prop st =
     (if ri_Org (fst st) = []
      then (case prop ! 3 of JStr s \<Rightarrow> ((fst st)\<lparr>ri_Org := s\<rparr>, snd st) | _ \<Rightarrow> st) else st)"

definition vcard_prop :: "registrant_info \<times> bool \<Rightarrow> json \<Rightarrow> registrant_info \<times> bool" where
  "vcard_prop st p =
     (case p of
        JArr prop \<Rightarrow>
          if length prop < 4 then st
          else
            (case prop ! 0 of
               JStr name \<Rightarrow>
                 let n = body_lower name in
                 if n = ''fn'' \<or> n = ''org'' then vcard_org prop st
                 else if n = ''adr'' then vcard_adr prop st else st
             | _ \<Rightarrow> st)
      | _ \<Rightarrow> st)"

definition vcard_country :: "json option \<Rightarrow> registrant_info \<times> bool" where
  "vcard_country raw =
     (case raw of
        Some (JArr tp) \<Rightarrow>
          if length tp < 2 then (no_info, False)
          else (case tp ! 1 of JArr props \<Rightarrow> foldl vcard_prop (no_info, False) props | _ \<Rightarrow> (no_info, False))
      | _ \<Rightarrow> (no_info, False))"

text \<open>The second pass: entities that are no registrar, privacy proxies skipped.\<close>

fun second_pass :: "entity list \<Rightarrow> registrant_info option" where
  "second_pass [] = None"
| "second_pass (e # es) =
     (case vcard_country (en_VCard e) of
        (info, ok) \<Rightarrow>
          if ok \<and> \<not> is_privacy_proxy (ri_Org info) \<and> \<not> has_role (en_Roles e) ''registrar''
          then Some info else second_pass es)"

text \<open>
  The first pass returns (\<open>Some\<close>) at a registrant with a country (nothing for a proxy) or at a nested
  hit; otherwise the second pass decides.
\<close>

function walk_entities :: "entity list \<Rightarrow> registrant_info option"
and first_pass :: "entity list \<Rightarrow> registrant_info option option" where
  "walk_entities es = (case first_pass es of Some res \<Rightarrow> res | None \<Rightarrow> second_pass es)"
| "first_pass [] = None"
| "first_pass (e # es) =
     (let (info, ok) = vcard_country (en_VCard e) in
      if has_role (en_Roles e) ''registrant'' \<and> ok
      then Some (if is_privacy_proxy (ri_Org info) then None else Some info)
      else (case walk_entities (en_Entities e) of Some i \<Rightarrow> Some (Some i) | None \<Rightarrow> first_pass es))"
  by pat_completeness auto
termination
proof (relation "measure (case_sum (\<lambda>es. 2 * size_list size es + 1) (\<lambda>es. 2 * size_list size es))", goal_cases)
  case (3 e es)
  then show ?case by (cases e) simp
qed (auto simp: size_list_conv_sum_list)

declare walk_entities.simps [simp del]

definition extract_registrant :: "bytes \<Rightarrow> registrant_info \<times> bool" where
  "extract_registrant raw =
     (case Option.bind (Option.bind (json_parse raw) struct_members)
             (dec_field (dec_list dec_entity no_entity) ''entities'' []) of
        None \<Rightarrow> (no_info, False)
      | Some es \<Rightarrow>
          (case walk_entities es of
             None \<Rightarrow> (no_info, False)
           | Some info \<Rightarrow>
               let info' = info\<lparr>ri_Country := to_upper (trim_space (ri_Country info))\<rparr> in
               (info', ri_Country info' \<noteq> [])))"

definition extract_related :: "bytes \<Rightarrow> string" where
  "extract_related raw =
     (case Option.bind (Option.bind (json_parse raw) struct_members)
             (dec_field (dec_list dec_link \<lparr>ln_Href = [], ln_Rel = [], ln_Type = []\<rparr>) ''links'' []) of
        None \<Rightarrow> []
      | Some ls \<Rightarrow>
          (case find (\<lambda>l. equal_fold (ln_Rel l) ''related'' \<and> contains (body_lower (ln_Type l)) ''rdap'') ls of
             None \<Rightarrow> [] | Some l \<Rightarrow> ln_Href l))"

section \<open>client.go\<close>

datatype rdap_error = RdapNotFound | RdapRedacted | RdapNoBootstrap | RdapStatus int | RdapTransport

record 'w rdap_client =
  rd_HTTP :: "'w http"
  rd_Bootstrap :: "bootstrap option"
  rd_Cache :: "'w host_cache option"
  rd_UserAgent :: string
  rd_Timeout :: int

definition rdap_NewClient :: "'w http \<Rightarrow> bytes \<Rightarrow> 'w rdap_client option" where
  "rdap_NewClient http dns_json =
     (case parse_bootstrap dns_json of
        None \<Rightarrow> None
      | Some b \<Rightarrow>
          Some \<lparr>rd_HTTP = http, rd_Bootstrap = Some b, rd_Cache = None,
            rd_UserAgent = ''regionchecker/0.1 (+https://github.com/binsarjr/regionchecker)'',
            rd_Timeout = 3 * second_ns\<rparr>)"

definition rdap_get :: "'w rdap_client \<Rightarrow> string \<Rightarrow> 'w \<Rightarrow> (rdap_error + bytes) \<times> 'w" where
  "rdap_get c url w =
     (case rd_HTTP c
        \<lparr>rq_Method = ''GET'', rq_URL = url,
         rq_Header = (''Accept'', ''application/rdap+json'') # header_if ''User-Agent'' (rd_UserAgent c),
         rq_Timeout = deadline (rd_Timeout c)\<rparr> w of
        (None, w1) \<Rightarrow> (Inl RdapTransport, w1)
      | (Some resp, w1) \<Rightarrow>
          (if rs_StatusCode resp = 404 then Inl RdapNotFound
           else if 400 \<le> rs_StatusCode resp then Inl (RdapStatus (rs_StatusCode resp))
           else (case read_limited (1024 * 1024) resp of
                   None \<Rightarrow> Inl RdapTransport | Some data \<Rightarrow> Inr data), w1))"

definition rdap_fetch :: "'w rdap_client \<Rightarrow> string \<Rightarrow> 'w \<Rightarrow> (rdap_error + string) \<times> 'w" where
  "rdap_fetch c dm w =
     (let base = base_url (rd_Bootstrap c) (tld_of dm) in
      if base = [] then (Inl RdapNoBootstrap, w)
      else
        (case rdap_get c (base @ ''domain/'' @ dm) w of
           (Inl e, w1) \<Rightarrow> (Inl e, w1)
         | (Inr body, w1) \<Rightarrow>
             (case extract_registrant body of
                (info, True) \<Rightarrow> (Inr (ri_Country info), w1)
              | (_, False) \<Rightarrow>
                  let follow = extract_related body in
                  if follow = [] then (Inl RdapRedacted, w1)
                  else
                    (case rdap_get c follow w1 of
                       (Inl e, w2) \<Rightarrow> (Inl RdapRedacted, w2)
                     | (Inr body2, w2) \<Rightarrow>
                         (case extract_registrant body2 of
                            (info, True) \<Rightarrow> (Inr (ri_Country info), w2)
                          | (_, False) \<Rightarrow> (Inl RdapRedacted, w2))))))"

definition rdap_scan :: "'w rdap_client \<Rightarrow> string \<Rightarrow> 'w \<Rightarrow> string \<times> 'w" where
  "rdap_scan c dm w = (case rdap_fetch c dm w of (Inl e, w1) \<Rightarrow> ([], w1) | (Inr cc, w1) \<Rightarrow> (cc, w1))"

definition rdap_lookup :: "'w rdap_client option \<Rightarrow> 'w layer" where
  "rdap_lookup c dm w =
     (case c of
        None \<Rightarrow> (([], False), w)
      | Some c \<Rightarrow>
          if Option.is_none (rd_Bootstrap c) then (([], False), w)
          else cached_lookup (rd_Cache c) (rdap_scan c) dm w)"

definition rdap_disk :: "(bytes \<Rightarrow> bytes) \<Rightarrow> disk_cache \<Rightarrow> 'n world host_cache" where
  "rdap_disk sha c = disk_store sha ''domain'' c"

interpretation rdap: country_layer "rdap_lookup c"
  by unfold_locales (auto simp: rdap_lookup_def dest: cached.answers split: option.splits if_splits)

section \<open>Where a country comes from\<close>

inductive below :: "entity \<Rightarrow> entity list \<Rightarrow> bool" where
  here: "e \<in> set es \<Longrightarrow> below e es"
| deeper: "below e (en_Entities f) \<Longrightarrow> f \<in> set es \<Longrightarrow> below e es"

lemma below_mono: "below e es \<Longrightarrow> set es \<subseteq> set es' \<Longrightarrow> below e es'"
  by (cases rule: below.cases) (auto intro: below.intros)

definition names_owner :: "registrant_info \<Rightarrow> entity \<Rightarrow> bool" where
  "names_owner i e \<longleftrightarrow>
     vcard_country (en_VCard e) = (i, True) \<and> \<not> is_privacy_proxy (ri_Org i) \<and>
     (has_role (en_Roles e) ''registrant'' \<or> \<not> has_role (en_Roles e) ''registrar'')"

lemma second_pass_sound: "second_pass es = Some i \<Longrightarrow> \<exists>e \<in> set es. names_owner i e"
  by (induction es) (auto simp: names_owner_def split: prod.splits if_splits)

lemma walk_sound:
  shows walk_entities_sound: "walk_entities es = Some i \<Longrightarrow> \<exists>e. below e es \<and> names_owner i e"
    and first_pass_sound: "first_pass es = Some (Some i) \<Longrightarrow> \<exists>e. below e es \<and> names_owner i e"
proof (induction es and es rule: walk_entities_first_pass.induct)
  case (1 es)
  show ?case
  proof (cases "first_pass es")
    case None
    then have "second_pass es = Some i" using 1 by (simp add: walk_entities.simps)
    then show ?thesis using second_pass_sound here by blast
  next
    case (Some r)
    then have "first_pass es = Some (Some i)" using 1(2) by (simp add: walk_entities.simps)
    then show ?thesis by (rule 1(1))
  qed
next
  case (3 e es)
  obtain info ok where v: "vcard_country (en_VCard e) = (info, ok)" by fastforce
  show ?case
  proof (cases "has_role (en_Roles e) ''registrant'' \<and> ok")
    case True
    then have "names_owner i e" using 3(3) v by (auto simp: names_owner_def split: if_splits)
    then show ?thesis by (meson here list.set_intros(1))
  next
    case no: False
    show ?thesis
    proof (cases "walk_entities (en_Entities e)")
      case None
      then have "first_pass es = Some (Some i)" using 3(3) v no by auto
      then have "\<exists>e. below e es \<and> names_owner i e" using 3(2)[OF v[symmetric] refl no None] by blast
      then show ?thesis by (meson below_mono set_subset_Cons)
    next
      case (Some j)
      then have "walk_entities (en_Entities e) = Some i" using 3(3) v no by auto
      then have "\<exists>e'. below e' (en_Entities e) \<and> names_owner i e'" using 3(1)[OF v[symmetric] refl no] by blast
      then show ?thesis by (meson deeper list.set_intros(1))
    qed
  qed
qed simp

lemma alpha2_length: "alpha2 v = Some s \<Longrightarrow> length s = 2"
  by (auto simp: alpha2_def split: option.splits json.splits if_splits)

definition alpha2_ok :: "registrant_info \<times> bool \<Rightarrow> bool" where
  "alpha2_ok st \<longleftrightarrow> (snd st \<longrightarrow> length (ri_Country (fst st)) = 2)"

lemma vcard_org_alpha2: "alpha2_ok st \<Longrightarrow> alpha2_ok (vcard_org prop st)"
  by (cases "prop ! 3") (simp_all add: alpha2_ok_def vcard_org_def)

lemma vcard_adr_alpha2: "alpha2_ok st \<Longrightarrow> alpha2_ok (vcard_adr prop st)"
  by (cases "alpha2 (map_key (adr_params (prop ! 1)) ''cc'')"; cases "alpha2 (adr_last (prop ! 3))")
     (simp_all add: alpha2_ok_def vcard_adr_def alpha2_length)

lemma vcard_prop_alpha2: "alpha2_ok st \<Longrightarrow> alpha2_ok (vcard_prop st p)"
  by (simp add: vcard_prop_def vcard_org_alpha2 vcard_adr_alpha2 Let_def split: json.split)

lemma vcard_fold_alpha2: "alpha2_ok st \<Longrightarrow> alpha2_ok (foldl vcard_prop st ps)"
  by (induction ps arbitrary: st) (simp_all add: vcard_prop_alpha2)

lemma vcard_country_alpha2: "vcard_country raw = (i, True) \<Longrightarrow> length (ri_Country i) = 2"
proof -
  assume "vcard_country raw = (i, True)"
  then obtain ps where ps: "foldl vcard_prop (no_info, False) ps = (i, True)"
    by (auto simp: vcard_country_def split: option.splits json.splits if_splits)
  show ?thesis using vcard_fold_alpha2[of "(no_info, False)" ps] by (simp add: ps alpha2_ok_def)
qed

section \<open>Properties\<close>

definition doc_entities :: "bytes \<Rightarrow> entity list option" where
  "doc_entities raw =
     Option.bind (Option.bind (json_parse raw) struct_members)
       (dec_field (dec_list dec_entity no_entity) ''entities'' [])"


definition jstr :: "string \<Rightarrow> json" where "jstr s = JStr s"

text \<open>A registrar with an address in the US, a technical contact without one, the registrant inside it.\<close>

definition sample_vcard :: "string \<Rightarrow> string \<Rightarrow> json" where
  "sample_vcard org cc =
     JArr [jstr ''vcard'',
       JArr [JArr [jstr ''fn'', JObj [], jstr ''text'', jstr org],
             JArr [jstr ''adr'', JObj [(''cc'', jstr cc)], jstr ''text'', JArr []]]]"

definition sample_rdap :: "string \<Rightarrow> bytes" where
  "sample_rdap owner =
     json_out None (JObj [(''entities'', JArr [
       JObj [(''roles'', JArr [jstr ''registrar'']), (''vcardArray'', sample_vcard ''Names Inc'' ''us'')],
       JObj [(''roles'', JArr [jstr ''technical'']),
             (''entities'', JArr [
               JObj [(''roles'', JArr [jstr ''Registrant'']), (''vcardArray'', sample_vcard owner ''id'')]])]])])"


text \<open>
  A registrant behind a privacy proxy silences the whole answer: when the first entity is a
  registrant whose organisation is a known proxy, no country is taken from any other entity.
\<close>

theorem proxy_registrant_silences:
  assumes "has_role (en_Roles e) ''registrant''" and "vcard_country (en_VCard e) = (info, True)"
    and "is_privacy_proxy (ri_Org info)"
  shows "walk_entities (e # es) = None"
  using assms by (simp add: walk_entities.simps)

theorem proxy_registrant_silences_witness:
  "walk_entities (Entity [''registrant''] (Some (sample_vcard ''Domains By Proxy, LLC'' ''US'')) [] #
     [Entity [''administrative''] (Some (sample_vcard ''PT Maju'' ''ID'')) []]) = None"
proof (rule proxy_registrant_silences)
  show "has_role (en_Roles (Entity [''registrant''] (Some (sample_vcard ''Domains By Proxy, LLC'' ''US'')) []))
    ''registrant''" by code_simp
  show "vcard_country (en_VCard (Entity [''registrant''] (Some (sample_vcard ''Domains By Proxy, LLC'' ''US'')) [])) =
    (\<lparr>ri_Country = ''US'', ri_Org = ''Domains By Proxy, LLC''\<rparr>, True)" by code_simp
  show "is_privacy_proxy (ri_Org \<lparr>ri_Country = ''US'', ri_Org = ''Domains By Proxy, LLC''\<rparr>)" by code_simp
qed

lemma add_service_inv:
  assumes "\<forall>t u. b t = Some u \<longrightarrow> P u" and "\<And>x. P (trim_right_slash x @ ''/'')"
  shows "\<forall>t u. add_service b svc t = Some u \<longrightarrow> P u"
proof -
  have "\<forall>t u. foldl (\<lambda>b tld. b(to_lower tld \<mapsto> trim_right_slash x @ ''/'')) b ts t = Some u \<longrightarrow> P u" for ts x
    using assms(1)
  proof (induction ts arbitrary: b)
    case (Cons t ts)
    have "\<forall>s u. (b(to_lower t \<mapsto> trim_right_slash x @ ''/'')) s = Some u \<longrightarrow> P u"
      using Cons.prems assms(2) by auto
    from Cons.IH[OF this] show ?case by simp
  qed simp
  then show ?thesis using assms(1) by (simp add: add_service_def Let_def)
qed

lemma trim_right_slash_last: "trim_right_slash s \<noteq> [] \<Longrightarrow> last (trim_right_slash s) \<noteq> CHR ''/''"
proof -
  assume "trim_right_slash s \<noteq> []"
  then have "dropWhile (\<lambda>c. c = CHR ''/'') (rev s) \<noteq> []" by (simp add: trim_right_slash_def)
  then show ?thesis using hd_dropWhile[of "\<lambda>c. c = CHR ''/''" "rev s"] by (simp add: trim_right_slash_def last_rev)
qed

text \<open>
  Every service of a parsed bootstrap table has a base URL that ends in exactly one slash, so a domain
  query is the base, the word domain and the name with no doubled and no missing separator; a TLD without
  a service has none, in whatever case it is asked.
\<close>

theorem bootstrap_base_slash:
  assumes "parse_bootstrap raw = Some b"
  shows "base_url (Some b) tld = [] \<or>
    (\<exists>p. base_url (Some b) tld = p @ ''/'' \<and> (p = [] \<or> last p \<noteq> CHR ''/''))"
proof -
  define P where "P = (\<lambda>u :: string. \<exists>p. u = p @ ''/'' \<and> (p = [] \<or> last p \<noteq> CHR ''/''))"
  obtain svcs where b: "b = foldl add_service Map.empty svcs"
    using assms by (auto simp: parse_bootstrap_def)
  have step: "\<forall>t u. foldl add_service m svcs t = Some u \<longrightarrow> P u" if "\<forall>t u. m t = Some u \<longrightarrow> P u" for m svcs
    using that
  proof (induction svcs arbitrary: m)
    case (Cons svc svcs)
    have "\<forall>t u. add_service m svc t = Some u \<longrightarrow> P u"
      by (rule add_service_inv[OF Cons.prems]) (auto simp: P_def dest: trim_right_slash_last)
    then show ?case using Cons.IH by simp
  qed simp
  have "\<forall>t u. b t = Some u \<longrightarrow> P u" unfolding b by (rule step) simp
  then show ?thesis by (auto simp: base_url_def P_def split: option.split)
qed

definition sample_dns :: bytes where
  "sample_dns = json_out None (JObj [(''services'', JArr [
     JArr [JArr [jstr ''kg''], JArr [jstr ''http://rdap.cctld.kg/'']],
     JArr [JArr [jstr ''COM'', jstr ''net''], JArr [jstr ''https://rdap.verisign.com/com/v1'']]])])"

theorem bootstrap_base_slash_witness:
  "\<exists>b. parse_bootstrap sample_dns = Some b \<and> base_url (Some b) ''.Com'' = ''https://rdap.verisign.com/com/v1/'' \<and>
    (base_url (Some b) ''.Com'' = [] \<or>
     (\<exists>p. base_url (Some b) ''.Com'' = p @ ''/'' \<and> (p = [] \<or> last p \<noteq> CHR ''/'')))"
proof -
  have j: "Option.bind (json_parse sample_dns) dec_services =
      Some [[[''kg''], [''http://rdap.cctld.kg/'']], [[''COM'', ''net''], [''https://rdap.verisign.com/com/v1'']]]"
    by code_simp
  define b where "b = foldl add_service Map.empty
    [[[''kg''], [''http://rdap.cctld.kg/'']], [[''COM'', ''net''], [''https://rdap.verisign.com/com/v1'']]]"
  have b: "parse_bootstrap sample_dns = Some b" by (simp add: parse_bootstrap_def j b_def)
  have "base_url (Some b) ''.Com'' = ''https://rdap.verisign.com/com/v1/''" unfolding b_def by code_simp
  then show ?thesis using b bootstrap_base_slash[OF b] by blast
qed

end
