(* ===== verification/FileSys.thy ===== *)
theory FileSys
  imports
    Prelude GoStrings GoPath
begin

text \<open>
  The file system as \<open>internal/cache\<close> uses it through package \<open>os\<close>: a directory maps names to inodes,
  an inode has a content, and the disk may lag behind memory.  \<open>fs_past\<close> holds, for every name, the
  other entries a crash may bring back because the directory was not synchronised since; an inode that was
  not synchronised since its last write may hold anything after a crash.  The outcome of a system call
  that can fail is an argument of the operation that makes it (theory \<open>Store\<close>); here are the effects.
\<close>

record fsys =
  fs_entry :: "string \<Rightarrow> nat option"
  fs_past :: "string \<Rightarrow> nat option list"
  fs_data :: "nat \<Rightarrow> bytes"
  fs_synced :: "nat \<Rightarrow> bool"
  fs_mtime :: "nat \<Rightarrow> int"
  fs_open :: "nat \<Rightarrow> nat option"
  fs_next :: nat
  fs_dirs :: "string list"
  fs_now :: int

definition entries :: "string \<Rightarrow> fsys \<Rightarrow> nat option list" where
  "entries p s = fs_entry s p # fs_past s p"

definition set_entry :: "string \<Rightarrow> nat option \<Rightarrow> fsys \<Rightarrow> fsys" where
  "set_entry p e s = s\<lparr>fs_entry := (fs_entry s)(p := e), fs_past := (fs_past s)(p := entries p s)\<rparr>"

definition set_inode :: "nat \<Rightarrow> bytes \<Rightarrow> fsys \<Rightarrow> fsys" where
  "set_inode i data s = s\<lparr>fs_data := (fs_data s)(i := data), fs_synced := (fs_synced s)(i := False),
     fs_mtime := (fs_mtime s)(i := fs_now s)\<rparr>"

text \<open>\<open>os.OpenFile\<close> with \<open>O_WRONLY|O_CREATE|O_TRUNC\<close>, binding the descriptor \<open>d\<close>.\<close>

definition fs_create :: "nat \<Rightarrow> string \<Rightarrow> fsys \<Rightarrow> fsys" where
  "fs_create d p s =
     (case fs_entry s p of
        Some i \<Rightarrow> (set_inode i [] s)\<lparr>fs_open := (fs_open s)(d \<mapsto> i)\<rparr>
      | None \<Rightarrow> (set_entry p (Some (fs_next s)) (set_inode (fs_next s) [] s))
            \<lparr>fs_open := (fs_open s)(d \<mapsto> fs_next s), fs_next := Suc (fs_next s)\<rparr>)"

text \<open>The first \<open>File.Write\<close> of a descriptor: at offset 0.\<close>

definition fs_write :: "nat \<Rightarrow> bytes \<Rightarrow> fsys \<Rightarrow> fsys" where
  "fs_write d data s =
     (case fs_open s d of
        None \<Rightarrow> s
      | Some i \<Rightarrow> set_inode i (data @ drop (length data) (fs_data s i)) s)"

definition fs_sync :: "nat \<Rightarrow> fsys \<Rightarrow> fsys" where
  "fs_sync d s =
     (case fs_open s d of None \<Rightarrow> s | Some i \<Rightarrow> s\<lparr>fs_synced := (fs_synced s)(i := True)\<rparr>)"

definition fs_close :: "nat \<Rightarrow> fsys \<Rightarrow> fsys" where
  "fs_close d s = s\<lparr>fs_open := (fs_open s)(d := None)\<rparr>"

definition fs_rename :: "string \<Rightarrow> string \<Rightarrow> fsys \<Rightarrow> fsys" where
  "fs_rename p q s =
     (case fs_entry s p of
        None \<Rightarrow> s
      | Some i \<Rightarrow> if p = q then s else set_entry p None (set_entry q (Some i) s))"

definition fs_sync_dir :: "string \<Rightarrow> fsys \<Rightarrow> fsys" where
  "fs_sync_dir dir s = s\<lparr>fs_past := (\<lambda>p. if path_dir p = dir then [] else fs_past s p)\<rparr>"

definition fs_remove :: "string \<Rightarrow> fsys \<Rightarrow> fsys" where
  "fs_remove p s = (if fs_entry s p = None then s else set_entry p None s)"

definition fs_mkdir :: "string \<Rightarrow> fsys \<Rightarrow> fsys" where
  "fs_mkdir p s = s\<lparr>fs_dirs := fs_dirs s @ [p]\<rparr>"

definition fs_read :: "string \<Rightarrow> fsys \<Rightarrow> bytes option" where
  "fs_read p s = map_option (fs_data s) (fs_entry s p)"

text \<open>\<open>r\<close> is what may be found at \<open>p\<close> when the machine stops in state \<open>s\<close> and comes back.\<close>

definition after_crash :: "string \<Rightarrow> bytes option \<Rightarrow> fsys \<Rightarrow> bool" where
  "after_crash p r s =
     list_ex (\<lambda>e. case e of
         None \<Rightarrow> r = None
       | Some i \<Rightarrow> r \<noteq> None \<and> (fs_synced s i \<longrightarrow> r = Some (fs_data s i))) (entries p s)"

section \<open>Invariants of the operations\<close>

text \<open>Inode numbers in use are below the next one.\<close>

definition fs_wf :: "fsys \<Rightarrow> bool" where
  "fs_wf s \<longleftrightarrow> (\<forall>p i. Some i \<in> set (entries p s) \<longrightarrow> i < fs_next s) \<and>
     (\<forall>d i. fs_open s d = Some i \<longrightarrow> i < fs_next s)"

named_theorems fs_defs \<open>the effects of the system calls\<close>

declare fs_create_def [fs_defs] fs_write_def [fs_defs] fs_sync_def [fs_defs] fs_close_def [fs_defs]
  fs_rename_def [fs_defs] fs_sync_dir_def [fs_defs] fs_remove_def [fs_defs]

lemma entry_mem: "fs_entry s p = e \<Longrightarrow> e \<in> set (entries p s)"
  by (simp add: entries_def)

lemma entries_set_entry [simp]:
  "entries p (set_entry q e s) = (if p = q then e # entries p s else entries p s)"
  by (simp add: entries_def set_entry_def)

lemma set_entry_sel [simp]:
  "fs_entry (set_entry q e s) p = (if p = q then e else fs_entry s p)"
  "fs_data (set_entry q e s) = fs_data s" "fs_synced (set_entry q e s) = fs_synced s"
  "fs_open (set_entry q e s) = fs_open s" "fs_next (set_entry q e s) = fs_next s"
  by (simp_all add: set_entry_def)

lemma set_inode_sel [simp]:
  "fs_entry (set_inode i b s) = fs_entry s" "entries p (set_inode i b s) = entries p s"
  "fs_data (set_inode i b s) = (fs_data s)(i := b)" "fs_synced (set_inode i b s) = (fs_synced s)(i := False)"
  "fs_open (set_inode i b s) = fs_open s" "fs_next (set_inode i b s) = fs_next s"
  by (simp_all add: set_inode_def entries_def)

lemma entries_update [simp]:
  "entries p (s\<lparr>fs_open := f\<rparr>) = entries p s" "entries p (s\<lparr>fs_next := n\<rparr>) = entries p s"
  "entries p (s\<lparr>fs_synced := g\<rparr>) = entries p s"
  "entries p (s\<lparr>fs_past := h\<rparr>) = fs_entry s p # h p"
  by (simp_all add: entries_def)

lemma fs_wf_entry: "fs_wf s \<Longrightarrow> fs_entry s p = Some i \<Longrightarrow> i < fs_next s"
  using entry_mem[of s p] by (auto simp: fs_wf_def)

lemma fs_wf_open: "fs_wf s \<Longrightarrow> fs_open s d = Some i \<Longrightarrow> i < fs_next s"
  by (auto simp: fs_wf_def)

lemma fs_wf_mem: "fs_wf s \<Longrightarrow> Some i \<in> set (entries p s) \<Longrightarrow> i < fs_next s"
  by (auto simp: fs_wf_def)

lemma fs_wfI:
  "(\<And>p i. Some i \<in> set (entries p s) \<Longrightarrow> i < fs_next s) \<Longrightarrow> (\<And>d i. fs_open s d = Some i \<Longrightarrow> i < fs_next s) \<Longrightarrow> fs_wf s"
  by (auto simp: fs_wf_def)

lemma past_mem: "e \<in> set (fs_past s p) \<Longrightarrow> e \<in> set (entries p s)"
  by (simp add: entries_def)

lemma fs_wf_create: "fs_wf s \<Longrightarrow> fs_wf (fs_create d p s)"
  by (rule fs_wfI) (auto simp: fs_defs less_SucI dest: fs_wf_entry fs_wf_open fs_wf_mem past_mem entry_mem split: option.splits if_splits)

lemma fs_wf_write: "fs_wf s \<Longrightarrow> fs_wf (fs_write d b s)"
  by (rule fs_wfI) (auto simp: fs_defs less_SucI dest: fs_wf_entry fs_wf_open fs_wf_mem past_mem entry_mem split: option.splits if_splits)

lemma fs_wf_sync: "fs_wf s \<Longrightarrow> fs_wf (fs_sync d s)"
  by (rule fs_wfI) (auto simp: fs_defs less_SucI dest: fs_wf_entry fs_wf_open fs_wf_mem past_mem entry_mem split: option.splits if_splits)

lemma fs_wf_close: "fs_wf s \<Longrightarrow> fs_wf (fs_close d s)"
  by (rule fs_wfI) (auto simp: fs_defs less_SucI dest: fs_wf_entry fs_wf_open fs_wf_mem past_mem entry_mem split: option.splits if_splits)

lemma fs_wf_rename: "fs_wf s \<Longrightarrow> fs_wf (fs_rename p q s)"
  by (rule fs_wfI) (auto simp: fs_defs less_SucI dest: fs_wf_entry fs_wf_open fs_wf_mem past_mem entry_mem split: option.splits if_splits)

lemma fs_wf_remove: "fs_wf s \<Longrightarrow> fs_wf (fs_remove p s)"
  by (rule fs_wfI) (auto simp: fs_defs less_SucI dest: fs_wf_entry fs_wf_open fs_wf_mem past_mem entry_mem split: option.splits if_splits)

lemma entries_sync_dir: "e \<in> set (entries p (fs_sync_dir q s)) \<Longrightarrow> e \<in> set (entries p s)"
  by (auto simp: fs_sync_dir_def entries_def split: if_splits)

lemma sync_dir_sel [simp]:
  "fs_entry (fs_sync_dir q s) = fs_entry s" "fs_data (fs_sync_dir q s) = fs_data s"
  "fs_synced (fs_sync_dir q s) = fs_synced s" "fs_open (fs_sync_dir q s) = fs_open s"
  "fs_next (fs_sync_dir q s) = fs_next s"
  by (simp_all add: fs_sync_dir_def)

lemma fs_wf_sync_dir: "fs_wf s \<Longrightarrow> fs_wf (fs_sync_dir p s)"
  by (rule fs_wfI) (auto dest: fs_wf_open fs_wf_mem entries_sync_dir)

lemmas fs_wf_ops = fs_wf_create fs_wf_write fs_wf_sync fs_wf_close fs_wf_rename fs_wf_remove fs_wf_sync_dir

text \<open>
  \<open>settled A p s\<close>: whatever entry \<open>p\<close> has or may come back with, its content lies in \<open>A\<close>, is on the
  disk and is not being written.
\<close>

definition safe_entry :: "bytes option set \<Rightarrow> nat option \<Rightarrow> fsys \<Rightarrow> bool" where
  "safe_entry A e s =
     (case e of
        None \<Rightarrow> None \<in> A
      | Some i \<Rightarrow> fs_synced s i \<and> Some (fs_data s i) \<in> A \<and> (\<forall>d. fs_open s d \<noteq> Some i))"

definition settled :: "bytes option set \<Rightarrow> string \<Rightarrow> fsys \<Rightarrow> bool" where
  "settled A p s \<longleftrightarrow> (\<forall>e \<in> set (entries p s). safe_entry A e s)"

lemma settledI: "(\<And>e. e \<in> set (entries p s) \<Longrightarrow> safe_entry A e s) \<Longrightarrow> settled A p s"
  by (simp add: settled_def)

lemma settledD: "settled A p s \<Longrightarrow> e \<in> set (entries p s) \<Longrightarrow> safe_entry A e s"
  by (simp add: settled_def)

lemma settled_after_crash: "settled A p s \<Longrightarrow> after_crash p r s \<Longrightarrow> r \<in> A"
  by (auto simp: settled_def safe_entry_def after_crash_def list_ex_iff split: option.splits)

lemma settled_read: "settled A p s \<Longrightarrow> fs_read p s \<in> A"
  using settledD[OF _ entry_mem[OF refl], of A p s]
  by (auto simp: safe_entry_def fs_read_def split: option.splits)

lemma safe_entry_mono: "safe_entry A e s \<Longrightarrow> A \<subseteq> B \<Longrightarrow> safe_entry B e s"
  by (auto simp: safe_entry_def split: option.splits)

lemma settled_mono: "settled A p s \<Longrightarrow> A \<subseteq> B \<Longrightarrow> settled B p s"
  by (auto simp: settled_def intro: safe_entry_mono)

lemma safe_entry_create:
  "safe_entry A e s \<Longrightarrow> fs_wf s \<Longrightarrow> e \<noteq> Some (fs_next s) \<Longrightarrow> fs_entry s q = None \<Longrightarrow> safe_entry A e (fs_create d q s)"
  by (auto simp: safe_entry_def fs_defs split: option.splits)

lemma safe_entry_write: "safe_entry A e s \<Longrightarrow> safe_entry A e (fs_write d b s)"
  by (auto simp: safe_entry_def fs_defs split: option.splits)

lemma safe_entry_sync: "safe_entry A e s \<Longrightarrow> safe_entry A e (fs_sync d s)"
  by (auto simp: safe_entry_def fs_defs split: option.splits)

lemma safe_entry_close: "safe_entry A e s \<Longrightarrow> safe_entry A e (fs_close d s)"
  by (auto simp: safe_entry_def fs_defs split: option.splits)

lemma safe_entry_names [simp]:
  "safe_entry A e (fs_remove q s) = safe_entry A e s" "safe_entry A e (fs_sync_dir q s) = safe_entry A e s"
  "safe_entry A e (fs_rename q r s) = safe_entry A e s"
  by (auto simp: safe_entry_def fs_defs split: option.splits)

lemma entries_ops [simp]:
  "entries p (fs_write d b s) = entries p s" "entries p (fs_sync d s) = entries p s"
  "entries p (fs_close d s) = entries p s"
  by (auto simp: fs_defs split: option.split)

lemma settled_create:
  assumes "settled A p s" and "fs_wf s" and "p \<noteq> q" and "fs_entry s q = None"
  shows "settled A p (fs_create d q s)"
proof (rule settledI)
  fix e assume "e \<in> set (entries p (fs_create d q s))"
  then have e: "e \<in> set (entries p s)" using assms(3,4) by (simp add: fs_defs)
  then have "e \<noteq> Some (fs_next s)" using fs_wf_mem[OF assms(2)] by blast
  then show "safe_entry A e (fs_create d q s)"
    using safe_entry_create[OF settledD[OF assms(1) e]] assms by blast
qed

lemma settled_write: "settled A p s \<Longrightarrow> settled A p (fs_write d b s)"
  by (simp add: settled_def safe_entry_write)

lemma settled_sync: "settled A p s \<Longrightarrow> settled A p (fs_sync d s)"
  by (simp add: settled_def safe_entry_sync)

lemma settled_close: "settled A p s \<Longrightarrow> settled A p (fs_close d s)"
  by (simp add: settled_def safe_entry_close)

lemma settled_remove: "settled A p s \<Longrightarrow> p \<noteq> q \<Longrightarrow> settled A p (fs_remove q s)"
  by (simp add: settled_def) (simp add: fs_remove_def)

lemma settled_sync_dir: "settled A p s \<Longrightarrow> settled A p (fs_sync_dir q s)"
  by (auto simp: settled_def dest: entries_sync_dir)

lemma settled_rename:
  assumes "settled A p s" and "p \<noteq> q" and "p = r \<Longrightarrow> safe_entry A (fs_entry s q) s"
  shows "settled A p (fs_rename q r s)"
proof (rule settledI)
  fix e assume "e \<in> set (entries p (fs_rename q r s))"
  then have "e \<in> set (entries p s) \<or> p = r \<and> e = fs_entry s q"
    using assms(2) by (auto simp: fs_rename_def split: option.splits if_splits)
  then show "safe_entry A e (fs_rename q r s)" using assms settledD[OF assms(1), of e] by auto
qed

text \<open>
  \<open>owned i p d s\<close>: inode \<open>i\<close> is found at \<open>p\<close> only, and only the descriptor \<open>d\<close> may write it.
\<close>

definition owned :: "nat \<Rightarrow> string \<Rightarrow> nat \<Rightarrow> fsys \<Rightarrow> bool" where
  "owned i p d s \<longleftrightarrow> fs_entry s p = Some i \<and> (\<forall>q. q \<noteq> p \<longrightarrow> Some i \<notin> set (entries q s)) \<and>
     (\<forall>e. e \<noteq> d \<longrightarrow> fs_open s e \<noteq> Some i)"

lemma owned_entry: "owned i p d s \<Longrightarrow> fs_entry s q = Some i \<longleftrightarrow> q = p"
  using entry_mem[of s q "Some i"] by (auto simp: owned_def)

lemma owned_open: "owned i p d s \<Longrightarrow> e \<noteq> d \<Longrightarrow> fs_open s e \<noteq> Some i"
  by (auto simp: owned_def)

text \<open>What a call of another writer leaves alone.\<close>

definition same_inode :: "nat \<Rightarrow> nat \<Rightarrow> fsys \<Rightarrow> fsys \<Rightarrow> bool" where
  "same_inode i d s s' \<longleftrightarrow>
     fs_data s' i = fs_data s i \<and> fs_synced s' i = fs_synced s i \<and> fs_open s' d = fs_open s d"

lemma owned_create:
  assumes "owned i p d s" and "fs_wf s" and "p \<noteq> q" and "d \<noteq> e" and "fs_entry s q = None"
  shows "owned i p d (fs_create e q s) \<and> same_inode i d s (fs_create e q s)"
proof -
  have "i < fs_next s" using assms(1,2) fs_wf_entry by (auto simp: owned_def)
  then show ?thesis using assms by (auto simp: owned_def same_inode_def fs_create_def)
qed

lemma owned_write:
  "owned i p d s \<Longrightarrow> d \<noteq> e \<Longrightarrow> owned i p d (fs_write e b s) \<and> same_inode i d s (fs_write e b s)"
  by (auto simp: owned_def same_inode_def fs_write_def split: option.split)

lemma owned_sync:
  "owned i p d s \<Longrightarrow> d \<noteq> e \<Longrightarrow> owned i p d (fs_sync e s) \<and> same_inode i d s (fs_sync e s)"
  by (auto simp: owned_def same_inode_def fs_sync_def split: option.split)

lemma owned_close:
  "owned i p d s \<Longrightarrow> d \<noteq> e \<Longrightarrow> owned i p d (fs_close e s) \<and> same_inode i d s (fs_close e s)"
  by (auto simp: owned_def same_inode_def fs_close_def)

lemma owned_remove:
  "owned i p d s \<Longrightarrow> p \<noteq> q \<Longrightarrow> owned i p d (fs_remove q s) \<and> same_inode i d s (fs_remove q s)"
  by (auto simp: owned_def same_inode_def fs_remove_def)

lemma owned_sync_dir:
  "owned i p d s \<Longrightarrow> owned i p d (fs_sync_dir q s) \<and> same_inode i d s (fs_sync_dir q s)"
  by (auto simp: owned_def same_inode_def dest: entries_sync_dir)

lemma owned_rename:
  assumes "owned i p d s" and "p \<noteq> q" and "p \<noteq> r"
  shows "owned i p d (fs_rename q r s) \<and> same_inode i d s (fs_rename q r s)"
proof -
  have "fs_entry s q \<noteq> Some i" using assms by (simp add: owned_entry)
  then show ?thesis using assms by (auto simp: owned_def same_inode_def fs_rename_def split: option.split)
qed

end
