(* ===== verification/Store.thy ===== *)
theory Store
  imports
    FileSys HostCache
begin

text \<open>
  \<open>internal/cache/store.go\<close>: the layout of the cache directory, \<open>AtomicWrite\<close> as a machine over the
  system calls it makes, the meta sidecar and the sweep of staging files.  What each system call answers
  is part of the writer's environment, so every error return of the code is a transition; any number of
  writers may be interleaved.  The lemmas show that no schedule, failure or crash exposes a torn file.
\<close>

section \<open>Store and its paths\<close>

record store =
  st_dir :: string

datatype store_error =
    EmptyDir
  | MkdirFailed string
  | EmptyKey
  | RandFailed
  | OpenTmpFailed
  | WriteTmpFailed
  | FsyncTmpFailed
  | CloseTmpFailed
  | RenameFailed
  | OpenDirFailed
  | FsyncDirFailed
  | NotExist
  | ReadFailed
  | MarshalFailed
  | DecodeFailed

definition raw_path :: "store \<Rightarrow> string \<Rightarrow> string" where
  "raw_path st key = path_join [st_dir st, ''raw'', key]"

definition meta_path :: "store \<Rightarrow> string \<Rightarrow> string" where
  "meta_path st key = path_join [st_dir st, ''raw'', key @ ''.meta'']"

definition parsed_path :: "store \<Rightarrow> string \<Rightarrow> string" where
  "parsed_path st name = path_join [st_dir st, ''parsed'', name]"

definition lock_path :: "store \<Rightarrow> string" where
  "lock_path st = path_join [st_dir st, ''lock'', ''update.lock'']"

definition tmp_dir :: "store \<Rightarrow> string" where
  "tmp_dir st = path_join [st_dir st, ''tmp'']"

text \<open>\<open>New\<close>; \<open>mk\<close> is the outcome of \<open>MkdirAll\<close> on a path.\<close>

fun make_dirs :: "(string \<Rightarrow> bool) \<Rightarrow> string \<Rightarrow> string list \<Rightarrow> fsys \<Rightarrow> store_error option \<times> fsys" where
  "make_dirs mk dir [] s = (None, s)"
| "make_dirs mk dir (sub # subs) s =
     (let p = path_join [dir, sub] in
      if mk p then make_dirs mk dir subs (fs_mkdir p s) else (Some (MkdirFailed sub), s))"

definition new_store :: "(string \<Rightarrow> bool) \<Rightarrow> string \<Rightarrow> fsys \<Rightarrow> (store_error + store) \<times> fsys" where
  "new_store mk dir s =
     (if dir = [] then (Inl EmptyDir, s)
      else case make_dirs mk dir [''raw'', ''parsed'', ''lock'', ''tmp''] s of
          (Some e, s') \<Rightarrow> (Inl e, s')
        | (None, s') \<Rightarrow> (Inr \<lparr>st_dir = dir\<rparr>, s'))"

section \<open>AtomicWrite\<close>

text \<open>What the random source and the system calls of one call of \<open>AtomicWrite\<close> answer.\<close>

record write_env =
  we_rand :: "bytes option"
  we_open :: bool
  we_write :: "nat option"
  we_sync :: bool
  we_close :: bool
  we_rename :: bool
  we_windows :: bool
  we_opendir :: bool
  we_syncdir :: bool
  we_remove :: bool

definition new_tmp :: "store \<Rightarrow> string \<Rightarrow> bytes option \<Rightarrow> store_error + string" where
  "new_tmp st key r =
     (case r of
        None \<Rightarrow> Inl RandFailed
      | Some b \<Rightarrow> Inr (path_join [tmp_dir st, path_base key @ ''.'' @ hex_text b]))"

text \<open>A call of \<open>AtomicWrite\<close> under way: its two paths, its payload and its descriptor.\<close>

record writer =
  wr_dst :: string
  wr_data :: bytes
  wr_tmp :: string
  wr_fd :: nat
  wr_env :: write_env

definition atomic_start :: "store \<Rightarrow> string \<Rightarrow> bytes \<Rightarrow> nat \<Rightarrow> write_env \<Rightarrow> store_error + writer" where
  "atomic_start st key data fd env =
     (if key = [] then Inl EmptyKey
      else case new_tmp st key (we_rand env) of
          Inl e \<Rightarrow> Inl e
        | Inr tmp \<Rightarrow>
            Inr \<lparr>wr_dst = raw_path st key, wr_data = data, wr_tmp = tmp, wr_fd = fd, wr_env = env\<rparr>)"

datatype aw_pc =
    AtOpen
  | AtWrite
  | AtSync
  | AtClose
  | AtRename
  | AtSyncDir
  | AtAbort store_error
  | AtCleanup store_error
  | Finished "store_error option"

definition sync_dir_result :: "write_env \<Rightarrow> store_error option" where
  "sync_dir_result env =
     (if we_windows env then None
      else if \<not> we_opendir env then Some OpenDirFailed
      else if \<not> we_syncdir env then Some FsyncDirFailed
      else None)"

fun atomic_step :: "writer \<Rightarrow> aw_pc \<Rightarrow> fsys \<Rightarrow> aw_pc \<times> fsys" where
  "atomic_step w AtOpen s =
     (if we_open (wr_env w) then (AtWrite, fs_create (wr_fd w) (wr_tmp w) s)
      else (AtCleanup OpenTmpFailed, s))"
| "atomic_step w AtWrite s =
     (case we_write (wr_env w) of
        None \<Rightarrow> (AtSync, fs_write (wr_fd w) (wr_data w) s)
      | Some n \<Rightarrow> (AtAbort WriteTmpFailed, fs_write (wr_fd w) (take n (wr_data w)) s))"
| "atomic_step w AtSync s =
     (if we_sync (wr_env w) then (AtClose, fs_sync (wr_fd w) s) else (AtAbort FsyncTmpFailed, s))"
| "atomic_step w AtClose s =
     (if we_close (wr_env w) then AtRename else AtCleanup CloseTmpFailed, fs_close (wr_fd w) s)"
| "atomic_step w AtRename s =
     (if we_rename (wr_env w) then (AtSyncDir, fs_rename (wr_tmp w) (wr_dst w) s)
      else (AtCleanup RenameFailed, s))"
| "atomic_step w AtSyncDir s =
     (Finished (sync_dir_result (wr_env w)),
      if we_windows (wr_env w) \<or> \<not> we_opendir (wr_env w) \<or> \<not> we_syncdir (wr_env w) then s
      else fs_sync_dir (path_dir (wr_dst w)) s)"
| "atomic_step w (AtAbort e) s = (AtCleanup e, fs_close (wr_fd w) s)"
| "atomic_step w (AtCleanup e) s =
     (Finished (Some e), if we_remove (wr_env w) then fs_remove (wr_tmp w) s else s)"
| "atomic_step w (Finished r) s = (Finished r, s)"

text \<open>The call runs to its end in at most six steps.\<close>

fun steps_left :: "aw_pc \<Rightarrow> nat" where
  "steps_left AtOpen = 6"
| "steps_left AtWrite = 5"
| "steps_left AtSync = 4"
| "steps_left AtClose = 3"
| "steps_left AtRename = 2"
| "steps_left AtSyncDir = 1"
| "steps_left (AtAbort e) = 2"
| "steps_left (AtCleanup e) = 1"
| "steps_left (Finished r) = 0"

lemma steps_left_step: "steps_left pc \<noteq> 0 \<Longrightarrow> steps_left (fst (atomic_step w pc s)) < steps_left pc"
  by (cases pc) (auto split: option.split)

function atomic_run :: "writer \<Rightarrow> aw_pc \<Rightarrow> fsys \<Rightarrow> store_error option \<times> fsys" where
  "atomic_run w pc s =
     (case pc of
        Finished r \<Rightarrow> (r, s)
      | _ \<Rightarrow> (case atomic_step w pc s of (pc', s') \<Rightarrow> atomic_run w pc' s'))"
  by pat_completeness auto
termination
  by (relation "measure (\<lambda>(w, pc, s). steps_left pc)") (auto split: option.splits if_splits)

declare atomic_run.simps [simp del]

definition atomic_write ::
  "store \<Rightarrow> string \<Rightarrow> bytes \<Rightarrow> nat \<Rightarrow> write_env \<Rightarrow> fsys \<Rightarrow> store_error option \<times> fsys" where
  "atomic_write st key data fd env s =
     (case atomic_start st key data fd env of
        Inl e \<Rightarrow> (Some e, s)
      | Inr w \<Rightarrow> atomic_run w AtOpen s)"

section \<open>Interleaved writers\<close>

text \<open>
  A configuration is the position of every writer and the file system they share; a schedule names the
  writer that moves next.
\<close>

fun run_schedule :: "writer list \<Rightarrow> nat list \<Rightarrow> aw_pc list \<times> fsys \<Rightarrow> aw_pc list \<times> fsys" where
  "run_schedule ws [] cfg = cfg"
| "run_schedule ws (k # ks) (pcs, s) =
     (if k < length ws
      then (case atomic_step (ws ! k) (pcs ! k) s of (pc', s') \<Rightarrow> run_schedule ws ks (pcs[k := pc'], s'))
      else run_schedule ws ks (pcs, s))"

section \<open>Meta sidecar\<close>

record file_meta =
  mt_ETag :: string
  mt_LastModified :: string
  mt_SHA256 :: string
  mt_FetchedAt :: int
  mt_Bytes :: int

definition no_meta :: file_meta where
  "no_meta = \<lparr>mt_ETag = [], mt_LastModified = [], mt_SHA256 = [], mt_FetchedAt = zero_time, mt_Bytes = 0\<rparr>"

definition meta_json :: "file_meta \<Rightarrow> json" where
  "meta_json m =
     JObj [(''etag'', JStr (mt_ETag m)), (''last_modified'', JStr (mt_LastModified m)),
           (''sha256'', JStr (mt_SHA256 m)), (''fetched_at'', JStr (fmt_time 0 (mt_FetchedAt m))),
           (''bytes'', JNum (int64_text (mt_Bytes m)))]"

definition encode_meta :: "file_meta \<Rightarrow> bytes option" where
  "encode_meta m =
     (if year_in_range 0 (mt_FetchedAt m) then Some (json_out (Some 0) (meta_json m)) else None)"

definition decode_meta :: "bytes \<Rightarrow> file_meta option" where
  "decode_meta data =
     Option.bind (json_parse data) (\<lambda>v.
     Option.bind (struct_members v) (\<lambda>ms.
     Option.bind (dec_field dec_string ''etag'' [] ms) (\<lambda>etag.
     Option.bind (dec_field dec_string ''last_modified'' [] ms) (\<lambda>lm.
     Option.bind (dec_field dec_string ''sha256'' [] ms) (\<lambda>sha.
     Option.bind (dec_field dec_time ''fetched_at'' zero_time ms) (\<lambda>t.
     Option.bind (dec_field dec_int64 ''bytes'' 0 ms) (\<lambda>n.
       Some \<lparr>mt_ETag = etag, mt_LastModified = lm, mt_SHA256 = sha, mt_FetchedAt = t, mt_Bytes = n\<rparr>)))))))"

text \<open>\<open>ok\<close> is whether the read reaches the file at all.\<close>

definition read_file :: "bool \<Rightarrow> string \<Rightarrow> fsys \<Rightarrow> store_error + bytes" where
  "read_file ok p s =
     (if ok then (case fs_read p s of None \<Rightarrow> Inl NotExist | Some b \<Rightarrow> Inr b) else Inl ReadFailed)"

definition read_raw :: "bool \<Rightarrow> store \<Rightarrow> string \<Rightarrow> fsys \<Rightarrow> store_error + bytes" where
  "read_raw ok st key s = read_file ok (raw_path st key) s"

definition stat_raw :: "bool \<Rightarrow> store \<Rightarrow> string \<Rightarrow> fsys \<Rightarrow> store_error + nat" where
  "stat_raw ok st key s =
     (case read_file ok (raw_path st key) s of Inl e \<Rightarrow> Inl e | Inr b \<Rightarrow> Inr (length b))"

definition write_meta ::
  "store \<Rightarrow> string \<Rightarrow> file_meta \<Rightarrow> nat \<Rightarrow> write_env \<Rightarrow> fsys \<Rightarrow> store_error option \<times> fsys" where
  "write_meta st key m fd env s =
     (case encode_meta m of
        None \<Rightarrow> (Some MarshalFailed, s)
      | Some b \<Rightarrow> atomic_write st (key @ ''.meta'') b fd env s)"

definition read_meta :: "bool \<Rightarrow> store \<Rightarrow> string \<Rightarrow> fsys \<Rightarrow> store_error + file_meta" where
  "read_meta ok st key s =
     (case read_file ok (meta_path st key) s of
        Inl e \<Rightarrow> Inl e
      | Inr b \<Rightarrow> (case decode_meta b of None \<Rightarrow> Inl DecodeFailed | Some m \<Rightarrow> Inr m))"

section \<open>SweepTmp\<close>

text \<open>
  \<open>es\<close> is what \<open>ReadDir\<close> lists of the staging directory: a name and whether \<open>Info\<close> and \<open>Remove\<close>
  answer without error.
\<close>

fun sweep_entries ::
  "store \<Rightarrow> int \<Rightarrow> (string \<times> bool \<times> bool) list \<Rightarrow> store_error option \<Rightarrow> fsys \<Rightarrow> store_error option \<times> fsys" where
  "sweep_entries st cutoff [] err s = (err, s)"
| "sweep_entries st cutoff ((name, info, rm) # es) err s =
     (let p = path_join [tmp_dir st, name];
          err' = (if err = None then Some ReadFailed else err) in
      case fs_entry s p of
        None \<Rightarrow> sweep_entries st cutoff es err' s
      | Some i \<Rightarrow>
          if \<not> info then sweep_entries st cutoff es err' s
          else if fs_mtime s i < cutoff then
            (if rm then sweep_entries st cutoff es err (fs_remove p s) else sweep_entries st cutoff es err' s)
          else sweep_entries st cutoff es err s)"

definition sweep_tmp ::
  "store \<Rightarrow> int \<Rightarrow> store_error + (string \<times> bool \<times> bool) list \<Rightarrow> fsys \<Rightarrow> store_error option \<times> fsys" where
  "sweep_tmp st older listing s =
     (case listing of
        Inl NotExist \<Rightarrow> (None, s)
      | Inl e \<Rightarrow> (Some e, s)
      | Inr es \<Rightarrow> sweep_entries st (fs_now s - older) es None s)"


section \<open>Safety of interleaved writers\<close>

text \<open>Paths and descriptors are not shared between the writers of a group.\<close>

definition apart :: "writer list \<Rightarrow> bool" where
  "apart ws \<longleftrightarrow> distinct (map wr_tmp ws) \<and> distinct (map wr_fd ws) \<and> set (map wr_dst ws) \<inter> set (map wr_tmp ws) = {}"

lemma apart_tmp: "apart ws \<Longrightarrow> i < length ws \<Longrightarrow> j < length ws \<Longrightarrow> i \<noteq> j \<Longrightarrow> wr_tmp (ws ! i) \<noteq> wr_tmp (ws ! j)"
  by (auto simp: apart_def distinct_conv_nth)

lemma apart_fd: "apart ws \<Longrightarrow> i < length ws \<Longrightarrow> j < length ws \<Longrightarrow> i \<noteq> j \<Longrightarrow> wr_fd (ws ! i) \<noteq> wr_fd (ws ! j)"
  by (auto simp: apart_def distinct_conv_nth)

lemma apart_dst: "apart ws \<Longrightarrow> i < length ws \<Longrightarrow> j < length ws \<Longrightarrow> wr_dst (ws ! i) \<noteq> wr_tmp (ws ! j)"
  unfolding apart_def by (metis disjoint_iff length_map nth_map nth_mem)

text \<open>What a writer knows about its staging file at each position.\<close>

fun staged :: "writer \<Rightarrow> aw_pc \<Rightarrow> fsys \<Rightarrow> bool" where
  "staged w AtOpen s = (fs_entry s (wr_tmp w) = None)"
| "staged w AtWrite s =
     (\<exists>i. owned i (wr_tmp w) (wr_fd w) s \<and> fs_open s (wr_fd w) = Some i \<and> fs_data s i = [])"
| "staged w AtSync s =
     (\<exists>i. owned i (wr_tmp w) (wr_fd w) s \<and> fs_open s (wr_fd w) = Some i \<and> fs_data s i = wr_data w)"
| "staged w AtClose s =
     (\<exists>i. owned i (wr_tmp w) (wr_fd w) s \<and> fs_open s (wr_fd w) = Some i \<and> fs_data s i = wr_data w \<and> fs_synced s i)"
| "staged w AtRename s =
     (\<exists>i. owned i (wr_tmp w) (wr_fd w) s \<and> fs_open s (wr_fd w) = None \<and> fs_data s i = wr_data w \<and> fs_synced s i)"
| "staged w pc s = True"

lemma staged_frame:
  assumes "staged w pc s"
    and "\<And>i. owned i (wr_tmp w) (wr_fd w) s \<Longrightarrow>
      owned i (wr_tmp w) (wr_fd w) s' \<and> same_inode i (wr_fd w) s s'"
    and "fs_entry s (wr_tmp w) = None \<Longrightarrow> fs_entry s' (wr_tmp w) = None"
  shows "staged w pc s'"
  using assms by (cases pc) (auto simp: same_inode_def, (metis (full_types))+)

lemma entry_create: "fs_entry s q = None \<Longrightarrow> fs_entry (fs_create e q s) p = (if p = q then Some (fs_next s) else fs_entry s p)"
  by (simp add: fs_create_def)

lemma entry_ops [simp]:
  "fs_entry (fs_write d b s) = fs_entry s" "fs_entry (fs_sync d s) = fs_entry s" "fs_entry (fs_close d s) = fs_entry s"
  by (auto simp: fs_defs split: option.split)

lemma entry_remove: "fs_entry (fs_remove q s) p = (if p = q then None else fs_entry s p)"
  by (auto simp: fs_remove_def)

lemma entry_rename: "p \<noteq> r \<Longrightarrow> fs_entry s p = None \<Longrightarrow> fs_entry (fs_rename q r s) p = None"
  by (auto simp: fs_rename_def split: option.split)

text \<open>A step of one writer keeps what another knows.\<close>

lemma staged_other:
  assumes "staged v pv s" and "fs_wf s" and "staged w pc s"
    and "wr_tmp v \<noteq> wr_tmp w" and "wr_fd v \<noteq> wr_fd w" and "wr_dst w \<noteq> wr_tmp v"
  shows "staged v pv (snd (atomic_step w pc s))"
proof (rule staged_frame[OF assms(1)])
  show "owned i (wr_tmp v) (wr_fd v) (snd (atomic_step w pc s)) \<and> same_inode i (wr_fd v) s (snd (atomic_step w pc s))"
    if o: "owned i (wr_tmp v) (wr_fd v) s" for i
    using assms o owned_create[OF o, of "wr_tmp w" "wr_fd w"] owned_write[OF o, of "wr_fd w"]
      owned_sync[OF o, of "wr_fd w"] owned_close[OF o, of "wr_fd w"] owned_remove[OF o, of "wr_tmp w"]
      owned_sync_dir[OF o] owned_rename[OF o, of "wr_tmp w" "wr_dst w"]
    by (cases pc) (simp_all add: same_inode_def split: option.split)
  show "fs_entry (snd (atomic_step w pc s)) (wr_tmp v) = None" if "fs_entry s (wr_tmp v) = None"
    using that assms by (cases pc) (simp_all add: entry_create entry_remove entry_rename split: option.split)
qed

lemma fs_wf_step: "fs_wf s \<Longrightarrow> fs_wf (snd (atomic_step w pc s))"
  by (cases pc) (auto simp: fs_wf_ops split: option.split)

text \<open>A step of a writer keeps what it knows itself.\<close>

lemma owned_new: "fs_wf s \<Longrightarrow> fs_entry s p = None \<Longrightarrow> owned (fs_next s) p d (fs_create d p s)"
  by (auto simp: owned_def fs_create_def dest: fs_wf_mem fs_wf_open)

lemma staged_self:
  assumes "staged w pc s" and "fs_wf s"
  shows "staged w (fst (atomic_step w pc s)) (snd (atomic_step w pc s))"
proof (cases pc)
  case AtOpen
  have "fs_data (fs_create (wr_fd w) (wr_tmp w) s) (fs_next s) = [] \<and>
    fs_open (fs_create (wr_fd w) (wr_tmp w) s) (wr_fd w) = Some (fs_next s)"
    using assms AtOpen by (simp add: fs_create_def)
  then show ?thesis using assms AtOpen owned_new by auto
next
  case AtWrite
  then show ?thesis using assms by (auto simp: owned_def fs_write_def split: option.split)
next
  case AtSync
  then show ?thesis using assms by (auto simp: owned_def fs_sync_def)
next
  case AtClose
  then show ?thesis using assms by (auto simp: owned_def fs_close_def)
qed auto

text \<open>
  The invariant of a configuration, seen from one path: \<open>A\<close> holds what the path had at the start and what
  the writers to it want to put there.
\<close>

definition write_inv :: "writer list \<Rightarrow> bytes option set \<Rightarrow> string \<Rightarrow> aw_pc list \<times> fsys \<Rightarrow> bool" where
  "write_inv ws A p cfg \<longleftrightarrow>
     fs_wf (snd cfg) \<and> length (fst cfg) = length ws \<and> settled A p (snd cfg) \<and>
     (\<forall>i < length ws. staged (ws ! i) (fst cfg ! i) (snd cfg))"

lemma settled_step:
  assumes "settled A p s" and "fs_wf s" and "staged w pc s" and "p \<noteq> wr_tmp w"
    and "wr_dst w = p \<Longrightarrow> Some (wr_data w) \<in> A"
  shows "settled A p (snd (atomic_step w pc s))"
proof (cases pc)
  case AtOpen
  then show ?thesis using assms by (simp add: settled_create)
next
  case AtRename
  then obtain i where i: "owned i (wr_tmp w) (wr_fd w) s" "fs_open s (wr_fd w) = None" "fs_data s i = wr_data w" "fs_synced s i"
    using assms(3) by auto
  have "fs_open s d \<noteq> Some i" for d using i(1,2) owned_open[of i] by (cases "d = wr_fd w") auto
  then have "safe_entry A (fs_entry s (wr_tmp w)) s" if "p = wr_dst w"
    using i assms(5) that by (simp add: safe_entry_def owned_def)
  then show ?thesis using AtRename assms(1,4) by (simp add: settled_rename)
qed (use assms in \<open>auto simp: settled_write settled_sync settled_close settled_remove settled_sync_dir split: option.split\<close>)

lemma write_inv_step:
  assumes inv: "write_inv ws A p (pcs, s)" and "apart ws" and "p \<notin> wr_tmp ` set ws"
    and A: "\<And>w. w \<in> set ws \<Longrightarrow> wr_dst w = p \<Longrightarrow> Some (wr_data w) \<in> A"
    and k: "k < length ws" and step: "atomic_step (ws ! k) (pcs ! k) s = (pc', s')"
  shows "write_inv ws A p (pcs[k := pc'], s')"
proof -
  have w: "ws ! k \<in> set ws" "wr_tmp (ws ! k) \<noteq> p" using k assms(3) by (auto simp: image_iff)
  have st: "staged (ws ! k) (pcs ! k) s" "fs_wf s" and s': "s' = snd (atomic_step (ws ! k) (pcs ! k) s)"
    "pc' = fst (atomic_step (ws ! k) (pcs ! k) s)"
    using inv k step by (simp_all add: write_inv_def)
  have "staged (ws ! i) (pcs[k := pc'] ! i) s'" if "i < length ws" for i
  proof (cases "i = k")
    case True
    then show ?thesis using staged_self[OF st] inv k s' by (simp add: write_inv_def)
  next
    case False
    then have "staged (ws ! i) (pcs ! i) s'"
      unfolding s' using inv that k apart_tmp[OF assms(2)] apart_fd[OF assms(2)] apart_dst[OF assms(2)] st
      by (intro staged_other) (auto simp: write_inv_def)
    then show ?thesis using False by simp
  qed
  moreover have "settled A p s'"
    unfolding s' using inv A[OF w(1)] st w(2) by (intro settled_step) (auto simp: write_inv_def)
  ultimately show ?thesis using inv s' fs_wf_step[OF st(2)] by (simp add: write_inv_def)
qed

lemma write_inv_run:
  assumes "write_inv ws A p cfg" and "apart ws" and "p \<notin> wr_tmp ` set ws"
    and "\<And>w. w \<in> set ws \<Longrightarrow> wr_dst w = p \<Longrightarrow> Some (wr_data w) \<in> A"
  shows "write_inv ws A p (run_schedule ws ks cfg)"
  using assms(1)
proof (induction ks arbitrary: cfg)
  case (Cons k ks)
  obtain pcs s where cfg: "cfg = (pcs, s)" by (cases cfg)
  show ?case
    using Cons.IH Cons.prems write_inv_step[OF Cons.prems[unfolded cfg] assms(2,3,4), of k]
    by (auto simp: cfg split: prod.split)
qed simp


text \<open>The same for the entry the path has now.\<close>

lemma current_step:
  assumes "safe_entry A (fs_entry s p) s" and "fs_wf s" and "staged w pc s" and "p \<noteq> wr_tmp w"
    and "wr_dst w = p \<Longrightarrow> Some (wr_data w) \<in> A"
  shows "safe_entry A (fs_entry (snd (atomic_step w pc s)) p) (snd (atomic_step w pc s))"
proof (cases pc)
  case AtOpen
  have "fs_entry s p \<noteq> Some (fs_next s)" using fs_wf_entry[OF assms(2), of p] by auto
  then show ?thesis using AtOpen assms by (simp add: safe_entry_create entry_create)
next
  case AtRename
  then obtain i where i: "owned i (wr_tmp w) (wr_fd w) s" "fs_open s (wr_fd w) = None" "fs_data s i = wr_data w" "fs_synced s i"
    using assms(3) by auto
  have "fs_open s d \<noteq> Some i" for d using i(1,2) owned_open[of i] by (cases "d = wr_fd w") auto
  then have "safe_entry A (Some i) s" if "p = wr_dst w"
    using i assms(5) that by (simp add: safe_entry_def)
  moreover have "fs_entry (fs_rename (wr_tmp w) (wr_dst w) s) p = (if p = wr_dst w then Some i else fs_entry s p)"
    using i(1) assms(4) by (auto simp: fs_rename_def owned_def)
  ultimately show ?thesis using AtRename assms(1) by simp
qed (use assms in \<open>auto simp: safe_entry_write safe_entry_sync safe_entry_close entry_remove split: option.split\<close>)

text \<open>Once a writer to the path is past its rename, or has synchronised the directory, only new values remain.\<close>

definition published :: "writer list \<Rightarrow> bytes option set \<Rightarrow> string \<Rightarrow> aw_pc list \<times> fsys \<Rightarrow> bool" where
  "published ws B p cfg \<longleftrightarrow>
     (\<forall>i < length ws. wr_dst (ws ! i) = p \<longrightarrow>
        (fst cfg ! i \<in> {AtSyncDir, Finished None} \<longrightarrow> safe_entry B (fs_entry (snd cfg) p) (snd cfg)) \<and>
        (fst cfg ! i = Finished None \<and> \<not> we_windows (wr_env (ws ! i)) \<longrightarrow> settled B p (snd cfg)))"

lemma renamed_safe:
  assumes "staged w AtRename s" and "wr_dst w \<noteq> wr_tmp w" and "Some (wr_data w) \<in> B"
  shows "safe_entry B (fs_entry (fs_rename (wr_tmp w) (wr_dst w) s) (wr_dst w)) s"
proof -
  obtain i where i: "owned i (wr_tmp w) (wr_fd w) s" "fs_open s (wr_fd w) = None" "fs_data s i = wr_data w" "fs_synced s i"
    using assms(1) by auto
  have "fs_open s d \<noteq> Some i" for d using i(1,2) owned_open[of i] by (cases "d = wr_fd w") auto
  then show ?thesis using i assms(2,3) by (simp add: safe_entry_def fs_rename_def owned_def)
qed

lemma sync_dir_settled: "safe_entry B (fs_entry s p) s \<Longrightarrow> settled B p (fs_sync_dir (path_dir p) s)"
  by (simp add: settled_def entries_def) (simp add: fs_sync_dir_def)

lemma published_mover:
  assumes "staged w pc s" and "wr_dst w \<noteq> wr_tmp w" and "Some (wr_data w) \<in> B"
    and old: "pc \<in> {AtSyncDir, Finished None} \<longrightarrow> safe_entry B (fs_entry s (wr_dst w)) s"
      "pc = Finished None \<and> \<not> we_windows (wr_env w) \<longrightarrow> settled B (wr_dst w) s"
    and step: "atomic_step w pc s = (pc', s')"
  shows "(pc' \<in> {AtSyncDir, Finished None} \<longrightarrow> safe_entry B (fs_entry s' (wr_dst w)) s') \<and>
    (pc' = Finished None \<and> \<not> we_windows (wr_env w) \<longrightarrow> settled B (wr_dst w) s')"
proof (cases pc)
  case AtRename
  then show ?thesis
    using step renamed_safe[OF _ assms(2,3), of s] assms(1) by (auto split: if_splits)
next
  case AtSyncDir
  then show ?thesis
    using step old sync_dir_settled[of B s "wr_dst w"] by (auto simp: sync_dir_result_def split: if_splits)
qed (use step old in \<open>auto split: if_splits option.splits\<close>)

lemma published_step:
  assumes inv: "write_inv ws A p (pcs, s)" and pub: "published ws B p (pcs, s)" and ap: "apart ws"
    and p: "p \<notin> wr_tmp ` set ws"
    and B: "\<And>w. w \<in> set ws \<Longrightarrow> wr_dst w = p \<Longrightarrow> Some (wr_data w) \<in> B"
    and k: "k < length ws" and step: "atomic_step (ws ! k) (pcs ! k) s = (pc', s')"
  shows "published ws B p (pcs[k := pc'], s')"
proof -
  let ?w = "ws ! k"
  have w: "?w \<in> set ws" "p \<noteq> wr_tmp ?w" and st: "staged ?w (pcs ! k) s" "fs_wf s" and len: "length pcs = length ws"
    and s': "s' = snd (atomic_step ?w (pcs ! k) s)"
    using inv k p step by (auto simp: write_inv_def)
  show ?thesis unfolding published_def fst_conv snd_conv
  proof (intro allI impI)
    fix i assume i: "i < length ws" and d: "wr_dst (ws ! i) = p"
    have pubi: "pcs ! i \<in> {AtSyncDir, Finished None} \<longrightarrow> safe_entry B (fs_entry s p) s"
      "pcs ! i = Finished None \<and> \<not> we_windows (wr_env (ws ! i)) \<longrightarrow> settled B p s"
      using pub i d by (simp_all add: published_def)
    show "(pcs[k := pc'] ! i \<in> {AtSyncDir, Finished None} \<longrightarrow> safe_entry B (fs_entry s' p) s') \<and>
      (pcs[k := pc'] ! i = Finished None \<and> \<not> we_windows (wr_env (ws ! i)) \<longrightarrow> settled B p s')"
    proof (cases "i = k")
      case True
      then have "wr_dst ?w = p" using d by simp
      then show ?thesis
        using published_mover[OF st(1) _ _ _ _ step, of B] pubi B[OF w(1)] w(2) True k len by simp
    next
      case False
      then show ?thesis
        using pubi current_step[OF _ st(2,1) w(2) B[OF w(1)]] settled_step[OF _ st(2,1) w(2) B[OF w(1)]] s' by simp
    qed
  qed
qed

lemma published_run:
  assumes "write_inv ws A p cfg" and "published ws B p cfg" and "apart ws" and "p \<notin> wr_tmp ` set ws"
    and "\<And>w. w \<in> set ws \<Longrightarrow> wr_dst w = p \<Longrightarrow> Some (wr_data w) \<in> A \<inter> B"
  shows "published ws B p (run_schedule ws ks cfg)"
  using assms(1,2)
proof (induction ks arbitrary: cfg)
  case (Cons k ks)
  obtain pcs s where cfg: "cfg = (pcs, s)" by (cases cfg)
  show ?case
    using Cons.IH Cons.prems write_inv_step[OF Cons.prems(1)[unfolded cfg] assms(3,4), of k] assms(5)
      published_step[OF Cons.prems(1,2)[unfolded cfg] assms(3,4), of k]
    by (auto simp: cfg split: prod.split)
qed simp

text \<open>A group of writers about to start on a quiet path.\<close>

definition ready :: "writer list \<Rightarrow> string \<Rightarrow> fsys \<Rightarrow> bool" where
  "ready ws p s \<longleftrightarrow> fs_wf s \<and> apart ws \<and> p \<notin> wr_tmp ` set ws \<and> (\<forall>w \<in> set ws. fs_entry s (wr_tmp w) = None) \<and>
     settled {fs_read p s} p s"

definition start_of :: "writer list \<Rightarrow> fsys \<Rightarrow> aw_pc list \<times> fsys" where
  "start_of ws s = (replicate (length ws) AtOpen, s)"

definition payloads :: "writer list \<Rightarrow> string \<Rightarrow> bytes option set" where
  "payloads ws p = set (map (\<lambda>w. Some (wr_data w)) (filter (\<lambda>w. wr_dst w = p) ws))"

lemma ready_inv: "ready ws p s \<Longrightarrow> write_inv ws (insert (fs_read p s) (payloads ws p)) p (start_of ws s)"
  by (auto simp: ready_def write_inv_def start_of_def intro: settled_mono)

lemma payloads_mem: "w \<in> set ws \<Longrightarrow> wr_dst w = p \<Longrightarrow> Some (wr_data w) \<in> payloads ws p"
  by (auto simp: payloads_def)

section \<open>The paths of the store\<close>

lemma hex_digit_plain: "k < 16 \<Longrightarrow> hex_digit k \<noteq> CHR ''/''"
proof -
  assume "k < 16"
  then have "k \<in> set [0..<16]" by simp
  moreover have "\<forall>j \<in> set [0..<16]. hex_digit j \<noteq> CHR ''/''" by code_simp
  ultimately show ?thesis by blast
qed

lemma hex_text_plain: "CHR ''/'' \<notin> set (hex_text b)"
proof -
  have "hex_digit (of_char c div 16) \<noteq> CHR ''/''" "hex_digit (of_char c mod 16) \<noteq> CHR ''/''" for c :: char
    using of_char_less_256[of c] by (simp_all add: hex_digit_plain less_mult_imp_div_less)
  then show ?thesis by (auto simp: hex_text_def dest: sym)
qed

lemma staging_plain: "plain_name key \<Longrightarrow> plain_name (path_base key @ ''.'' @ hex_text b)"
  using hex_text_plain[of b] by (auto simp: path_base_plain, auto simp: plain_name_def append_eq_Cons_conv)

definition plain_store :: "store \<Rightarrow> bool" where
  "plain_store st \<longleftrightarrow> st_dir st \<noteq> []"

lemma raw_path_last: "plain_store st \<Longrightarrow> plain_name key \<Longrightarrow> after_last CHR ''/'' (raw_path st key) = key"
  by (simp add: raw_path_def plain_store_def path_join_last2 plain_name_def)

lemma tmp_dir_not_Nil: "plain_store st \<Longrightarrow> tmp_dir st \<noteq> []"
proof
  assume st: "plain_store st" and "tmp_dir st = []"
  moreover have "after_last CHR ''/'' (tmp_dir st) = ''tmp''"
    unfolding tmp_dir_def using st by (intro path_join_last) (simp_all add: plain_store_def plain_name_def)
  ultimately show False by (simp add: after_last_def)
qed

lemma new_tmp_last:
  assumes "plain_store st" and "plain_name key" and "new_tmp st key r = Inr tmp"
  shows "\<exists>b. r = Some b \<and> after_last CHR ''/'' tmp = key @ ''.'' @ hex_text b"
proof -
  obtain b where b: "r = Some b" "tmp = path_join [tmp_dir st, path_base key @ ''.'' @ hex_text b]"
    using assms(3) by (cases r) (auto simp: new_tmp_def)
  have "after_last CHR ''/'' tmp = path_base key @ ''.'' @ hex_text b"
    unfolding b by (rule path_join_last[OF tmp_dir_not_Nil[OF assms(1)] staging_plain[OF assms(2)]])
  then show ?thesis using b assms(2) by (simp add: path_base_plain)
qed

text \<open>A staging file is never a raw file of its own key.\<close>

lemma start_apart:
  assumes "plain_store st" and "plain_name key" and "atomic_start st key data fd env = Inr w"
  shows "wr_tmp w \<noteq> raw_path st key" and "wr_dst w = raw_path st key" and "wr_data w = data"
    and "wr_env w = env" and "wr_fd w = fd"
proof -
  obtain tmp where t: "new_tmp st key (we_rand env) = Inr tmp"
    "w = \<lparr>wr_dst = raw_path st key, wr_data = data, wr_tmp = tmp, wr_fd = fd, wr_env = env\<rparr>"
    using assms(3) by (auto simp: atomic_start_def split: if_splits sum.splits)
  then show "wr_tmp w \<noteq> raw_path st key"
    using new_tmp_last[OF assms(1,2) t(1)] raw_path_last[OF assms(1,2)] by auto
qed (use assms in \<open>auto simp: atomic_start_def split: if_splits sum.splits\<close>)

section \<open>One call of AtomicWrite\<close>

text \<open>The state after the staging file has been written, synchronised and closed.\<close>

definition writing :: "writer \<Rightarrow> bytes \<Rightarrow> fsys \<Rightarrow> fsys \<Rightarrow> bool" where
  "writing w b s s' \<longleftrightarrow>
     fs_entry s' (wr_tmp w) = Some (fs_next s) \<and> fs_data s' (fs_next s) = b \<and>
     (\<forall>p. p \<noteq> wr_tmp w \<longrightarrow> fs_entry s' p = fs_entry s p) \<and> (\<forall>i < fs_next s. fs_data s' i = fs_data s i)"

lemma writing_create:
  "fs_entry s (wr_tmp w) = None \<Longrightarrow>
   writing w [] s (fs_create (wr_fd w) (wr_tmp w) s) \<and> fs_open (fs_create (wr_fd w) (wr_tmp w) s) (wr_fd w) = Some (fs_next s)"
  by (simp add: writing_def fs_create_def)

lemma writing_write:
  "writing w [] s s' \<Longrightarrow> fs_open s' (wr_fd w) = Some (fs_next s) \<Longrightarrow>
   writing w b s (fs_write (wr_fd w) b s') \<and> fs_open (fs_write (wr_fd w) b s') (wr_fd w) = Some (fs_next s)"
  by (simp add: writing_def fs_write_def)

lemma writing_sync: "writing w b s s' \<Longrightarrow> writing w b s (fs_sync d s')"
  by (simp add: writing_def fs_sync_def split: option.split)

lemma writing_close: "writing w b s s' \<Longrightarrow> writing w b s (fs_close d s')"
  by (simp add: writing_def fs_close_def)

lemma writing_reads:
  assumes "writing w b s s'" and "fs_wf s" and "p \<noteq> wr_tmp w"
  shows "fs_read p s' = fs_read p s"
  using assms fs_wf_entry[OF assms(2), of p] by (cases "fs_entry s p") (auto simp: writing_def fs_read_def)

lemma fs_read_remove: "fs_read p (fs_remove q s) = (if p = q then None else fs_read p s)"
  by (auto simp: fs_read_def fs_remove_def)

lemma fs_read_sync_dir [simp]: "fs_read p (fs_sync_dir q s) = fs_read p s"
  by (simp add: fs_read_def)

lemma writing_rename:
  assumes "writing w b s s'" and "fs_wf s" and "wr_tmp w \<noteq> q"
  shows "fs_read p (fs_rename (wr_tmp w) q s') = (if p = q then Some b else if p = wr_tmp w then None else fs_read p s)"
proof -
  have "fs_read p s' = fs_read p s" if "p \<noteq> wr_tmp w" by (rule writing_reads[OF assms(1,2) that])
  then show ?thesis using assms by (auto simp: writing_def fs_read_def fs_rename_def)
qed

text \<open>The result of a call in the order in which the code checks it.\<close>

definition write_result :: "write_env \<Rightarrow> store_error option" where
  "write_result env =
     (if \<not> we_open env then Some OpenTmpFailed
      else if we_write env \<noteq> None then Some WriteTmpFailed
      else if \<not> we_sync env then Some FsyncTmpFailed
      else if \<not> we_close env then Some CloseTmpFailed
      else if \<not> we_rename env then Some RenameFailed
      else sync_dir_result env)"

definition renamed_ok :: "store_error option \<Rightarrow> bool" where
  "renamed_ok r \<longleftrightarrow> r \<in> {None, Some OpenDirFailed, Some FsyncDirFailed}"

lemmas atomic_run_step = atomic_run.simps[of _ AtOpen] atomic_run.simps[of _ AtWrite] atomic_run.simps[of _ AtSync]
  atomic_run.simps[of _ AtClose] atomic_run.simps[of _ AtRename] atomic_run.simps[of _ AtSyncDir]
  atomic_run.simps[of _ "AtAbort e" for e] atomic_run.simps[of _ "AtCleanup e" for e]
  atomic_run.simps[of _ "Finished r" for r]

lemma atomic_run_cleanup:
  assumes "writing w b s s'" and "fs_wf s" and "fs_entry s (wr_tmp w) = None" and "p \<noteq> wr_tmp w \<or> we_remove (wr_env w)"
  shows "fst (atomic_run w (AtCleanup e) s') = Some e \<and> fs_read p (snd (atomic_run w (AtCleanup e) s')) = fs_read p s"
  using assms writing_reads[OF assms(1,2), of p]
  by (auto simp: atomic_run_step fs_read_remove, auto simp: fs_read_def)

lemma sync_dir_renamed: "renamed_ok (sync_dir_result env)"
  by (simp add: renamed_ok_def sync_dir_result_def)

lemma atomic_run_read:
  assumes wf: "fs_wf s" and new: "fs_entry s (wr_tmp w) = None" and neq: "wr_tmp w \<noteq> wr_dst w"
    and p: "p \<noteq> wr_tmp w \<or> we_remove (wr_env w) \<or> renamed_ok (write_result (wr_env w))"
  shows "fst (atomic_run w AtOpen s) = write_result (wr_env w) \<and>
    fs_read p (snd (atomic_run w AtOpen s)) =
      (if p = wr_dst w \<and> renamed_ok (write_result (wr_env w)) then Some (wr_data w) else fs_read p s)"
proof -
  let ?e = "wr_env w"
  define s1 where "s1 = fs_create (wr_fd w) (wr_tmp w) s"
  define s2 where "s2 b = fs_write (wr_fd w) b s1" for b
  have 1: "writing w [] s s1" "fs_open s1 (wr_fd w) = Some (fs_next s)"
    using writing_create[OF new] by (simp_all add: s1_def)
  have 2: "writing w b s (s2 b)" for b using writing_write[OF 1] by (simp add: s2_def)
  show ?thesis
  proof (cases "renamed_ok (write_result ?e)")
    case True
    then have ok: "we_open ?e" "we_write ?e = None" "we_sync ?e" "we_close ?e" "we_rename ?e"
      by (auto simp: renamed_ok_def write_result_def split: if_splits)
    define s4 where "s4 = fs_close (wr_fd w) (fs_sync (wr_fd w) (s2 (wr_data w)))"
    have "writing w (wr_data w) s s4" using 2 by (simp add: s4_def writing_sync writing_close)
    note 4 = writing_rename[OF this wf neq, of p]
    have none: "fs_read (wr_tmp w) s = None" using new by (simp add: fs_read_def)
    have "fs_read p (snd (atomic_run w AtOpen s)) = fs_read p (fs_rename (wr_tmp w) (wr_dst w) s4) \<and>
      fst (atomic_run w AtOpen s) = sync_dir_result ?e"
      using ok by (simp add: atomic_run_step s1_def s2_def s4_def)
    then show ?thesis using ok 4 none neq True by (simp add: write_result_def sync_dir_renamed)
  next
    case False
    then have p': "p \<noteq> wr_tmp w \<or> we_remove ?e" using p by simp
    show ?thesis
    proof (cases "we_open ?e")
      case False
      then show ?thesis using p' new
        by (auto simp: atomic_run_step write_result_def renamed_ok_def fs_read_remove, auto simp: fs_read_def)
    next
      case True
      note cl = atomic_run_cleanup[OF _ wf new p']
      have bad: "we_write ?e \<noteq> None \<or> \<not> we_sync ?e \<or> \<not> we_close ?e \<or> \<not> we_rename ?e"
        using True False sync_dir_renamed[of ?e] by (auto simp: write_result_def split: if_splits)
      have nb: "\<not> (p = wr_dst w \<and> renamed_ok (write_result ?e))" using False by simp
      have "fst (atomic_run w AtOpen s) = write_result ?e \<and> fs_read p (snd (atomic_run w AtOpen s)) = fs_read p s"
        using True bad cl[OF writing_close[OF 2]] cl[OF writing_close[OF writing_sync[OF 2]]]
        by (cases "we_write ?e"; cases "we_sync ?e"; cases "we_close ?e"; cases "we_rename ?e")
          (simp_all add: atomic_run_step(1-7) write_result_def s1_def[symmetric] s2_def[symmetric])
      then show ?thesis unfolding if_not_P[OF nb] .
    qed
  qed
qed

section \<open>Properties\<close>

text \<open>
  C4: However the calls of \<open>AtomicWrite\<close> of any number of processes are interleaved, wherever each of them
  fails, and at whatever point a reader looks or the machine stops: a path of the store holds what it held
  before or the complete payload of one of the calls that write to it, never a mixture and never part of
  a payload.
\<close>

theorem interleaved_writes_atomic:
  assumes "ready ws p s" and "run_schedule ws ks (start_of ws s) = (pcs, s')"
  shows "fs_read p s' \<in> insert (fs_read p s) (payloads ws p) \<and>
    (\<forall>r. after_crash p r s' \<longrightarrow> r \<in> insert (fs_read p s) (payloads ws p))"
proof -
  have "write_inv ws (insert (fs_read p s) (payloads ws p)) p (run_schedule ws ks (start_of ws s))"
    using assms(1) by (intro write_inv_run ready_inv) (auto simp: ready_def payloads_def)
  then have "settled (insert (fs_read p s) (payloads ws p)) p s'" by (simp add: write_inv_def assms(2))
  then show ?thesis using settled_read settled_after_crash by blast
qed

text \<open>
  C9: A call of \<open>AtomicWrite\<close> that has returned without error (outside Windows) is durable: whatever the
  other writers do afterwards and whenever the machine stops, the old content is gone and the path holds
  the complete payload of this call or of another one to the same path.
\<close>

theorem success_is_durable:
  assumes "ready ws p s" and "run_schedule ws ks (start_of ws s) = (pcs, s')"
    and "i < length ws" and "wr_dst (ws ! i) = p" and "pcs ! i = Finished None"
    and "\<not> we_windows (wr_env (ws ! i))" and "after_crash p r s'"
  shows "r \<in> payloads ws p"
proof -
  have "published ws (payloads ws p) p (start_of ws s)"
    by (auto simp: published_def start_of_def)
  then have "published ws (payloads ws p) p (pcs, s')"
    using published_run[OF ready_inv[OF assms(1)], of "payloads ws p" ks] assms(1,2)
    by (auto simp: ready_def payloads_mem)
  then have "settled (payloads ws p) p s'" using assms(3-6) by (simp add: published_def)
  then show ?thesis by (rule settled_after_crash[OF _ assms(7)])
qed

text \<open>The staging name of a call is new.\<close>

definition fresh_tmp :: "store \<Rightarrow> string \<Rightarrow> write_env \<Rightarrow> fsys \<Rightarrow> bool" where
  "fresh_tmp st key env s =
     (case new_tmp st key (we_rand env) of Inl e \<Rightarrow> True | Inr tmp \<Rightarrow> fs_entry s tmp = None)"

definition write_outcome :: "write_env \<Rightarrow> store_error option" where
  "write_outcome env = (if we_rand env = None then Some RandFailed else write_result env)"

lemma atomic_write_outcome_env:
  assumes "plain_store st" and "plain_name key" and "fs_wf s" and "fresh_tmp st key env s"
    and "new_tmp st key (we_rand env) = Inr p \<Longrightarrow> we_remove env \<or> renamed_ok (write_outcome env)"
  shows "fst (atomic_write st key data fd env s) = write_outcome env \<and>
    fs_read p (snd (atomic_write st key data fd env s)) =
      (if p = raw_path st key \<and> renamed_ok (write_outcome env) then Some data else fs_read p s)"
proof (cases "we_rand env")
  case None
  then show ?thesis using assms(2)
    by (auto simp: atomic_write_def atomic_start_def new_tmp_def write_outcome_def renamed_ok_def plain_name_def)
next
  case (Some b)
  then obtain w where w: "atomic_start st key data fd env = Inr w" "new_tmp st key (we_rand env) = Inr (wr_tmp w)"
    using assms(2) by (fastforce simp: atomic_start_def new_tmp_def plain_name_def)
  note a = start_apart[OF assms(1,2) w(1)]
  have "p \<noteq> wr_tmp w \<or> we_remove env \<or> renamed_ok (write_result env)"
    using assms(5) w(2) Some by (auto simp: write_outcome_def)
  then show ?thesis
    using atomic_run_read[OF assms(3), of w p] assms(4) w a Some
    by (simp add: atomic_write_def fresh_tmp_def write_outcome_def)
qed

text \<open>
  C34: A call of \<open>AtomicWrite\<close> reports the first of its system calls that fails, in the order of the code.
  The payload is at the key's path exactly when the rename was reached, so also when only the
  synchronisation of the directory failed; on every other error the path, like every path other than
  the staging file, reads as before, and the staging file is gone if it could be removed.
\<close>

theorem atomic_write_outcome:
  assumes "plain_store st" and "plain_name key" and "fs_wf s" and "fresh_tmp st key env s"
    and "new_tmp st key (we_rand env) = Inr p \<Longrightarrow> we_remove env \<or> renamed_ok (write_outcome env)"
  shows "fst (atomic_write st key data fd env s) = write_outcome env \<and>
    fs_read p (snd (atomic_write st key data fd env s)) =
      (if p = raw_path st key \<and> renamed_ok (write_outcome env) then Some data else fs_read p s)"
  by (rule atomic_write_outcome_env[OF assms])

lemma meta_names:
  "fold_name ''etag'' = ''etag''" "fold_name ''last_modified'' = ''last_modified''"
  "fold_name ''sha256'' = ''sha256''" "fold_name ''fetched_at'' = ''fetched_at''" "fold_name ''bytes'' = ''bytes''"
  by code_simp+

lemma meta_codec:
  assumes "encode_meta m = Some b" and "\<bar>mt_Bytes m\<bar> < 2 ^ 63"
  shows "decode_meta b = Some m"
proof -
  have y: "year_in_range 0 (mt_FetchedAt m)" and b: "b = json_out (Some 0) (meta_json m)"
    using assms(1) by (simp_all add: encode_meta_def split: if_splits)
  have "json_wf (meta_json m)" by (simp add: meta_json_def int64_text_wf[simplified])
  then have "json_parse b = Some (meta_json m)" unfolding b by (rule json_roundtrip)
  moreover have "parse_time (fmt_time 0 (mt_FetchedAt m)) = Some (mt_FetchedAt m)"
    by (rule parse_fmt_time[OF y]) simp
  moreover have "parse_int64 (int64_text (mt_Bytes m)) = Some (mt_Bytes m)" using assms(2) by simp
  ultimately show ?thesis
    by (simp add: decode_meta_def meta_json_def struct_members_def dec_string_def dec_time_def dec_int64_def meta_names)
qed

text \<open>
  The meta sidecar survives its JSON encoding: whenever \<open>WriteMeta\<close> can encode a record, whatever
  characters a server put into its ETag, \<open>ReadMeta\<close> decodes the very same record.
\<close>

theorem meta_roundtrip:
  assumes "encode_meta m = Some b" and "\<bar>mt_Bytes m\<bar> < 2 ^ 63"
  shows "decode_meta b = Some m"
  by (rule meta_codec[OF assms])

text \<open>Two processes that write the same key, in a store that holds an older value.\<close>

definition sample_store :: store where
  "sample_store = \<lparr>st_dir = ''/c''\<rparr>"

definition sample_env :: write_env where
  "sample_env = \<lparr>we_rand = Some ''abcdefgh'', we_open = True, we_write = None, we_sync = True, we_close = True,
     we_rename = True, we_windows = False, we_opendir = True, we_syncdir = True, we_remove = True\<rparr>"

definition sample_fs :: fsys where
  "sample_fs = \<lparr>fs_entry = [''/c/raw/k'' \<mapsto> 0], fs_past = (\<lambda>_. []), fs_data = (\<lambda>_. ''old''),
     fs_synced = (\<lambda>_. True), fs_mtime = (\<lambda>_. 0), fs_open = Map.empty, fs_next = 1, fs_dirs = [], fs_now = 0\<rparr>"

definition sample_writers :: "writer list" where
  "sample_writers =
     [\<lparr>wr_dst = ''/c/raw/k'', wr_data = ''first'', wr_tmp = ''/c/tmp/k.61'', wr_fd = 3, wr_env = sample_env\<rparr>,
      \<lparr>wr_dst = ''/c/raw/k'', wr_data = ''second'', wr_tmp = ''/c/tmp/k.62'', wr_fd = 4,
       wr_env = sample_env\<lparr>we_rename := False\<rparr>\<rparr>]"

lemma sample_fs_wf: "fs_wf sample_fs"
  by (rule fs_wfI) (auto simp: sample_fs_def entries_def split: if_splits)

lemma sample_ready_writers: "ready sample_writers ''/c/raw/k'' sample_fs"
proof -
  have "settled {Some ''old''} ''/c/raw/k'' sample_fs"
    by (rule settledI) (auto simp: sample_fs_def entries_def safe_entry_def)
  moreover have "fs_read ''/c/raw/k'' sample_fs = Some ''old''" by (simp add: sample_fs_def fs_read_def)
  moreover have "apart sample_writers" by (simp add: apart_def sample_writers_def)
  moreover have "''/c/raw/k'' \<notin> wr_tmp ` set sample_writers"
    "\<forall>w \<in> set sample_writers. fs_entry sample_fs (wr_tmp w) = None"
    by (simp_all add: sample_writers_def sample_fs_def)
  ultimately show ?thesis using sample_fs_wf by (simp add: ready_def)
qed

lemma sample_payloads: "payloads sample_writers ''/c/raw/k'' = {Some ''first'', Some ''second''}"
  by (simp add: payloads_def sample_writers_def insert_commute)

theorem interleaved_writes_atomic_witness:
  "fs_read ''/c/raw/k'' (snd (run_schedule sample_writers [0, 1, 0, 1, 0, 0] (start_of sample_writers sample_fs))) \<in>
     {Some ''old'', Some ''first'', Some ''second''}"
  using interleaved_writes_atomic[OF sample_ready_writers, of "[0, 1, 0, 1, 0, 0]"]
  by (cases "run_schedule sample_writers [0, 1, 0, 1, 0, 0] (start_of sample_writers sample_fs)")
    (simp add: sample_payloads, simp add: sample_fs_def fs_read_def)

lemma sample_finished:
  "fst (run_schedule sample_writers [0, 1, 0, 1, 0, 0, 0, 0, 1] (start_of sample_writers sample_fs)) = [Finished None, AtClose]"
  by code_simp

theorem success_is_durable_witness:
  "{r. after_crash ''/c/raw/k'' r
      (snd (run_schedule sample_writers [0, 1, 0, 1, 0, 0, 0, 0, 1] (start_of sample_writers sample_fs)))} \<subseteq>
    {Some ''first'', Some ''second''}"
proof (intro subsetI, drule CollectD)
  define cfg where "cfg = run_schedule sample_writers [0, 1, 0, 1, 0, 0, 0, 0, 1] (start_of sample_writers sample_fs)"
  fix r assume "after_crash ''/c/raw/k'' r (snd (run_schedule sample_writers [0, 1, 0, 1, 0, 0, 0, 0, 1]
    (start_of sample_writers sample_fs)))"
  then have r: "after_crash ''/c/raw/k'' r (snd cfg)" by (simp add: cfg_def)
  have run: "run_schedule sample_writers [0, 1, 0, 1, 0, 0, 0, 0, 1] (start_of sample_writers sample_fs) = ([Finished None, AtClose], snd cfg)"
    using sample_finished by (metis cfg_def prod.collapse)
  show "r \<in> {Some ''first'', Some ''second''}"
    using success_is_durable[OF sample_ready_writers run, of 0 r] r
    by (simp add: sample_payloads) (simp add: sample_writers_def sample_env_def)
qed

lemma sample_tmp: "new_tmp sample_store ''k'' (Some ''abcdefgh'') = Inr ''/c/tmp/k.6162636465666768''"
  "raw_path sample_store ''k'' = ''/c/raw/k''"
  by code_simp+

theorem atomic_write_outcome_witness:
  "fst (atomic_write sample_store ''k'' ''new'' 3 (sample_env\<lparr>we_syncdir := False\<rparr>) sample_fs) = Some FsyncDirFailed \<and>
   fs_read ''/c/raw/k'' (snd (atomic_write sample_store ''k'' ''new'' 3 (sample_env\<lparr>we_syncdir := False\<rparr>) sample_fs)) =
     Some ''new''"
proof -
  let ?e = "sample_env\<lparr>we_syncdir := False\<rparr>"
  have "write_outcome ?e = Some FsyncDirFailed"
    by (simp add: write_outcome_def write_result_def sync_dir_result_def sample_env_def)
  moreover have "plain_store sample_store" "plain_name ''k''" "fresh_tmp sample_store ''k'' ?e sample_fs"
    by (simp_all add: plain_store_def sample_store_def plain_name_def fresh_tmp_def
        sample_tmp[unfolded sample_store_def] sample_env_def sample_fs_def)
  ultimately show ?thesis
    using atomic_write_outcome[of sample_store "''k''" sample_fs ?e "''/c/raw/k''" "''new''" 3] sample_fs_wf
    by (simp add: sample_tmp renamed_ok_def)
qed

definition sample_meta :: file_meta where
  "sample_meta = \<lparr>mt_ETag = ''W/'' @ [CHR 0x22] @ ''a<b'' @ [CHR 0x22], mt_LastModified = [], mt_SHA256 = ''00ff'',
     mt_FetchedAt = 1700000000 * second_ns, mt_Bytes = 42\<rparr>"

theorem meta_roundtrip_witness:
  "decode_meta (json_out (Some 0) (meta_json sample_meta)) = Some sample_meta"
proof (rule meta_roundtrip)
  have "year_in_range 0 (mt_FetchedAt sample_meta)" by code_simp
  then show "encode_meta sample_meta = Some (json_out (Some 0) (meta_json sample_meta))" by (simp add: encode_meta_def)
  show "\<bar>mt_Bytes sample_meta\<bar> < 2 ^ 63" by (simp add: sample_meta_def)
qed

text \<open>
  \<open>SweepTmp\<close>: with no failure, a listed staging file older than the cut-off is gone, a younger one is
  kept, and no other path is touched.
\<close>

definition sweepable :: "store \<Rightarrow> (string \<times> bool \<times> bool) list \<Rightarrow> fsys \<Rightarrow> bool" where
  "sweepable st es s \<longleftrightarrow> distinct (map (\<lambda>e. path_join [tmp_dir st, fst e]) es) \<and>
     (\<forall>e \<in> set es. fst (snd e) \<and> snd (snd e) \<and> fs_entry s (path_join [tmp_dir st, fst e]) \<noteq> None)"

lemma sweep_entries_spec:
  assumes "sweepable st es s"
  shows "fst (sweep_entries st cutoff es None s) = None \<and>
    fs_read p (snd (sweep_entries st cutoff es None s)) =
      (if p \<in> (\<lambda>e. path_join [tmp_dir st, fst e]) ` set es \<and> fs_mtime s (the (fs_entry s p)) < cutoff then None
       else fs_read p s)"
  using assms
proof (induction es arbitrary: s)
  case (Cons e es)
  obtain name info rm where e: "e = (name, info, rm)" by (cases e)
  let ?p = "path_join [tmp_dir st, name]"
  obtain i where i: "info" "rm" "fs_entry s ?p = Some i" using Cons.prems by (auto simp: e sweepable_def)
  have mt: "fs_mtime (fs_remove ?p s) = fs_mtime s" by (simp add: fs_remove_def set_entry_def)
  have notin: "?p \<notin> (\<lambda>e. path_join [tmp_dir st, fst e]) ` set es" using Cons.prems by (simp add: e sweepable_def)
  have "path_join [tmp_dir st, fst e'] \<noteq> ?p" if "e' \<in> set es" for e'
    using imageI[OF that, of "\<lambda>e. path_join [tmp_dir st, fst e]"] notin by metis
  then have "sweepable st es s" "sweepable st es (fs_remove ?p s)"
    using Cons.prems by (simp_all add: e sweepable_def entry_remove)
  moreover note notin
  ultimately show ?case
    using Cons.IH i by (auto simp: e Let_def mt fs_read_remove entry_remove)
qed simp

end
