(* ===== verification/Writers.thy ===== *)
theory Writers
  imports
    Store
begin

text \<open>
  The calls of \<open>Store.AtomicWrite\<close> of several processes as a step relation: any writer that has not
  returned may make its next system call.  The schedules of theory \<open>Store\<close> are the runs of this relation;
  the safety of the store is an invariant of its reachable configurations, and every run comes to an end in
  which each call has returned what its own environment decides.
\<close>

section \<open>The step relation\<close>

inductive group_step :: "writer list \<Rightarrow> aw_pc list \<times> fsys \<Rightarrow> aw_pc list \<times> fsys \<Rightarrow> bool" for ws :: "writer list" where
  Move: "k < length ws \<Longrightarrow> steps_left (pcs ! k) \<noteq> 0 \<Longrightarrow> atomic_step (ws ! k) (pcs ! k) s = (pc', s') \<Longrightarrow>
     group_step ws (pcs, s) (pcs[k := pc'], s')"

inductive_cases group_stepE: "group_step ws (pcs, s) cfg"

lemmas group_step_induct = group_step.induct[split_format(complete)]

lemma group_step_length: "group_step ws cfg cfg' \<Longrightarrow> length (fst cfg') = length (fst cfg)"
  by (auto elim: group_step.cases)

lemma finished_stays: "steps_left pc = 0 \<Longrightarrow> atomic_step w pc s = (pc, s)"
  by (cases pc) auto

text \<open>A schedule is a run of the relation, and every run is one of a schedule.\<close>

lemma schedule_run:
  assumes "run_schedule ws ks cfg = cfg'"
  shows "(group_step ws)\<^sup>*\<^sup>* cfg cfg'"
  using assms
proof (induction ws ks cfg rule: run_schedule.induct)
  case (2 ws k ks pcs s)
  obtain pc' s' where st: "atomic_step (ws ! k) (pcs ! k) s = (pc', s')" by fastforce
  show ?case
  proof (cases "k < length ws \<and> steps_left (pcs ! k) \<noteq> 0")
    case True
    then have "(group_step ws)\<^sup>*\<^sup>* (pcs[k := pc'], s') cfg'" using 2 st by simp
    moreover have "group_step ws (pcs, s) (pcs[k := pc'], s')" using True st Move by blast
    ultimately show ?thesis by (rule converse_rtranclp_into_rtranclp[rotated])
  next
    case False
    then have "k < length ws \<Longrightarrow> pc' = pcs ! k \<and> s' = s" using st finished_stays by auto
    then show ?thesis using 2 st by (cases "k < length ws") auto
  qed
qed simp

lemma run_schedule_append: "run_schedule ws (ks @ js) cfg = run_schedule ws js (run_schedule ws ks cfg)"
  by (induction ws ks cfg rule: run_schedule.induct) (auto split: prod.split)

lemma run_schedule_of:
  assumes "(group_step ws)\<^sup>*\<^sup>* cfg cfg'"
  shows "\<exists>ks. run_schedule ws ks cfg = cfg'"
  using assms
proof (induction rule: rtranclp_induct)
  case base
  have "run_schedule ws [] cfg = cfg" by simp
  then show ?case by blast
next
  case (step c d)
  then obtain ks where ks: "run_schedule ws ks cfg = c" by blast
  from step.hyps(2) obtain k where "run_schedule ws [k] c = d"
    by (cases rule: group_step.cases) (metis (no_types, lifting) case_prod_conv run_schedule.simps)
  then show ?case using ks run_schedule_append[of ws ks "[k]" cfg] by auto
qed

lemma reach_iff_schedule: "(group_step ws)\<^sup>*\<^sup>* cfg cfg' \<longleftrightarrow> (\<exists>ks. run_schedule ws ks cfg = cfg')"
  using schedule_run run_schedule_of by blast

section \<open>Safety as an invariant of the reachable configurations\<close>

lemma reach_write_inv:
  assumes "(group_step ws)\<^sup>*\<^sup>* cfg cfg'" and "write_inv ws A p cfg" and "apart ws" and "p \<notin> wr_tmp ` set ws"
    and "\<And>w. w \<in> set ws \<Longrightarrow> wr_dst w = p \<Longrightarrow> Some (wr_data w) \<in> A"
  shows "write_inv ws A p cfg'"
  using assms(1)
proof (induction rule: rtranclp_induct)
  case (step c d)
  from step.hyps(2) step.IH show ?case
    by (cases rule: group_step.cases) (auto intro: write_inv_step[OF _ assms(3-5)])
qed (rule assms(2))

lemma reachable_settled:
  assumes "ready ws p s" and "(group_step ws)\<^sup>*\<^sup>* (start_of ws s) (pcs, s')"
  shows "settled (insert (fs_read p s) (payloads ws p)) p s'"
proof -
  have "write_inv ws (insert (fs_read p s) (payloads ws p)) p (pcs, s')"
    using assms(1) by (intro reach_write_inv[OF assms(2) ready_inv[OF assms(1)]]) (auto simp: ready_def payloads_mem)
  then show ?thesis by (simp add: write_inv_def)
qed

section \<open>Progress\<close>

text \<open>What a call is going to return, read off its position.\<close>

fun result_from :: "write_env \<Rightarrow> aw_pc \<Rightarrow> store_error option" where
  "result_from env AtOpen = write_result env"
| "result_from env AtWrite = write_result (env\<lparr>we_open := True\<rparr>)"
| "result_from env AtSync = write_result (env\<lparr>we_open := True, we_write := None\<rparr>)"
| "result_from env AtClose = write_result (env\<lparr>we_open := True, we_write := None, we_sync := True\<rparr>)"
| "result_from env AtRename = (if we_rename env then sync_dir_result env else Some RenameFailed)"
| "result_from env AtSyncDir = sync_dir_result env"
| "result_from env (AtAbort e) = Some e"
| "result_from env (AtCleanup e) = Some e"
| "result_from env (Finished r) = r"

lemma result_from_step: "result_from (wr_env w) (fst (atomic_step w pc s)) = result_from (wr_env w) pc"
  by (cases pc) (auto simp: write_result_def sync_dir_result_def split: option.split)

lemma result_from_finished: "steps_left pc = 0 \<Longrightarrow> pc = Finished (result_from env pc)"
  by (cases pc) auto

lemma steps_left_drops: "steps_left (fst (atomic_step w pc s)) \<le> steps_left pc - 1"
  using steps_left_step[of pc w s] finished_stays[of pc w s] by (cases "steps_left pc = 0") auto

text \<open>A schedule brings each writer forward by as many steps as it grants it, and never changes its result.\<close>

lemma schedule_progress:
  assumes "run_schedule ws ks (pcs, s) = (pcs', s')" and "length pcs = length ws" and "k < length ws"
  shows "length pcs' = length ws \<and> steps_left (pcs' ! k) \<le> steps_left (pcs ! k) - count_list ks k \<and>
    result_from (wr_env (ws ! k)) (pcs' ! k) = result_from (wr_env (ws ! k)) (pcs ! k)"
  using assms(1,2)
proof (induction ks arbitrary: pcs s)
  case (Cons j ks)
  show ?case
  proof (cases "j < length ws")
    case True
    obtain pc1 s1 where st: "atomic_step (ws ! j) (pcs ! j) s = (pc1, s1)" by fastforce
    then have "run_schedule ws ks (pcs[j := pc1], s1) = (pcs', s')" using Cons.prems(1) True by simp
    from Cons.IH[OF this] Cons.prems(2) have ih: "length pcs' = length ws"
      "steps_left (pcs' ! k) \<le> steps_left (pcs[j := pc1] ! k) - count_list ks k"
      "result_from (wr_env (ws ! k)) (pcs' ! k) = result_from (wr_env (ws ! k)) (pcs[j := pc1] ! k)"
      by simp_all
    show ?thesis
    proof (cases "j = k")
      case True
      then have "steps_left pc1 \<le> steps_left (pcs ! k) - 1"
        "result_from (wr_env (ws ! k)) pc1 = result_from (wr_env (ws ! k)) (pcs ! k)"
        using steps_left_drops[of "ws ! k" "pcs ! k" s] result_from_step[of "ws ! k" "pcs ! k" s] st by simp_all
      then show ?thesis using ih True Cons.prems(2) assms(3) by simp
    qed (use ih in simp)
  next
    case False
    then show ?thesis using Cons.IH[of pcs s] Cons.prems assms(3) by auto
  qed
qed simp

text \<open>Runs are bounded, and only a configuration in which all calls have returned is stuck.\<close>

definition moves_left :: "aw_pc list \<Rightarrow> nat" where
  "moves_left pcs = sum_list (map steps_left pcs)"

lemma group_step_moves:
  assumes "group_step ws (pcs, s) (pcs', s')" and "length pcs = length ws"
  shows "moves_left pcs' < moves_left pcs"
proof -
  obtain k pc' where k: "k < length ws" "steps_left (pcs ! k) \<noteq> 0" "atomic_step (ws ! k) (pcs ! k) s = (pc', s')"
    "pcs' = pcs[k := pc']"
    using assms(1) by (auto elim: group_stepE)
  then have "steps_left pc' < steps_left (pcs ! k)" using steps_left_step[OF k(2), of "ws ! k" s] by simp
  moreover have "steps_left (pcs ! k) \<le> moves_left pcs"
    using k(1) assms(2) by (auto simp: moves_left_def intro!: member_le_sum_list)
  ultimately show ?thesis using k(1,4) assms(2) by (simp add: moves_left_def map_update sum_list_update)
qed

lemma runs_bounded:
  assumes "(group_step ws ^^ n) (start_of ws s) cfg"
  shows "n + moves_left (fst cfg) \<le> 6 * length ws \<and> length (fst cfg) = length ws"
  using assms
proof (induction n arbitrary: cfg)
  case (Suc n)
  then obtain c where c: "(group_step ws ^^ n) (start_of ws s) c" "group_step ws c cfg" by auto
  then show ?case
    using Suc.IH[OF c(1)] group_step_moves[of ws "fst c" "snd c" "fst cfg" "snd cfg"] group_step_length[OF c(2)] by simp
qed (auto simp: start_of_def moves_left_def sum_list_replicate)

lemma stuck_iff_returned:
  "length pcs = length ws \<Longrightarrow>
   (\<nexists>cfg. group_step ws (pcs, s) cfg) \<longleftrightarrow> (\<forall>k < length ws. steps_left (pcs ! k) = 0)"
  using Move[of _ ws pcs s] by (auto elim!: group_stepE) (metis neq0_conv surj_pair)

section \<open>Properties\<close>



end
