(* ===== verification/Output.thy ===== *)
theory Output
  imports
    Json Classifier
begin

text \<open>
  \<open>internal/output/output.go\<close>: results as text, JSON and CSV.  The writer's state is what the sink has
  received and what the CSV writer still buffers.  \<open>encoding/csv\<close> and \<open>netip.Addr.String\<close> are modelled as
  far as the package uses them; a reference reader of CSV records states what the rows mean.
\<close>

section \<open>netip.Addr.String\<close>

definition octets_text :: "u32 \<Rightarrow> string" where
  "octets_text w = go_join ''.'' (map (\<lambda>k. dec_digits (unat (drop_bit k w) mod 256)) [24, 16, 8, 0])"

definition groups :: "u128 \<Rightarrow> nat list" where
  "groups w = map (\<lambda>k. unat (drop_bit (16 * k) w) mod 65536) [7, 6, 5, 4, 3, 2, 1, 0]"

text \<open>Lower-case hexadecimal without leading zeros.\<close>

definition group_text :: "nat \<Rightarrow> string" where
  "group_text n =
     (let t = map (\<lambda>d. hex_digit (n div d mod 16)) [4096, 256, 16, 1] in
      (case dropWhile (\<lambda>c. c = CHR ''0'') t of [] \<Rightarrow> ''0'' | u \<Rightarrow> u))"

text \<open>The first longest run of at least two zero groups, as its start and its end.\<close>

definition zero_run :: "nat list \<Rightarrow> nat \<Rightarrow> nat" where
  "zero_run gs i = length (takeWhile (\<lambda>g. g = 0) (drop i gs))"

definition compress_step :: "nat list \<Rightarrow> nat \<times> nat \<Rightarrow> nat \<Rightarrow> nat \<times> nat" where
  "compress_step gs best i =
     (if 2 \<le> zero_run gs i \<and> snd best < zero_run gs i then (i, zero_run gs i) else best)"

definition string6 :: "u128 \<Rightarrow> string" where
  "string6 w =
     (let gs = groups w; (i, n) = foldl (compress_step gs) (0, 0) [0..<8] in
      if n = 0 then go_join '':'' (map group_text gs)
      else go_join '':'' (map group_text (take i gs)) @ ''::'' @ go_join '':'' (map group_text (drop (i + n) gs)))"

definition addr_string :: "addr \<Rightarrow> string" where
  "addr_string a =
     (case a of
        AddrZero \<Rightarrow> ''invalid IP''
      | Addr4 w \<Rightarrow> octets_text w
      | Addr6 w z \<Rightarrow>
          (if is4in6 a then ''::ffff:'' @ octets_text (word_of_nat (unat w)) else string6 w) @
          (if z = [] then [] else CHR ''%'' # z))"

section \<open>Format\<close>

datatype out_format = FormatText | FormatJSON | FormatCSV

definition parse_format :: "string \<Rightarrow> out_format option" where
  "parse_format s =
     (let t = to_lower s in
      if t = [] \<or> t = ''text'' then Some FormatText
      else if t = ''json'' then Some FormatJSON
      else if t = ''csv'' then Some FormatCSV
      else None)"

section \<open>Text\<close>

definition text_line :: "result \<Rightarrow> string" where
  "text_line r =
     r_Input r @ [CHR 0x09] @ r_FinalCountry r @ [CHR 0x09] @ r_Confidence r @ [CHR 0x09] @ r_Reason r @ [CHR 0x0A]"

section \<open>JSON\<close>

record json_result =
  jr_Input :: string
  jr_Type :: string
  jr_Resolved :: "string list"
  jr_DomainCountry :: string
  jr_DomainSuffix :: string
  jr_IPCountry :: string
  jr_ASN :: u32
  jr_ASNOrg :: string
  jr_ASNCountry :: string
  jr_CertCountry :: string
  jr_CTLogCountry :: string
  jr_ContentCountry :: string
  jr_WaybackCountry :: string
  jr_RegistrantCountry :: string
  jr_Registry :: string
  jr_FinalCountry :: string
  jr_Confidence :: string
  jr_Reason :: string
  jr_LookupMillis :: int

text \<open>\<open>Duration.Milliseconds\<close>: division truncates towards zero.\<close>

definition milliseconds :: "int \<Rightarrow> int" where
  "milliseconds d = (if d < 0 then - (- d div 1000000) else d div 1000000)"

definition json_view :: "result \<Rightarrow> json_result" where
  "json_view r =
     \<lparr>jr_Input = r_Input r, jr_Type = r_Type r, jr_Resolved = map addr_string (r_Resolved r),
      jr_DomainCountry = r_DomainCountry r, jr_DomainSuffix = r_DomainSuffix r, jr_IPCountry = r_IPCountry r,
      jr_ASN = r_ASN r, jr_ASNOrg = r_ASNOrg r, jr_ASNCountry = r_ASNCountry r, jr_CertCountry = r_CertCountry r,
      jr_CTLogCountry = r_CTLogCountry r, jr_ContentCountry = r_ContentCountry r,
      jr_WaybackCountry = r_WaybackCountry r, jr_RegistrantCountry = r_RegistrantCountry r,
      jr_Registry = r_Registry r, jr_FinalCountry = r_FinalCountry r, jr_Confidence = r_Confidence r,
      jr_Reason = r_Reason r, jr_LookupMillis = milliseconds (r_LookupDuration r)\<rparr>"

text \<open>Members tagged \<open>omitempty\<close> are left out when empty or zero.\<close>

definition omit_empty :: "string \<Rightarrow> string \<Rightarrow> (string \<times> json) list" where
  "omit_empty k v = (if v = [] then [] else [(k, JStr v)])"

definition result_json :: "json_result \<Rightarrow> json" where
  "result_json v =
     JObj ([(''input'', JStr (jr_Input v)), (''type'', JStr (jr_Type v))] @
       (if jr_Resolved v = [] then [] else [(''resolved'', JArr (map JStr (jr_Resolved v)))]) @
       omit_empty ''domain_country'' (jr_DomainCountry v) @ omit_empty ''domain_suffix'' (jr_DomainSuffix v) @
       omit_empty ''ip_country'' (jr_IPCountry v) @
       (if jr_ASN v = 0 then [] else [(''asn'', JNum (dec_digits (unat (jr_ASN v))))]) @
       omit_empty ''asn_org'' (jr_ASNOrg v) @ omit_empty ''asn_country'' (jr_ASNCountry v) @
       omit_empty ''cert_country'' (jr_CertCountry v) @ omit_empty ''ctlog_country'' (jr_CTLogCountry v) @
       omit_empty ''content_country'' (jr_ContentCountry v) @ omit_empty ''wayback_country'' (jr_WaybackCountry v) @
       omit_empty ''registrant_country'' (jr_RegistrantCountry v) @ omit_empty ''registry'' (jr_Registry v) @
       [(''final_country'', JStr (jr_FinalCountry v)), (''confidence'', JStr (jr_Confidence v)),
        (''reason'', JStr (jr_Reason v)), (''lookup_ms'', JNum (int64_text (jr_LookupMillis v)))])"

definition json_line :: "result \<Rightarrow> string" where
  "json_line r = json_out None (result_json (json_view r)) @ [CHR 0x0A]"

section \<open>CSV\<close>

text \<open>\<open>csv.Writer.fieldNeedsQuotes\<close> for the comma.\<close>

definition needs_quotes :: "string \<Rightarrow> bool" where
  "needs_quotes f =
     (if f = [] then False
      else if f = [CHR 0x5C, CHR ''.''] then True
      else list_ex (\<lambda>c. c \<in> {CHR 0x0A, CHR 0x0D, CHR 0x22, CHR '',''}) f \<or> list_ex (\<lambda>w. prefix w f) go_spaces)"

definition csv_quote :: "string \<Rightarrow> string" where
  "csv_quote f = CHR 0x22 # concat (map (\<lambda>c. if c = CHR 0x22 then [CHR 0x22, CHR 0x22] else [c]) f) @ [CHR 0x22]"

definition csv_field :: "string \<Rightarrow> string" where
  "csv_field f = (if needs_quotes f then csv_quote f else f)"

definition csv_record :: "string list \<Rightarrow> string" where
  "csv_record fs = go_join '','' (map csv_field fs) @ [CHR 0x0A]"

definition csv_header :: "string list" where
  "csv_header =
     [''input'', ''type'', ''final_country'', ''confidence'', ''domain_country'', ''domain_suffix'', ''ip_country'',
      ''asn'', ''asn_org'', ''asn_country'', ''cert_country'', ''ctlog_country'', ''content_country'',
      ''wayback_country'', ''registrant_country'', ''registry'', ''reason'', ''lookup_ms'']"

definition csv_row :: "result \<Rightarrow> string list" where
  "csv_row r =
     [r_Input r, r_Type r, r_FinalCountry r, r_Confidence r, r_DomainCountry r, r_DomainSuffix r, r_IPCountry r,
      if r_ASN r = 0 then [] else dec_digits (unat (r_ASN r)), r_ASNOrg r, r_ASNCountry r, r_CertCountry r,
      r_CTLogCountry r, r_ContentCountry r, r_WaybackCountry r, r_RegistrantCountry r, r_Registry r, r_Reason r,
      int64_text (milliseconds (r_LookupDuration r))]"

section \<open>Writer\<close>

record out_writer =
  ow_f :: out_format
  ow_out :: string
  ow_csv :: string
  ow_wrote :: bool

definition new_writer :: "out_format \<Rightarrow> out_writer" where
  "new_writer f = \<lparr>ow_f = f, ow_out = [], ow_csv = [], ow_wrote = False\<rparr>"

definition write_csv :: "result \<Rightarrow> out_writer \<Rightarrow> out_writer" where
  "write_csv r o1 =
     (let o2 = (if ow_wrote o1 then o1 else o1\<lparr>ow_csv := ow_csv o1 @ csv_record csv_header, ow_wrote := True\<rparr>) in
      o2\<lparr>ow_csv := ow_csv o2 @ csv_record (csv_row r)\<rparr>)"

text \<open>\<open>ok\<close>: the sink takes the bytes.  A CSV row only reaches the buffer of the CSV writer.\<close>

definition write_result_to :: "bool \<Rightarrow> result \<Rightarrow> out_writer \<Rightarrow> bool \<times> out_writer" where
  "write_result_to ok r w =
     (case ow_f w of
        FormatJSON \<Rightarrow> (ok, if ok then w\<lparr>ow_out := ow_out w @ json_line r\<rparr> else w)
      | FormatCSV \<Rightarrow> (True, write_csv r w)
      | FormatText \<Rightarrow> (ok, if ok then w\<lparr>ow_out := ow_out w @ text_line r\<rparr> else w))"

definition flush_writer :: "bool \<Rightarrow> out_writer \<Rightarrow> bool \<times> out_writer" where
  "flush_writer ok w =
     (if ow_f w \<noteq> FormatCSV then (True, w)
      else if ok then (True, w\<lparr>ow_out := ow_out w @ ow_csv w, ow_csv := []\<rparr>)
      else (False, w))"

definition write_results :: "result list \<Rightarrow> out_writer \<Rightarrow> out_writer" where
  "write_results rs w = snd (flush_writer True (foldl (\<lambda>w r. snd (write_result_to True r w)) w rs))"

section \<open>A reader of CSV\<close>

text \<open>
  RFC 4180 as a machine: the fields read so far (reversed), the current field (reversed) and whether it is
  inside quotes; a doubled quote inside quotes is a quote.
\<close>

datatype csv_mode = FieldStart | Plain | Quoted | QuoteSeen

fun csv_read :: "csv_mode \<Rightarrow> string \<Rightarrow> string list \<Rightarrow> string \<Rightarrow> (string list \<times> string) option" where
  "csv_read m cur done [] = None"
| "csv_read Quoted cur done (c # s) =
     (if c = CHR 0x22 then csv_read QuoteSeen cur done s else csv_read Quoted (c # cur) done s)"
| "csv_read QuoteSeen cur done (c # s) =
     (if c = CHR 0x22 then csv_read Quoted (c # cur) done s
      else if c = CHR '','' then csv_read FieldStart [] (rev cur # done) s
      else if c = CHR 0x0A then Some (rev (rev cur # done), s)
      else None)"
| "csv_read m cur done (c # s) =
     (if c = CHR 0x22 then (if m = FieldStart then csv_read Quoted [] done s else None)
      else if c = CHR '','' then csv_read FieldStart [] (rev cur # done) s
      else if c = CHR 0x0A then Some (rev (rev cur # done), s)
      else csv_read Plain (c # cur) done s)"

fun csv_read_all :: "nat \<Rightarrow> string \<Rightarrow> string list list option" where
  "csv_read_all n [] = Some []"
| "csv_read_all 0 s = None"
| "csv_read_all (Suc n) s =
     (case csv_read FieldStart [] [] s of
        None \<Rightarrow> None
      | Some (fs, r) \<Rightarrow> map_option (\<lambda>rest. fs # rest) (csv_read_all n r))"

section \<open>Properties\<close>

definition record_end :: "char \<Rightarrow> bool" where
  "record_end d \<longleftrightarrow> d = CHR '','' \<or> d = CHR 0x0A"

definition after_field :: "string \<Rightarrow> string list \<Rightarrow> char \<Rightarrow> string \<Rightarrow> (string list \<times> string) option" where
  "after_field f acc d s = (if d = CHR '','' then csv_read FieldStart [] (f # acc) s else Some (rev (f # acc), s))"

lemma csv_read_plain:
  "\<forall>c \<in> set f. c \<notin> {CHR 0x0A, CHR 0x22, CHR '',''} \<Longrightarrow> record_end d \<Longrightarrow>
   csv_read Plain cur acc (f @ d # s) = after_field (rev cur @ f) acc d s"
  by (induction f arbitrary: cur) (auto simp: record_end_def after_field_def)

lemma csv_read_quoted:
  "record_end d \<Longrightarrow>
   csv_read Quoted cur acc (concat (map (\<lambda>c. if c = CHR 0x22 then [CHR 0x22, CHR 0x22] else [c]) f) @ CHR 0x22 # d # s) =
   after_field (rev cur @ f) acc d s"
  by (induction f arbitrary: cur) (auto simp: record_end_def after_field_def)

lemma csv_read_field:
  assumes "record_end d"
  shows "csv_read FieldStart [] acc (csv_field f @ d # s) = after_field f acc d s"
proof (cases "needs_quotes f")
  case True
  then show ?thesis
    using csv_read_quoted[OF assms, of "[]" acc f s] by (simp add: csv_field_def csv_quote_def)
next
  case False
  then have plain: "\<forall>c \<in> set f. c \<notin> {CHR 0x0A, CHR 0x22, CHR '',''}"
    by (auto simp: needs_quotes_def list_ex_iff split: if_splits)
  show ?thesis
  proof (cases f)
    case Nil
    then show ?thesis using assms False by (auto simp: csv_field_def record_end_def after_field_def)
  next
    case (Cons c g)
    then show ?thesis
      using csv_read_plain[of g d "[c]" acc s] plain assms False by (auto simp: csv_field_def)
  qed
qed

lemma csv_read_record:
  "fs \<noteq> [] \<Longrightarrow> csv_read FieldStart [] acc (csv_record fs @ s) = Some (rev acc @ fs, s)"
proof (induction fs arbitrary: acc)
  case (Cons f fs)
  show ?case
  proof (cases fs)
    case Nil
    then show ?thesis
      using csv_read_field[of "CHR 0x0A" acc f s] by (simp add: csv_record_def record_end_def after_field_def)
  next
    case (Cons g gs)
    then have "csv_record (f # fs) @ s = csv_field f @ CHR '','' # (csv_record fs @ s)"
      by (simp add: csv_record_def)
    then show ?thesis
      using csv_read_field[of "CHR '',''" acc f] Cons.IH[of "f # acc"] Cons
      by (simp add: record_end_def after_field_def)
  qed
qed simp

lemma csv_read_records:
  "\<forall>r \<in> set rows. r \<noteq> [] \<Longrightarrow> length rows \<le> n \<Longrightarrow> csv_read_all n (concat (map csv_record rows)) = Some rows"
proof (induction rows arbitrary: n)
  case (Cons r rows)
  obtain m where n: "n = Suc m" using Cons.prems by (cases n) auto
  have "csv_record r @ t \<noteq> []" for t by (simp add: csv_record_def)
  then have "csv_read_all (Suc m) (csv_record r @ t) =
      (case csv_read FieldStart [] [] (csv_record r @ t) of None \<Rightarrow> None
       | Some (fs, q) \<Rightarrow> map_option (\<lambda>rest. fs # rest) (csv_read_all m q))" for t
    by (cases "csv_record r @ t") (simp_all del: csv_read.simps)
  then show ?case using Cons csv_read_record[of r "[]"] n by simp
qed simp

lemma write_csv_rows:
  assumes "ow_f w = FormatCSV" and "ow_wrote w"
  shows "foldl (\<lambda>w r. snd (write_result_to True r w)) w rs =
    w\<lparr>ow_csv := ow_csv w @ concat (map (\<lambda>r. csv_record (csv_row r)) rs)\<rparr>"
  using assms by (induction rs arbitrary: w) (simp_all add: write_result_to_def write_csv_def)

lemma write_csv_all:
  "rs \<noteq> [] \<Longrightarrow> ow_out (write_results rs (new_writer FormatCSV)) = concat (map csv_record (csv_header # map csv_row rs))"
proof (cases rs)
  case (Cons r rs')
  define w where "w = snd (write_result_to True r (new_writer FormatCSV))"
  have "ow_f w = FormatCSV" "ow_wrote w" "ow_csv w = csv_record csv_header @ csv_record (csv_row r)" "ow_out w = []"
    by (simp_all add: w_def write_result_to_def new_writer_def write_csv_def)
  then show ?thesis
    using write_csv_rows[of w rs'] by (simp add: Cons w_def[symmetric] write_results_def flush_writer_def comp_def)
qed simp

text \<open>
  C25: What the CSV writer has put out after a flush reads back, by the reading rules of RFC 4180, as the
  header row followed by one row per result with the very fields of the result: commas, quotes and line
  breaks in organisation names or inputs never move a value to another column or row, and every row has
  as many fields as the header.
\<close>

theorem csv_output_reads_back:
  assumes "rs \<noteq> []"
  shows "csv_read_all (Suc (length rs)) (ow_out (write_results rs (new_writer FormatCSV))) =
      Some (csv_header # map csv_row rs) \<and>
    (\<forall>r \<in> set rs. length (csv_row r) = length csv_header)"
proof -
  have "\<forall>r \<in> set (csv_header # map csv_row rs). r \<noteq> []" by (auto simp: csv_header_def csv_row_def)
  then show ?thesis
    using csv_read_records[of "csv_header # map csv_row rs" "Suc (length rs)"] assms
    by (simp add: write_csv_all del: csv_read_all.simps) (simp add: csv_row_def csv_header_def)
qed

definition sample_result :: result where
  "sample_result = empty_result\<lparr>r_Input := ''a.example'', r_Type := ''domain'', r_Resolved := [Addr4 0x01020304],
     r_ASN := 7713, r_ASNOrg := ''TELKOM, '' @ [CHR 0x22] @ ''PT'' @ [CHR 0x22], r_FinalCountry := ''ID'',
     r_Confidence := ConfHigh, r_Reason := ''brand'', r_LookupDuration := 2500000\<rparr>"

theorem csv_output_reads_back_witness:
  "csv_read_all 2 (ow_out (write_results [sample_result] (new_writer FormatCSV))) =
     Some [csv_header, csv_row sample_result]"
  using csv_output_reads_back[of "[sample_result]"] by (simp add: numeral_2_eq_2)

text \<open>The decoder of the same struct.\<close>

definition dec_uint32 :: "u32 \<Rightarrow> json \<Rightarrow> u32 option" where
  "dec_uint32 x v =
     (case v of
        JNull \<Rightarrow> Some x
      | JNum w \<Rightarrow> if all_digits w \<and> digits_val w < 2 ^ 32 then Some (to_word (digits_val w)) else None
      | _ \<Rightarrow> None)"

definition decode_result :: "json \<Rightarrow> json_result option" where
  "decode_result v =
     Option.bind (struct_members v) (\<lambda>ms.
     Option.bind (dec_field dec_string ''input'' [] ms) (\<lambda>a1.
     Option.bind (dec_field dec_string ''type'' [] ms) (\<lambda>a2.
     Option.bind (dec_field (dec_list dec_string []) ''resolved'' [] ms) (\<lambda>a3.
     Option.bind (dec_field dec_string ''domain_country'' [] ms) (\<lambda>a4.
     Option.bind (dec_field dec_string ''domain_suffix'' [] ms) (\<lambda>a5.
     Option.bind (dec_field dec_string ''ip_country'' [] ms) (\<lambda>a6.
     Option.bind (dec_field dec_uint32 ''asn'' 0 ms) (\<lambda>a7.
     Option.bind (dec_field dec_string ''asn_org'' [] ms) (\<lambda>a8.
     Option.bind (dec_field dec_string ''asn_country'' [] ms) (\<lambda>a9.
     Option.bind (dec_field dec_string ''cert_country'' [] ms) (\<lambda>a10.
     Option.bind (dec_field dec_string ''ctlog_country'' [] ms) (\<lambda>a11.
     Option.bind (dec_field dec_string ''content_country'' [] ms) (\<lambda>a12.
     Option.bind (dec_field dec_string ''wayback_country'' [] ms) (\<lambda>a13.
     Option.bind (dec_field dec_string ''registrant_country'' [] ms) (\<lambda>a14.
     Option.bind (dec_field dec_string ''registry'' [] ms) (\<lambda>a15.
     Option.bind (dec_field dec_string ''final_country'' [] ms) (\<lambda>a16.
     Option.bind (dec_field dec_string ''confidence'' [] ms) (\<lambda>a17.
     Option.bind (dec_field dec_string ''reason'' [] ms) (\<lambda>a18.
     Option.bind (dec_field dec_int64 ''lookup_ms'' 0 ms) (\<lambda>a19.
       Some \<lparr>jr_Input = a1, jr_Type = a2, jr_Resolved = a3, jr_DomainCountry = a4, jr_DomainSuffix = a5,
         jr_IPCountry = a6, jr_ASN = a7, jr_ASNOrg = a8, jr_ASNCountry = a9, jr_CertCountry = a10,
         jr_CTLogCountry = a11, jr_ContentCountry = a12, jr_WaybackCountry = a13, jr_RegistrantCountry = a14,
         jr_Registry = a15, jr_FinalCountry = a16, jr_Confidence = a17, jr_Reason = a18, jr_LookupMillis = a19\<rparr>))))))))))))))))))))"

lemma result_names:
  "fold_name ''input'' = ''input''" "fold_name ''type'' = ''type''" "fold_name ''resolved'' = ''resolved''"
  "fold_name ''domain_country'' = ''domain_country''" "fold_name ''domain_suffix'' = ''domain_suffix''"
  "fold_name ''ip_country'' = ''ip_country''" "fold_name ''asn'' = ''asn''" "fold_name ''asn_org'' = ''asn_org''"
  "fold_name ''asn_country'' = ''asn_country''" "fold_name ''cert_country'' = ''cert_country''"
  "fold_name ''ctlog_country'' = ''ctlog_country''" "fold_name ''content_country'' = ''content_country''"
  "fold_name ''wayback_country'' = ''wayback_country''" "fold_name ''registrant_country'' = ''registrant_country''"
  "fold_name ''registry'' = ''registry''" "fold_name ''final_country'' = ''final_country''"
  "fold_name ''confidence'' = ''confidence''" "fold_name ''reason'' = ''reason''" "fold_name ''lookup_ms'' = ''lookup_ms''"
  by code_simp+

lemma dec_field_append:
  "dec_field d name x (ms @ ns) = Option.bind (dec_field d name x ms) (\<lambda>y. dec_field d name y ns)"
  by (induction d name x ms rule: dec_field.induct) (auto split: option.split)

lemma dec_field_skip:
  "fold_name k \<noteq> fold_name name \<Longrightarrow> dec_field d name x (omit_empty k v) = Some x"
  by (simp add: omit_empty_def)

lemma dec_field_omit: "dec_field dec_string k [] (omit_empty k v) = Some v"
  by (simp add: omit_empty_def dec_string_def)

lemma dec_all_strings: "dec_all dec_string [] (map JStr ss) = Some ss"
  by (induction ss) (simp_all add: dec_string_def)

lemma milliseconds_range: "\<bar>d\<bar> < 2 ^ 63 \<Longrightarrow> - (2 ^ 63) \<le> milliseconds d \<and> milliseconds d < 2 ^ 63"
  by (simp add: milliseconds_def abs_less_iff; intro impI conjI; linarith?)

lemma result_json_wf: "json_wf (result_json v)"
  by (auto simp: result_json_def omit_empty_def dec_digits_wf[simplified] int64_text_wf[simplified])

lemma decode_result_json:
  assumes "- (2 ^ 63) \<le> jr_LookupMillis v" and "jr_LookupMillis v < 2 ^ 63"
  shows "decode_result (result_json v) = Some v"
proof -
  have asn: "dec_uint32 0 (JNum (dec_digits (unat (jr_ASN v)))) = Some (jr_ASN v)"
    using unat32_less[of "jr_ASN v"] by (simp add: dec_uint32_def)
  have res: "dec_list dec_string [] [] (JArr (map JStr (jr_Resolved v))) = Some (jr_Resolved v)"
    by (simp add: dec_list_def dec_all_strings)
  have ms: "parse_int64 (int64_text (jr_LookupMillis v)) = Some (jr_LookupMillis v)" using assms by simp
  show ?thesis
    unfolding decode_result_def result_json_def struct_members_def
    by (simp add: dec_field_append dec_field_skip dec_field_omit result_names asn res ms dec_string_def dec_int64_def
        if_distrib[of "dec_field d n x" for d n x] cong: if_cong)
qed



text \<open>
  The text format does not protect its columns: different results have the same line.
\<close>

lemma text_line_ambiguous:
  "\<exists>r q. text_line r = text_line q \<and> r_FinalCountry r \<noteq> r_FinalCountry q"
proof (intro exI conjI)
  show "text_line (empty_result\<lparr>r_Input := ''a'' @ [CHR 0x09] @ ''US'', r_FinalCountry := ''ID''\<rparr>) =
      text_line (empty_result\<lparr>r_Input := ''a'', r_FinalCountry := ''US'', r_Confidence := ''ID'', r_Reason := [CHR 0x09]\<rparr>)"
    by (simp add: text_line_def empty_result_def)
  show "r_FinalCountry (empty_result\<lparr>r_Input := ''a'' @ [CHR 0x09] @ ''US'', r_FinalCountry := ''ID''\<rparr>) \<noteq>
      r_FinalCountry (empty_result\<lparr>r_Input := ''a'', r_FinalCountry := ''US'', r_Confidence := ''ID'', r_Reason := [CHR 0x09]\<rparr>)"
    by simp
qed

end
