(* ===== verification/Server.thy ===== *)
theory Server
  imports
    Output HostCache
begin

text \<open>
  \<open>internal/server\<close>: routing, the handlers of the HTTP API and the middleware around them, as functions from
  a request and a state to a response and a state.  The classifier, the token bucket of
  \<open>golang.org/x/time/rate\<close>, the Prometheus handler and the texts of decoding errors are parameters.
\<close>

section \<open>Requests, responses and state\<close>

record server_request =
  sq_Method :: string
  sq_Path :: string
  sq_Query :: "string \<Rightarrow> string"
  sq_Header :: "string \<Rightarrow> string"
  sq_RemoteAddr :: string
  sq_Body :: bytes
  sq_Time :: int
  sq_Rand :: bytes
  sq_RequestID :: string

record server_response =
  sp_Status :: int
  sp_Header :: "(string \<times> string) list"
  sp_Body :: string

record log_entry =
  lg_method :: string
  lg_path :: string
  lg_status :: int
  lg_request_id :: string
  lg_remote :: string

record ('w, 'b) server_state =
  ss_world :: 'w
  ss_buckets :: "string \<Rightarrow> 'b option"
  ss_requests :: "(string \<times> int) list"
  ss_log :: "log_entry list"
  ss_age :: "int option"

record ('w, 'b) server =
  sv_cls :: "string \<Rightarrow> 'w \<Rightarrow> (classify_error + result) \<times> 'w"
  sv_dbAge :: "('w \<Rightarrow> int option \<times> 'w) option"
  sv_metrics :: bool
  sv_RateLimit :: int
  sv_maxBatch :: int
  sv_bucket :: "int \<Rightarrow> int \<Rightarrow> 'b"
  sv_allow :: "int \<Rightarrow> 'b \<Rightarrow> bool \<times> 'b"
  sv_prom :: "'w \<Rightarrow> string"
  sv_jsonerr :: "bytes \<Rightarrow> string"

text \<open>
  \<open>New\<close>: the address and the two timeouts only reach \<open>http.Server\<close>; the token bucket, the Prometheus handler and
  the texts of JSON errors are given.
\<close>

record server_conf =
  sf_Addr :: string
  sf_ReadTimeout :: int
  sf_WriteTimeout :: int
  sf_RateLimit :: int
  sf_MaxBatch :: int

definition new_server ::
  "server_conf \<Rightarrow> (string \<Rightarrow> 'w \<Rightarrow> (classify_error + result) \<times> 'w) \<Rightarrow> ('w \<Rightarrow> int option \<times> 'w) option \<Rightarrow> bool \<Rightarrow>
   (int \<Rightarrow> int \<Rightarrow> 'b) \<Rightarrow> (int \<Rightarrow> 'b \<Rightarrow> bool \<times> 'b) \<Rightarrow> ('w \<Rightarrow> string) \<Rightarrow> (bytes \<Rightarrow> string) \<Rightarrow> ('w, 'b) server" where
  "new_server cfg cls dbAge metrics bucket allow prom jsonerr =
     \<lparr>sv_cls = cls, sv_dbAge = dbAge, sv_metrics = metrics, sv_RateLimit = sf_RateLimit cfg,
      sv_maxBatch = sf_MaxBatch cfg, sv_bucket = bucket, sv_allow = allow, sv_prom = prom, sv_jsonerr = jsonerr\<rparr>"

type_synonym ('w, 'b) handler =
  "server_request \<Rightarrow> ('w, 'b) server_state \<Rightarrow> server_response \<times> ('w, 'b) server_state"

definition http_error :: "string \<Rightarrow> int \<Rightarrow> server_response" where
  "http_error msg code =
     \<lparr>sp_Status = code,
      sp_Header = [(''Content-Type'', ''text/plain; charset=utf-8''), (''X-Content-Type-Options'', ''nosniff'')],
      sp_Body = msg @ [CHR 0x0A]\<rparr>"

definition plain_response :: "int \<Rightarrow> string \<Rightarrow> server_response" where
  "plain_response code body = \<lparr>sp_Status = code, sp_Header = [], sp_Body = body\<rparr>"

definition write_json :: "int \<Rightarrow> json \<Rightarrow> server_response" where
  "write_json code v =
     \<lparr>sp_Status = code, sp_Header = [(''Content-Type'', ''application/json'')], sp_Body = json_out None v @ [CHR 0x0A]\<rparr>"

definition classify_error_text :: "classify_error \<Rightarrow> string" where
  "classify_error_text e =
     (case e of
        ErrBogon \<Rightarrow> ''regionchecker: reserved range''
      | ErrUnresolvable \<Rightarrow> ''regionchecker: host unresolvable''
      | ErrInvalidInput \<Rightarrow> ''regionchecker: invalid ip or host''
      | ErrUnknownCountry \<Rightarrow> ''regionchecker: no country mapping'')"

text \<open>\<open>classifier.Result\<close> under \<open>json.Encoder\<close>: the struct has no tags, so the members carry the Go names.\<close>

definition marshal_addr :: "addr \<Rightarrow> string" where
  "marshal_addr a = (if a = AddrZero then [] else addr_string a)"

definition result_doc :: "result \<Rightarrow> json" where
  "result_doc r =
     JObj [(''Input'', JStr (r_Input r)), (''Type'', JStr (r_Type r)),
       (''Resolved'', if r_Resolved r = [] then JNull else JArr (map (\<lambda>a. JStr (marshal_addr a)) (r_Resolved r))),
       (''DomainCountry'', JStr (r_DomainCountry r)), (''DomainSuffix'', JStr (r_DomainSuffix r)),
       (''IPCountry'', JStr (r_IPCountry r)), (''ASN'', JNum (dec_digits (unat (r_ASN r)))),
       (''ASNOrg'', JStr (r_ASNOrg r)), (''ASNCountry'', JStr (r_ASNCountry r)),
       (''CertCountry'', JStr (r_CertCountry r)), (''CTLogCountry'', JStr (r_CTLogCountry r)),
       (''RegistrantCountry'', JStr (r_RegistrantCountry r)), (''ContentCountry'', JStr (r_ContentCountry r)),
       (''WaybackCountry'', JStr (r_WaybackCountry r)), (''Registry'', JStr (r_Registry r)),
       (''FinalCountry'', JStr (r_FinalCountry r)), (''Confidence'', JStr (r_Confidence r)),
       (''Reason'', JStr (r_Reason r)), (''LookupDuration'', JNum (int64_text (r_LookupDuration r)))]"

section \<open>Handlers\<close>

definition http_error_for_classifier :: "classify_error \<Rightarrow> server_response" where
  "http_error_for_classifier e =
     http_error (classify_error_text e)
       (case e of ErrInvalidInput \<Rightarrow> 400 | ErrBogon \<Rightarrow> 422 | ErrUnresolvable \<Rightarrow> 404 | ErrUnknownCountry \<Rightarrow> 500)"

definition handle_check :: "('w, 'b) server \<Rightarrow> ('w, 'b) handler" where
  "handle_check sv r s =
     (let host = sq_Query r ''host'' in
      if host = [] then (http_error ''missing host param'' 400, s)
      else (case sv_cls sv host (ss_world s) of
          (Inl e, w) \<Rightarrow> (http_error_for_classifier e, s\<lparr>ss_world := w\<rparr>)
        | (Inr res, w) \<Rightarrow> (write_json 200 (result_doc res), s\<lparr>ss_world := w\<rparr>)))"

record batch_request =
  br_Hosts :: "string list"
  br_Country :: string
  br_Confidence :: string

definition decode_batch :: "bytes \<Rightarrow> batch_request option" where
  "decode_batch body =
     Option.bind (json_decode_first body) (\<lambda>v.
     Option.bind (struct_members v) (\<lambda>ms.
     Option.bind (dec_field (dec_list dec_string []) ''hosts'' [] ms) (\<lambda>hs.
     Option.bind (dec_field dec_string ''country'' [] ms) (\<lambda>cc.
     Option.bind (dec_field dec_string ''confidence'' [] ms) (\<lambda>cf.
       Some \<lparr>br_Hosts = hs, br_Country = cc, br_Confidence = cf\<rparr>)))))"

definition error_result :: "string \<Rightarrow> classify_error \<Rightarrow> result" where
  "error_result h e = empty_result\<lparr>r_Input := h, r_Reason := classify_error_text e\<rparr>"

fun batch_results ::
  "(string \<Rightarrow> 'w \<Rightarrow> (classify_error + result) \<times> 'w) \<Rightarrow> string \<Rightarrow> string list \<Rightarrow> 'w \<Rightarrow> result list \<times> 'w" where
  "batch_results cls cc [] w = ([], w)"
| "batch_results cls cc (h # hs) w =
     (case cls h w of
        (Inl e, w1) \<Rightarrow> (case batch_results cls cc hs w1 of (rs, w2) \<Rightarrow> (error_result h e # rs, w2))
      | (Inr r, w1) \<Rightarrow>
          if cc \<noteq> [] \<and> r_FinalCountry r \<noteq> cc then batch_results cls cc hs w1
          else (case batch_results cls cc hs w1 of (rs, w2) \<Rightarrow> (r # rs, w2)))"

definition batch_limit :: "('w, 'b) server \<Rightarrow> int" where
  "batch_limit sv = (if sv_maxBatch sv = 0 then 1000 else sv_maxBatch sv)"

definition handle_batch :: "('w, 'b) server \<Rightarrow> ('w, 'b) handler" where
  "handle_batch sv r s =
     (case decode_batch (sq_Body r) of
        None \<Rightarrow> (http_error (''bad json: '' @ sv_jsonerr sv (sq_Body r)) 400, s)
      | Some req \<Rightarrow>
          if batch_limit sv < int (length (br_Hosts req)) then (http_error ''batch too large'' 413, s)
          else (case batch_results (sv_cls sv) (br_Country req) (br_Hosts req) (ss_world s) of
              (rs, w) \<Rightarrow> (write_json 200 (JObj [(''results'', JArr (map result_doc rs))]), s\<lparr>ss_world := w\<rparr>)))"

definition handle_healthz :: "('w, 'b) handler" where
  "handle_healthz r s = (plain_response 200 ''ok'', s)"

definition max_age_for_ready :: int where
  "max_age_for_ready = 48 * 3600 * second_ns"

definition handle_readyz :: "('w, 'b) server \<Rightarrow> ('w, 'b) handler" where
  "handle_readyz sv r s =
     (case sv_dbAge sv of
        None \<Rightarrow> (plain_response 200 [], s)
      | Some age_of \<Rightarrow>
          (case age_of (ss_world s) of
             (None, w) \<Rightarrow> (http_error ''db age unknown'' 503, s\<lparr>ss_world := w\<rparr>)
           | (Some age, w) \<Rightarrow>
               (let s' = (if sv_metrics sv then s\<lparr>ss_world := w, ss_age := Some age\<rparr> else s\<lparr>ss_world := w\<rparr>) in
                if max_age_for_ready < age then (http_error ''db stale'' 503, s')
                else (plain_response 200 [], s'))))"

section \<open>Routing\<close>

text \<open>
  The patterns of \<open>http.ServeMux\<close>: a pattern for GET also takes HEAD; a known path with another method is
  405, an unknown path 404.  Paths arrive cleaned.
\<close>

definition serve_mux :: "('w, 'b) server \<Rightarrow> ('w, 'b) handler" where
  "serve_mux sv r s =
     (let get = (sq_Method r = ''GET'' \<or> sq_Method r = ''HEAD'');
          bad = (http_error ''Method Not Allowed'' 405, s) in
      if sq_Path r = ''/v1/check'' then (if get then handle_check sv r s else bad)
      else if sq_Path r = ''/v1/batch'' then (if sq_Method r = ''POST'' then handle_batch sv r s else bad)
      else if sq_Path r = ''/healthz'' then (if get then handle_healthz r s else bad)
      else if sq_Path r = ''/readyz'' then (if get then handle_readyz sv r s else bad)
      else if sq_Path r = ''/metrics'' then (if get then (plain_response 200 (sv_prom sv (ss_world s)), s) else bad)
      else (http_error ''404 page not found'' 404, s))"

section \<open>Middleware\<close>

text \<open>\<open>net.SplitHostPort\<close>, as far as its host is used.\<close>

definition split_host :: "string \<Rightarrow> string option" where
  "split_host hp =
     (if CHR '':'' \<notin> set hp then None
      else
        (let i = length hp - length (after_last CHR '':'' hp) - 1 in
         if hd hp = CHR ''['' then
           (let e = length (takeWhile (\<lambda>c. c \<noteq> CHR '']'') hp) in
            if length hp \<le> e then None
            else if e + 1 \<noteq> i then None
            else if CHR ''['' \<in> set (drop 1 hp) \<or> CHR '']'' \<in> set (drop (e + 1) hp) then None
            else Some (take (e - 1) (drop 1 hp)))
         else
           (let host = take i hp in
            if CHR '':'' \<in> set host then None
            else if CHR ''['' \<in> set hp \<or> CHR '']'' \<in> set hp then None
            else Some host)))"

definition client_ip :: "server_request \<Rightarrow> string" where
  "client_ip r =
     (if sq_Header r ''X-Forwarded-For'' \<noteq> [] then sq_Header r ''X-Forwarded-For''
      else (case split_host (sq_RemoteAddr r) of None \<Rightarrow> sq_RemoteAddr r | Some h \<Rightarrow> h))"

definition bucket_of :: "('w, 'b) server \<Rightarrow> (string \<Rightarrow> 'b option) \<Rightarrow> string \<Rightarrow> 'b" where
  "bucket_of sv bs ip =
     (case bs ip of Some b \<Rightarrow> b | None \<Rightarrow> sv_bucket sv (sv_RateLimit sv) (sv_RateLimit sv))"

definition limiter_allow :: "('w, 'b) server \<Rightarrow> server_request \<Rightarrow> (string \<Rightarrow> 'b option) \<Rightarrow> bool \<times> (string \<Rightarrow> 'b option)" where
  "limiter_allow sv r bs =
     (case sv_allow sv (sq_Time r) (bucket_of sv bs (client_ip r)) of
        (ok, b) \<Rightarrow> (ok, bs(client_ip r \<mapsto> b)))"

definition rate_limiter :: "('w, 'b) server \<Rightarrow> ('w, 'b) handler \<Rightarrow> ('w, 'b) handler" where
  "rate_limiter sv next_h r s =
     (case limiter_allow sv r (ss_buckets s) of
        (ok, bs) \<Rightarrow>
          (let s' = s\<lparr>ss_buckets := bs\<rparr> in
           if ok then next_h r s' else (http_error ''rate limit exceeded'' 429, s')))"

definition slog_middleware :: "('w, 'b) server \<Rightarrow> ('w, 'b) handler \<Rightarrow> ('w, 'b) handler" where
  "slog_middleware sv next_h r s =
     (case next_h r s of
        (resp, s1) \<Rightarrow>
          (let s2 = (if sv_metrics sv then s1\<lparr>ss_requests := ss_requests s1 @ [(sq_Path r, sp_Status resp)]\<rparr> else s1) in
           (resp, s2\<lparr>ss_log := ss_log s2 @
              [\<lparr>lg_method = sq_Method r, lg_path = sq_Path r, lg_status = sp_Status resp,
                lg_request_id = sq_RequestID r, lg_remote = client_ip r\<rparr>]\<rparr>)))"

definition request_id :: "('w, 'b) handler \<Rightarrow> ('w, 'b) handler" where
  "request_id next_h r s =
     (let rid = (if sq_Header r ''X-Request-Id'' = [] then hex_text (sq_Rand r) else sq_Header r ''X-Request-Id'') in
      (case next_h (r\<lparr>sq_RequestID := rid\<rparr>) s of
         (resp, s') \<Rightarrow> (resp\<lparr>sp_Header := (''X-Request-Id'', rid) # sp_Header resp\<rparr>, s')))"

definition request_id_from_context :: "server_request \<Rightarrow> string" where
  "request_id_from_context r = sq_RequestID r"

text \<open>\<open>New\<close>: the order of the middleware.\<close>

definition server_handler :: "('w, 'b) server \<Rightarrow> ('w, 'b) handler" where
  "server_handler sv =
     (let h = slog_middleware sv (serve_mux sv) in
      request_id (if 0 < sv_RateLimit sv then rate_limiter sv h else h))"

text \<open>The handler served for a sequence of requests.\<close>

fun serve_all :: "('w, 'b) server \<Rightarrow> server_request list \<Rightarrow> ('w, 'b) server_state \<Rightarrow> server_response list \<times> ('w, 'b) server_state" where
  "serve_all sv [] s = ([], s)"
| "serve_all sv (r # rs) s =
     (case server_handler sv r s of
        (p, s1) \<Rightarrow> (case serve_all sv rs s1 of (ps, s2) \<Rightarrow> (p # ps, s2)))"

text \<open>
  \<open>Run\<close>: the result of serving: an error of \<open>ListenAndServe\<close> other than \<open>ErrServerClosed\<close> when it comes before
  the context is done, otherwise the result of the shutdown.
\<close>

datatype serve_event = ContextDone | ListenError | ListenClosed

definition run_server :: "serve_event \<Rightarrow> bool \<Rightarrow> bool" where
  "run_server ev shutdown_ok =
     (case ev of ContextDone \<Rightarrow> shutdown_ok | ListenError \<Rightarrow> False | ListenClosed \<Rightarrow> True)"

section \<open>Properties\<close>

text \<open>
  C30: The status of \<open>/v1/check\<close>: 400 for a missing host and for a host name without a resolver, 422 for an
  address in a reserved range, 200 for everything else, a host that does not resolve included; the
  branches for 404 and 500 are never taken.
\<close>

theorem check_status:
  assumes "sv_cls sv = classify c env"
  shows "sp_Status (fst (handle_check sv r s)) =
    (let h = sq_Query r ''host'' in
     if h = [] \<or> parse_addr h = None \<and> c_Resolver c = None then 400
     else (case parse_addr h of
         Some a \<Rightarrow> if match_bogon a = CatPublic then 200 else 422
       | None \<Rightarrow> 200))"
proof -
  let ?h = "sq_Query r ''host''"
  obtain v w where v: "classify c env ?h (ss_world s) = (v, w)" by fastforce
  note e = classify_errors[of c env ?h "ss_world s"]
  show ?thesis
  proof (cases v)
    case (Inl x)
    then show ?thesis
      using e[of x] v assms by (auto simp: handle_check_def Let_def http_error_for_classifier_def http_error_def)
  next
    case (Inr q)
    then have "\<not> (?h = [] \<or> parse_addr ?h = None \<and> c_Resolver c = None)"
      "\<forall>a. parse_addr ?h = Some a \<longrightarrow> match_bogon a = CatPublic"
      using e[of ErrInvalidInput] e[of ErrBogon] v by auto
    then show ?thesis
      using v assms Inr by (auto simp: handle_check_def Let_def write_json_def split: option.split)
  qed
qed

text \<open>The verdicts of a batch, in the order of its hosts.\<close>

fun verdicts :: "(string \<Rightarrow> 'w \<Rightarrow> (classify_error + result) \<times> 'w) \<Rightarrow> string list \<Rightarrow> 'w \<Rightarrow> (string \<times> (classify_error + result)) list" where
  "verdicts cls [] w = []"
| "verdicts cls (h # hs) w = (case cls h w of (v, w') \<Rightarrow> (h, v) # verdicts cls hs w')"

definition batch_keeps :: "string \<Rightarrow> string \<times> (classify_error + result) \<Rightarrow> bool" where
  "batch_keeps cc v = (case snd v of Inl e \<Rightarrow> True | Inr r \<Rightarrow> cc = [] \<or> r_FinalCountry r = cc)"

definition batch_row :: "string \<times> (classify_error + result) \<Rightarrow> result" where
  "batch_row v = (case snd v of Inl e \<Rightarrow> error_result (fst v) e | Inr r \<Rightarrow> r)"

lemma batch_results_rows: "fst (batch_results cls cc hs w) = map batch_row (filter (batch_keeps cc) (verdicts cls hs w))"
proof (induction hs arbitrary: w)
  case (Cons h hs)
  obtain v w' where v: "cls h w = (v, w')" by fastforce
  show ?case using Cons.IH[of w'] v by (cases v) (auto simp: batch_keeps_def batch_row_def split_beta)
qed simp

lemma verdicts_hosts: "map fst (verdicts cls hs w) = hs"
  by (induction hs arbitrary: w) (auto split: prod.split)

text \<open>
  C29: The answer to a batch that decodes and is within the limit: one row per host in the order of the
  request, a host whose classification fails as a row with its reason, and, when a country is given, only
  the results with that country next to the failures.  The confidence of the request changes nothing.
\<close>

theorem batch_answer:
  assumes "decode_batch (sq_Body r) = Some req" and "int (length (br_Hosts req)) \<le> batch_limit sv"
  shows "fst (handle_batch sv r s) =
      write_json 200 (JObj [(''results'', JArr (map (result_doc \<circ> batch_row)
        (filter (batch_keeps (br_Country req)) (verdicts (sv_cls sv) (br_Hosts req) (ss_world s)))))]) \<and>
    map fst (verdicts (sv_cls sv) (br_Hosts req) (ss_world s)) = br_Hosts req"
proof -
  have "handle_batch sv r s = (write_json 200 (JObj [(''results'', JArr (map result_doc
      (fst (batch_results (sv_cls sv) (br_Country req) (br_Hosts req) (ss_world s)))))]),
      s\<lparr>ss_world := snd (batch_results (sv_cls sv) (br_Country req) (br_Hosts req) (ss_world s))\<rparr>)"
    using assms by (simp add: handle_batch_def split_beta)
  then show ?thesis by (simp add: batch_results_rows verdicts_hosts)
qed

section \<open>Rate limiting\<close>

fun limiter_run :: "('w, 'b) server \<Rightarrow> server_request list \<Rightarrow> (string \<Rightarrow> 'b option) \<Rightarrow> bool list" where
  "limiter_run sv [] bs = []"
| "limiter_run sv (r # rs) bs = (case limiter_allow sv r bs of (ok, bs') \<Rightarrow> ok # limiter_run sv rs bs')"

text \<open>A single token bucket on the arrival times of one client.\<close>

fun bucket_run :: "('w, 'b) server \<Rightarrow> int list \<Rightarrow> 'b \<Rightarrow> bool list" where
  "bucket_run sv [] b = []"
| "bucket_run sv (t # ts) b = (case sv_allow sv t b of (ok, b') \<Rightarrow> ok # bucket_run sv ts b')"

lemma limiter_run_client:
  "map snd (filter (\<lambda>x. client_ip (fst x) = k) (zip rs (limiter_run sv rs bs))) =
   bucket_run sv (map sq_Time (filter (\<lambda>r. client_ip r = k) rs)) (bucket_of sv bs k)"
proof (induction rs arbitrary: bs)
  case (Cons r rs)
  obtain ok b where a: "sv_allow sv (sq_Time r) (bucket_of sv bs (client_ip r)) = (ok, b)" by fastforce
  then have "bucket_of sv (bs(client_ip r \<mapsto> b)) k = (if client_ip r = k then b else bucket_of sv bs k)"
    by (simp add: bucket_of_def)
  then show ?case
    using Cons.IH[of "bs(client_ip r \<mapsto> b)"] a by (auto simp: limiter_allow_def simp del: fun_upd_apply)
qed simp

text \<open>No handler answers 429, and none touches the buckets.\<close>

lemma mux_frame:
  "sp_Status (fst (serve_mux sv r s)) \<noteq> 429 \<and> ss_buckets (snd (serve_mux sv r s)) = ss_buckets s"
proof -
  have "sp_Status (fst (handle_check sv r s)) \<noteq> 429 \<and> ss_buckets (snd (handle_check sv r s)) = ss_buckets s"
    by (auto simp: handle_check_def Let_def http_error_def http_error_for_classifier_def write_json_def
        split: prod.split sum.split classify_error.split)
  moreover have "sp_Status (fst (handle_batch sv r s)) \<noteq> 429 \<and> ss_buckets (snd (handle_batch sv r s)) = ss_buckets s"
    by (auto simp: handle_batch_def http_error_def write_json_def split: prod.split option.split)
  moreover have "sp_Status (fst (handle_readyz sv r s)) \<noteq> 429 \<and> ss_buckets (snd (handle_readyz sv r s)) = ss_buckets s"
    by (auto simp: handle_readyz_def Let_def http_error_def plain_response_def split: prod.split option.split)
  ultimately show ?thesis
    by (simp add: serve_mux_def Let_def handle_healthz_def http_error_def plain_response_def)
qed

lemma slog_frame:
  "sp_Status (fst (slog_middleware sv (serve_mux sv) r s)) \<noteq> 429 \<and>
   ss_buckets (snd (slog_middleware sv (serve_mux sv) r s)) = ss_buckets s"
  using mux_frame[of sv r s] by (simp add: slog_middleware_def Let_def split_beta)

lemma client_ip_id [simp]: "client_ip (r\<lparr>sq_RequestID := i\<rparr>) = client_ip r"
  by (simp add: client_ip_def split: option.split)

lemma handler_429:
  assumes "0 < sv_RateLimit sv"
  shows "sp_Status (fst (server_handler sv r s)) = 429 \<longleftrightarrow> \<not> fst (limiter_allow sv r (ss_buckets s))"
    and "ss_buckets (snd (server_handler sv r s)) = snd (limiter_allow sv r (ss_buckets s))"
proof -
  let ?i = "if sq_Header r ''X-Request-Id'' = [] then hex_text (sq_Rand r) else sq_Header r ''X-Request-Id''"
  let ?r = "r\<lparr>sq_RequestID := ?i\<rparr>"
  obtain ok bs where l: "limiter_allow sv r (ss_buckets s) = (ok, bs)" by fastforce
  then have l': "limiter_allow sv ?r (ss_buckets s) = (ok, bs)" by (simp add: limiter_allow_def)
  note f = slog_frame[of sv ?r "s\<lparr>ss_buckets := bs\<rparr>"]
  show "sp_Status (fst (server_handler sv r s)) = 429 \<longleftrightarrow> \<not> fst (limiter_allow sv r (ss_buckets s))"
    "ss_buckets (snd (server_handler sv r s)) = snd (limiter_allow sv r (ss_buckets s))"
    using l l' f assms
    by (simp_all add: server_handler_def Let_def request_id_def rate_limiter_def split_beta http_error_def)
qed

lemma serve_all_429:
  "0 < sv_RateLimit sv \<Longrightarrow>
   map (\<lambda>p. sp_Status p \<noteq> 429) (fst (serve_all sv rs s)) = limiter_run sv rs (ss_buckets s)"
proof (induction rs arbitrary: s)
  case (Cons r rs)
  then show ?case
    using handler_429[OF Cons.prems, of r s] Cons.IH[of "snd (server_handler sv r s)"] by (simp add: split_beta)
qed simp

text \<open>
  C24: Clients do not share a budget: in any sequence of requests, which of the requests of one client are
  rejected with 429 is decided by a token bucket of its own on the arrival times of that client alone.  A
  client is what \<open>clientIP\<close> returns, so whoever chooses the X-Forwarded-For header chooses the bucket.
\<close>

theorem rate_limit_per_client:
  assumes "0 < sv_RateLimit sv"
  shows "map snd (filter (\<lambda>x. client_ip (fst x) = k)
      (zip rs (map (\<lambda>p. sp_Status p \<noteq> 429) (fst (serve_all sv rs s))))) =
    bucket_run sv (map sq_Time (filter (\<lambda>r. client_ip r = k) rs)) (bucket_of sv (ss_buckets s) k)"
  by (simp add: serve_all_429[OF assms] limiter_run_client)

text \<open>A bucket that takes one request per second, and two clients.\<close>

definition sample_server2 :: "(unit, int) server" where
  "sample_server2 = \<lparr>sv_cls = (\<lambda>h w. (Inr empty_result, w)), sv_dbAge = None, sv_metrics = True, sv_RateLimit = 1,
     sv_maxBatch = 0, sv_bucket = (\<lambda>l b. - 1), sv_allow = (\<lambda>t b. if b < t then (True, t) else (False, b)),
     sv_prom = (\<lambda>_. []), sv_jsonerr = (\<lambda>_. [])\<rparr>"

definition sample_request :: "string \<Rightarrow> int \<Rightarrow> server_request" where
  "sample_request ip t = \<lparr>sq_Method = ''GET'', sq_Path = ''/healthz'', sq_Query = (\<lambda>_. []), sq_Header = (\<lambda>_. []),
     sq_RemoteAddr = ip @ '':1234'', sq_Body = [], sq_Time = t, sq_Rand = [], sq_RequestID = []\<rparr>"

definition sample_state :: "(unit, int) server_state" where
  "sample_state = \<lparr>ss_world = (), ss_buckets = Map.empty, ss_requests = [], ss_log = [], ss_age = None\<rparr>"

theorem rate_limit_per_client_witness:
  "map snd (filter (\<lambda>x. client_ip (fst x) = ''10.0.0.1'')
      (zip [sample_request ''10.0.0.1'' 0, sample_request ''10.0.0.2'' 0, sample_request ''10.0.0.1'' 0]
        (map (\<lambda>p. sp_Status p \<noteq> 429) (fst (serve_all sample_server2
          [sample_request ''10.0.0.1'' 0, sample_request ''10.0.0.2'' 0, sample_request ''10.0.0.1'' 0] sample_state))))) =
    [True, False]"
proof -
  have "client_ip (sample_request ''10.0.0.1'' t) = ''10.0.0.1''" "client_ip (sample_request ''10.0.0.2'' t) = ''10.0.0.2''" for t
  proof -
    have "split_host ''10.0.0.1:1234'' = Some ''10.0.0.1''" "split_host ''10.0.0.2:1234'' = Some ''10.0.0.2''" by code_simp+
    then show "client_ip (sample_request ''10.0.0.1'' t) = ''10.0.0.1''" "client_ip (sample_request ''10.0.0.2'' t) = ''10.0.0.2''"
      by (simp_all add: client_ip_def sample_request_def)
  qed
  moreover have "0 < sv_RateLimit sample_server2" by (simp add: sample_server2_def)
  ultimately show ?thesis
    by (subst rate_limit_per_client) (simp_all add: bucket_of_def sample_state_def, simp_all add: sample_server2_def sample_request_def)
qed

definition sample_batch :: bytes where
  "sample_batch = json_out None (JObj [(''hosts'', JArr [JStr ''a.id'', JStr ''b.us'']), (''country'', JStr ''ID''), (''confidence'', JStr ''high'')])"

text \<open>A classifier that knows one host and fails on the other.\<close>

definition batch_server :: "(unit, int) server" where
  "batch_server = sample_server2\<lparr>sv_cls := (\<lambda>h w.
     (if h = ''a.id'' then Inr (empty_result\<lparr>r_Input := h, r_FinalCountry := ''ID''\<rparr>) else Inl ErrBogon, w))\<rparr>"

theorem batch_answer_witness:
  "fst (handle_batch batch_server ((sample_request ''10.0.0.1'' 0)\<lparr>sq_Body := sample_batch\<rparr>) sample_state) =
     write_json 200 (JObj [(''results'', JArr
       [result_doc (empty_result\<lparr>r_Input := ''a.id'', r_FinalCountry := ''ID''\<rparr>), result_doc (error_result ''b.us'' ErrBogon)])])"
proof -
  have "decode_batch sample_batch = Some \<lparr>br_Hosts = [''a.id'', ''b.us''], br_Country = ''ID'', br_Confidence = ''high''\<rparr>"
    by code_simp
  then have d: "decode_batch (sq_Body ((sample_request ''10.0.0.1'' 0)\<lparr>sq_Body := sample_batch\<rparr>)) =
      Some \<lparr>br_Hosts = [''a.id'', ''b.us''], br_Country = ''ID'', br_Confidence = ''high''\<rparr>"
    by simp
  have "int (length (br_Hosts \<lparr>br_Hosts = [''a.id'', ''b.us''], br_Country = ''ID'', br_Confidence = ''high''\<rparr>)) \<le> batch_limit batch_server"
    by (simp add: batch_limit_def batch_server_def sample_server2_def)
  from batch_answer[OF d this, of sample_state] show ?thesis
    by (simp add: batch_server_def batch_keeps_def batch_row_def)
qed

theorem check_status_witness:
  "sp_Status (fst (handle_check (sample_server2\<lparr>sv_cls := classify (new_classifier (\<lambda>w. (0, w)) (\<lambda>a. undefined) None None)
       \<lparr>he_to_ascii = Some, he_psl = (\<lambda>h. ([], False)), he_etld1 = Some\<rparr>\<rparr>)
     ((sample_request ''10.0.0.1'' 0)\<lparr>sq_Query := (\<lambda>_. ''10.0.0.1'')\<rparr>) sample_state)) = 422"
proof -
  have "parse_addr ''10.0.0.1'' = Some (Addr4 0x0A000001)" "match_bogon (Addr4 0x0A000001) \<noteq> CatPublic"
    by code_simp+
  then show ?thesis by (subst check_status) (simp_all add: Let_def)
qed

text \<open>Every response carries the request's identifier, the client's own when it sent one.\<close>

lemma response_request_id:
  "(''X-Request-Id'', if sq_Header r ''X-Request-Id'' = [] then hex_text (sq_Rand r) else sq_Header r ''X-Request-Id'') \<in>
     set (sp_Header (fst (server_handler sv r s)))"
  by (simp add: server_handler_def request_id_def Let_def split_beta)

text \<open>A rejected request leaves no trace in the log or the counters: the limiter stands outside the logging.\<close>

lemma rejected_not_logged:
  assumes "0 < sv_RateLimit sv" and "sp_Status (fst (server_handler sv r s)) = 429"
  shows "ss_log (snd (server_handler sv r s)) = ss_log s \<and> ss_requests (snd (server_handler sv r s)) = ss_requests s"
proof -
  have "\<not> fst (limiter_allow sv r (ss_buckets s))" using handler_429(1)[OF assms(1)] assms(2) by blast
  then have "\<not> fst (limiter_allow sv (r\<lparr>sq_RequestID := i\<rparr>) (ss_buckets s))" for i by (simp add: limiter_allow_def)
  then show ?thesis
    using assms(1) by (simp add: server_handler_def Let_def request_id_def rate_limiter_def split_beta)
qed

end
