(* ===== verification/Config.thy ===== *)
theory Config
  imports
    GoPath GoTime
begin

text \<open>
  \<open>internal/config\<close>: defaults, the YAML file (its decoder is a parameter) and the environment, in this
  order of precedence, and the directory of the cache.  \<open>env\<close> is \<open>os.Getenv\<close> (the empty string when
  unset).  \<open>time.ParseDuration\<close> is modelled with exact fractions, where Go computes them in
  floating point.
\<close>

record server_config =
  sc_Port :: int
  sc_RateLimit :: int
  sc_ReadTimeout :: int
  sc_WriteTimeout :: int
  sc_MaxBatch :: int
  sc_Bind :: string

record config =
  cf_CacheDir :: string
  cf_DBSource :: string
  cf_DBMaxAge :: int
  cf_DBRefreshInterval :: int
  cf_OnlineEnabled :: bool
  cf_IPInfoToken :: string
  cf_DNSTimeout :: int
  cf_DNSServers :: "string list"
  cf_Server :: server_config
  cf_LogLevel :: string
  cf_LogFormat :: string
  cf_MMDBPath :: string
  cf_ASNOrgBoosters :: "string list"

definition default_config :: config where
  "default_config =
     \<lparr>cf_CacheDir = [], cf_DBSource = ''nro'', cf_DBMaxAge = 48 * 3600 * second_ns,
      cf_DBRefreshInterval = 24 * 3600 * second_ns, cf_OnlineEnabled = False, cf_IPInfoToken = [],
      cf_DNSTimeout = 3 * second_ns, cf_DNSServers = [],
      cf_Server = \<lparr>sc_Port = 8080, sc_RateLimit = 100, sc_ReadTimeout = 10 * second_ns,
        sc_WriteTimeout = 10 * second_ns, sc_MaxBatch = 1000, sc_Bind = ''0.0.0.0''\<rparr>,
      cf_LogLevel = ''info'', cf_LogFormat = ''json'', cf_MMDBPath = [],
      cf_ASNOrgBoosters = [''TELKOM'', ''BIZNET'', ''INDIHOME'', ''LINKNET'', ''CBN'']\<rparr>"

section \<open>Parsing of values\<close>

definition parse_bool :: "string \<Rightarrow> bool" where
  "parse_bool s \<longleftrightarrow> to_lower s \<in> {''1'', ''true'', ''yes'', ''on''}"

definition split_csv :: "string \<Rightarrow> string list" where
  "split_csv s = filter (\<lambda>p. p \<noteq> []) (map trim_space (go_split CHR '','' s))"

text \<open>\<open>strconv.Atoi\<close>: an optional sign and decimal digits, within 64 bits.\<close>

definition parse_sign :: "string \<Rightarrow> bool \<times> string" where
  "parse_sign s =
     (case s of
        [] \<Rightarrow> (False, [])
      | c # r \<Rightarrow> if c = CHR ''-'' then (True, r) else if c = CHR ''+'' then (False, r) else (False, s))"

definition go_atoi :: "string \<Rightarrow> int option" where
  "go_atoi s =
     (case parse_sign s of
        (neg, t) \<Rightarrow>
          if t = [] \<or> \<not> list_all is_digit t then None
          else (let n = int (digits_val t) in
                if neg then (if n \<le> 2 ^ 63 then Some (- n) else None)
                else if n < 2 ^ 63 then Some n else None))"

definition unit_ns :: "string \<Rightarrow> nat option" where
  "unit_ns u = map_of
     [(''ns'', 1), (''us'', 1000), ([CHR 0xC2, CHR 0xB5] @ ''s'', 1000), ([CHR 0xCE, CHR 0xBC] @ ''s'', 1000),
      (''ms'', 1000000), (''s'', 1000000000), (''m'', 60 * 1000000000), (''h'', 3600 * 1000000000)] u"

text \<open>One term of a duration: integer part, fraction, unit.  Its value in nanoseconds and the rest.\<close>

definition num_or_dot :: "char \<Rightarrow> bool" where
  "num_or_dot c \<longleftrightarrow> is_digit c \<or> c = CHR ''.''"

definition duration_term :: "string \<Rightarrow> (nat \<times> string) option" where
  "duration_term s =
     (let pre = takeWhile is_digit s; r = dropWhile is_digit s;
          frac = (if r \<noteq> [] \<and> hd r = CHR ''.'' then takeWhile is_digit (tl r) else []);
          r1 = (if r \<noteq> [] \<and> hd r = CHR ''.'' then dropWhile is_digit (tl r) else r);
          u = takeWhile (\<lambda>c. \<not> num_or_dot c) r1 in
      if s = [] \<or> \<not> num_or_dot (hd s) then None
      else if pre = [] \<and> frac = [] then None
      else if 2 ^ 63 < digits_val pre then None
      else if u = [] then None
      else (case unit_ns u of
          None \<Rightarrow> None
        | Some ns \<Rightarrow>
            if 2 ^ 63 div ns < digits_val pre then None
            else (let v = digits_val pre * ns + digits_val frac * ns div 10 ^ length frac in
                  if 2 ^ 63 < v then None else Some (v, dropWhile (\<lambda>c. \<not> num_or_dot c) r1))))"

fun duration_terms :: "nat \<Rightarrow> string \<Rightarrow> nat \<Rightarrow> nat option" where
  "duration_terms n [] d = Some d"
| "duration_terms 0 s d = None"
| "duration_terms (Suc n) s d =
     (case duration_term s of
        None \<Rightarrow> None
      | Some (v, r) \<Rightarrow> if 2 ^ 63 < d + v then None else duration_terms n r (d + v))"

definition parse_duration :: "string \<Rightarrow> int option" where
  "parse_duration s0 =
     (case parse_sign s0 of
        (neg, s) \<Rightarrow>
          if s = ''0'' then Some 0
          else if s = [] then None
          else (case duration_terms (length s) s 0 of
              None \<Rightarrow> None
            | Some d \<Rightarrow> if neg then Some (- int d) else if d < 2 ^ 63 then Some (int d) else None))"

section \<open>Environment\<close>

text \<open>A variable that is set, and whose value parses, overrides a field.\<close>

definition env_set :: "(string \<Rightarrow> string) \<Rightarrow> string \<Rightarrow> (string \<Rightarrow> 'v option) \<Rightarrow> ('v \<Rightarrow> 'c \<Rightarrow> 'c) \<Rightarrow> 'c \<Rightarrow> 'c" where
  "env_set env name conv upd c =
     (if env name \<noteq> [] then (case conv (env name) of Some v \<Rightarrow> upd v c | None \<Rightarrow> c) else c)"

definition apply_env :: "(string \<Rightarrow> string) \<Rightarrow> config \<Rightarrow> config" where
  "apply_env env c0 =
     (let c1 = env_set env ''REGIONCHECKER_CACHE_DIR'' Some (\<lambda>v c. c\<lparr>cf_CacheDir := v\<rparr>) c0;
          c2 = env_set env ''REGIONCHECKER_DB_SOURCE'' Some (\<lambda>v c. c\<lparr>cf_DBSource := v\<rparr>) c1;
          c3 = env_set env ''REGIONCHECKER_DB_MAX_AGE'' parse_duration (\<lambda>v c. c\<lparr>cf_DBMaxAge := v\<rparr>) c2;
          c4 = env_set env ''REGIONCHECKER_ONLINE'' (\<lambda>s. Some (parse_bool s)) (\<lambda>v c. c\<lparr>cf_OnlineEnabled := v\<rparr>) c3;
          c5 = env_set env ''REGIONCHECKER_IPINFO_TOKEN'' Some (\<lambda>v c. c\<lparr>cf_IPInfoToken := v\<rparr>) c4;
          c6 = env_set env ''REGIONCHECKER_DNS_TIMEOUT'' parse_duration (\<lambda>v c. c\<lparr>cf_DNSTimeout := v\<rparr>) c5;
          c7 = env_set env ''REGIONCHECKER_DNS_SERVERS'' (\<lambda>s. Some (split_csv s)) (\<lambda>v c. c\<lparr>cf_DNSServers := v\<rparr>) c6;
          c8 = env_set env ''REGIONCHECKER_LOG_LEVEL'' Some (\<lambda>v c. c\<lparr>cf_LogLevel := v\<rparr>) c7;
          c9 = env_set env ''REGIONCHECKER_LOG_FORMAT'' Some (\<lambda>v c. c\<lparr>cf_LogFormat := v\<rparr>) c8;
          c10 = env_set env ''REGIONCHECKER_MMDB_PATH'' Some (\<lambda>v c. c\<lparr>cf_MMDBPath := v\<rparr>) c9;
          c11 = env_set env ''REGIONCHECKER_PORT'' go_atoi (\<lambda>v c. c\<lparr>cf_Server := (cf_Server c)\<lparr>sc_Port := v\<rparr>\<rparr>) c10;
          c12 = env_set env ''REGIONCHECKER_BIND'' Some (\<lambda>v c. c\<lparr>cf_Server := (cf_Server c)\<lparr>sc_Bind := v\<rparr>\<rparr>) c11
      in env_set env ''REGIONCHECKER_RATE_LIMIT'' go_atoi (\<lambda>v c. c\<lparr>cf_Server := (cf_Server c)\<lparr>sc_RateLimit := v\<rparr>\<rparr>) c12)"

text \<open>\<open>os.UserHomeDir\<close> and \<open>os.TempDir\<close> on POSIX systems.\<close>

definition user_home_dir :: "(string \<Rightarrow> string) \<Rightarrow> string option" where
  "user_home_dir env = (if env ''HOME'' = [] then None else Some (env ''HOME''))"

definition temp_dir :: "(string \<Rightarrow> string) \<Rightarrow> string" where
  "temp_dir env = (if env ''TMPDIR'' = [] then ''/tmp'' else env ''TMPDIR'')"

definition default_cache_dir :: "(string \<Rightarrow> string) \<Rightarrow> string" where
  "default_cache_dir env =
     (if env ''XDG_CACHE_HOME'' \<noteq> [] then path_join [env ''XDG_CACHE_HOME'', ''regionchecker'']
      else (case user_home_dir env of
          Some home \<Rightarrow> path_join [home, ''.cache'', ''regionchecker'']
        | None \<Rightarrow> path_join [temp_dir env, ''regionchecker'']))"

section \<open>Load\<close>

datatype config_error = ReadConfigFailed string | ParseConfigFailed string

datatype file_read = FileMissing | FileUnreadable | FileData bytes

text \<open>\<open>yaml\<close> decodes a document over a configuration.\<close>

definition load_yaml ::
  "(bytes \<Rightarrow> config \<Rightarrow> config option) \<Rightarrow> (string \<Rightarrow> file_read) \<Rightarrow> string \<Rightarrow> config \<Rightarrow> config_error + config" where
  "load_yaml yaml read path c =
     (case read path of
        FileMissing \<Rightarrow> Inr c
      | FileUnreadable \<Rightarrow> Inl (ReadConfigFailed path)
      | FileData data \<Rightarrow> (case yaml data c of None \<Rightarrow> Inl (ParseConfigFailed path) | Some c' \<Rightarrow> Inr c'))"

definition load_config ::
  "(bytes \<Rightarrow> config \<Rightarrow> config option) \<Rightarrow> (string \<Rightarrow> file_read) \<Rightarrow> (string \<Rightarrow> string) \<Rightarrow> string \<Rightarrow>
   config_error + config" where
  "load_config yaml read env path =
     (case (if path = [] then Inr default_config else load_yaml yaml read path default_config) of
        Inl e \<Rightarrow> Inl e
      | Inr c \<Rightarrow>
          (let c' = apply_env env c in
           Inr (if cf_CacheDir c' = [] then c'\<lparr>cf_CacheDir := default_cache_dir env\<rparr> else c')))"

section \<open>Properties\<close>

lemma path_join_not_Nil: "d \<noteq> [] \<Longrightarrow> plain_name n \<Longrightarrow> path_join [d, n] \<noteq> []"
  using path_join_last[of d n] by (auto simp: plain_name_def after_last_def)

lemma default_cache_dir_not_Nil: "default_cache_dir env \<noteq> []"
proof -
  have p: "plain_name ''regionchecker''" "plain_name ''.cache''" by (simp_all add: plain_name_def)
  have "path_join [d, ''.cache'', ''regionchecker''] \<noteq> []" if "d \<noteq> []" for d
    using path_join_last2[OF that p(2,1)] by (auto simp: after_last_def)
  moreover have "temp_dir env \<noteq> []" by (simp add: temp_dir_def)
  ultimately show ?thesis
    using path_join_not_Nil[OF _ p(1)]
    by (auto simp: default_cache_dir_def user_home_dir_def split: option.split)
qed

text \<open>The value a variable gives, if it is set and parses.\<close>

definition env_value :: "(string \<Rightarrow> string) \<Rightarrow> string \<Rightarrow> (string \<Rightarrow> 'v option) \<Rightarrow> 'v \<Rightarrow> 'v" where
  "env_value env name conv x =
     (if env name = [] then x else (case conv (env name) of None \<Rightarrow> x | Some v \<Rightarrow> v))"

lemma env_set_eq: "env_set env name conv upd c = upd (env_value env name conv x) c"
  if "upd x c = c"
  using that by (auto simp: env_set_def env_value_def split: option.split)

text \<open>The configuration the environment gives, field by field.\<close>

definition overridden :: "(string \<Rightarrow> string) \<Rightarrow> config \<Rightarrow> config" where
  "overridden env c =
     \<lparr>cf_CacheDir = env_value env ''REGIONCHECKER_CACHE_DIR'' Some (cf_CacheDir c),
      cf_DBSource = env_value env ''REGIONCHECKER_DB_SOURCE'' Some (cf_DBSource c),
      cf_DBMaxAge = env_value env ''REGIONCHECKER_DB_MAX_AGE'' parse_duration (cf_DBMaxAge c),
      cf_DBRefreshInterval = cf_DBRefreshInterval c,
      cf_OnlineEnabled = env_value env ''REGIONCHECKER_ONLINE'' (\<lambda>s. Some (parse_bool s)) (cf_OnlineEnabled c),
      cf_IPInfoToken = env_value env ''REGIONCHECKER_IPINFO_TOKEN'' Some (cf_IPInfoToken c),
      cf_DNSTimeout = env_value env ''REGIONCHECKER_DNS_TIMEOUT'' parse_duration (cf_DNSTimeout c),
      cf_DNSServers = env_value env ''REGIONCHECKER_DNS_SERVERS'' (\<lambda>s. Some (split_csv s)) (cf_DNSServers c),
      cf_Server = (cf_Server c)
        \<lparr>sc_Port := env_value env ''REGIONCHECKER_PORT'' go_atoi (sc_Port (cf_Server c)),
         sc_Bind := env_value env ''REGIONCHECKER_BIND'' Some (sc_Bind (cf_Server c)),
         sc_RateLimit := env_value env ''REGIONCHECKER_RATE_LIMIT'' go_atoi (sc_RateLimit (cf_Server c))\<rparr>,
      cf_LogLevel = env_value env ''REGIONCHECKER_LOG_LEVEL'' Some (cf_LogLevel c),
      cf_LogFormat = env_value env ''REGIONCHECKER_LOG_FORMAT'' Some (cf_LogFormat c),
      cf_MMDBPath = env_value env ''REGIONCHECKER_MMDB_PATH'' Some (cf_MMDBPath c),
      cf_ASNOrgBoosters = cf_ASNOrgBoosters c\<rparr>"

lemma apply_env_overridden: "apply_env env c = overridden env c"
proof (cases c)
  case (fields d s m r ol tok t srv sc ll lf mp b)
  show ?thesis
    unfolding apply_env_def Let_def
    apply (subst env_set_eq[where x = "cf_CacheDir c"], simp)
    apply (subst env_set_eq[where x = "cf_DBSource c"], simp)
    apply (subst env_set_eq[where x = "cf_DBMaxAge c"], simp)
    apply (subst env_set_eq[where x = "cf_OnlineEnabled c"], simp)
    apply (subst env_set_eq[where x = "cf_IPInfoToken c"], simp)
    apply (subst env_set_eq[where x = "cf_DNSTimeout c"], simp)
    apply (subst env_set_eq[where x = "cf_DNSServers c"], simp)
    apply (subst env_set_eq[where x = "cf_LogLevel c"], simp)
    apply (subst env_set_eq[where x = "cf_LogFormat c"], simp)
    apply (subst env_set_eq[where x = "cf_MMDBPath c"], simp)
    apply (subst env_set_eq[where x = "sc_Port (cf_Server c)"], simp)
    apply (subst env_set_eq[where x = "sc_Bind (cf_Server c)"], simp)
    apply (subst env_set_eq[where x = "sc_RateLimit (cf_Server c)"], simp)
    by (simp add: overridden_def)
qed


definition sample_getenv :: "string \<Rightarrow> string" where
  "sample_getenv n =
     (if n = ''REGIONCHECKER_DB_MAX_AGE'' then ''1h30m'' else if n = ''REGIONCHECKER_PORT'' then ''80x''
      else if n = ''HOME'' then ''/home/u'' else [])"

definition sample_config :: config where
  "sample_config = default_config\<lparr>cf_CacheDir := ''/home/u/.cache/regionchecker'', cf_DBMaxAge := 5400 * second_ns\<rparr>"

lemma sample_load: "load_config (\<lambda>_ _. None) (\<lambda>_. FileMissing) sample_getenv ''c.yaml'' = Inr sample_config"
proof -
  have v: "env_value sample_getenv ''REGIONCHECKER_DB_MAX_AGE'' parse_duration x = 5400 * second_ns"
    "env_value sample_getenv ''REGIONCHECKER_PORT'' go_atoi y = y"
    "default_cache_dir sample_getenv = ''/home/u/.cache/regionchecker''" for x y
  proof -
    have "parse_duration ''1h30m'' = Some (5400 * second_ns)" "go_atoi ''80x'' = None" by code_simp+
    then show "env_value sample_getenv ''REGIONCHECKER_DB_MAX_AGE'' parse_duration x = 5400 * second_ns"
      "env_value sample_getenv ''REGIONCHECKER_PORT'' go_atoi y = y"
      by (simp_all add: env_value_def sample_getenv_def)
    show "default_cache_dir sample_getenv = ''/home/u/.cache/regionchecker''" by code_simp
  qed
  have unset: "env_value sample_getenv n conv x = x" if "n \<notin> {''REGIONCHECKER_DB_MAX_AGE'', ''REGIONCHECKER_PORT'', ''HOME''}" for n conv x
    using that by (simp add: env_value_def sample_getenv_def)
  show ?thesis
    by (simp add: load_config_def load_yaml_def apply_env_overridden Let_def overridden_def unset v)
      (simp add: sample_config_def default_config_def)
qed


text \<open>Every term takes a character, so the fuel of a duration, the length of its text, is enough.\<close>

lemma duration_term_shorter: "duration_term s = Some (v, r) \<Longrightarrow> length r < length s"
proof -
  assume a: "duration_term s = Some (v, r)"
  define q where "q = dropWhile is_digit s"
  define r1 where "r1 = (if q \<noteq> [] \<and> hd q = CHR ''.'' then dropWhile is_digit (tl q) else q)"
  have "r = dropWhile (\<lambda>c. \<not> num_or_dot c) r1" and u: "takeWhile (\<lambda>c. \<not> num_or_dot c) r1 \<noteq> []"
    using a by (auto simp: duration_term_def Let_def q_def r1_def split: if_splits option.splits)
  then have "length r < length r1"
    using arg_cong[OF takeWhile_dropWhile_id[of "\<lambda>c. \<not> num_or_dot c" r1], of length]
    by (cases "takeWhile (\<lambda>c. \<not> num_or_dot c) r1") auto
  moreover have "length r1 \<le> length q"
    using length_dropWhile_le[of is_digit "tl q"] by (auto simp: r1_def)
  moreover have "length q \<le> length s" by (simp add: q_def length_dropWhile_le)
  ultimately show ?thesis by simp
qed

lemma duration_fuel: "length s \<le> n \<Longrightarrow> duration_terms n s d = duration_terms (length s) s d"
proof (induction "length s" arbitrary: s n d rule: less_induct)
  case less
  show ?case
  proof (cases s)
    case (Cons c t)
    then obtain m where n: "n = Suc m" "length t \<le> m" using less.prems by (cases n) auto
    show ?thesis
    proof (cases "duration_term s")
      case (Some p)
      obtain v r where p: "p = (v, r)" by (cases p)
      have "length r < length s" by (rule duration_term_shorter[of s v r]) (simp add: Some p)
      then have "duration_terms m r (d + v) = duration_terms (length t) r (d + v)"
        using less.hyps[of r m "d + v"] less.hyps[of r "length t" "d + v"] n Cons by simp
      then show ?thesis using Some p n Cons by simp
    qed (use n Cons in simp)
  qed simp
qed

lemma duration_terms_bound: "duration_terms n s d = Some e \<Longrightarrow> d \<le> 2 ^ 63 \<Longrightarrow> e \<le> 2 ^ 63"
  by (induction n s d rule: duration_terms.induct) (auto split: option.splits prod.splits if_splits)



end
