(* ===== verification/Fetch.thy ===== *)
theory Fetch
  imports
    Store Http
begin

text \<open>
  \<open>internal/cache/fetch.go\<close>: the conditional GET that fills the store.  The HTTP client and the single-flight
  group are parameters; the clock, the random names and the outcomes of the file system are the
  environment of a call.
\<close>

datatype fetch_error =
    RequestFailed
  | DoFailed
  | CacheMissing store_error
  | StoreFailed store_error
  | BodyFailed
  | BadStatus int
  | NoFetchedAt

record 'n fetcher =
  ft_HTTP :: "'n http"
  ft_Store :: store

record fetch_env =
  fe_request :: bool
  fe_stat :: bool
  fe_read :: bool
  fe_readmeta :: bool
  fe_now :: int
  fe_fd :: nat
  fe_body :: write_env
  fe_meta :: write_env

text \<open>\<open>NewFetcher\<close>: the default client has a timeout of a minute.\<close>

definition new_fetcher :: "(int \<Rightarrow> 'n http) \<Rightarrow> store \<Rightarrow> 'n http option \<Rightarrow> 'n fetcher" where
  "new_fetcher dflt st client =
     \<lparr>ft_HTTP = (case client of None \<Rightarrow> dflt (60 * second_ns) | Some h \<Rightarrow> h), ft_Store = st\<rparr>"

definition read_meta_ok :: "fetch_env \<Rightarrow> store \<Rightarrow> string \<Rightarrow> fsys \<Rightarrow> file_meta \<times> bool" where
  "read_meta_ok env st key s =
     (case read_meta (fe_readmeta env) st key s of
        Inl e \<Rightarrow> (no_meta, False)
      | Inr m \<Rightarrow>
          (case stat_raw (fe_stat env) st key s of
             Inl e \<Rightarrow> (no_meta, False)
           | Inr n \<Rightarrow> (m, True)))"

definition fetch_request :: "string \<Rightarrow> file_meta \<times> bool \<Rightarrow> http_request" where
  "fetch_request url prev =
     \<lparr>rq_Method = ''GET'', rq_URL = url,
      rq_Header =
        (if snd prev then header_if ''If-None-Match'' (mt_ETag (fst prev)) @
           header_if ''If-Modified-Since'' (mt_LastModified (fst prev)) else []),
      rq_Timeout = 0\<rparr>"

definition response_meta :: "(bytes \<Rightarrow> bytes) \<Rightarrow> http_response \<Rightarrow> bytes \<Rightarrow> int \<Rightarrow> file_meta" where
  "response_meta sha resp body now =
     \<lparr>mt_ETag = rs_Header resp ''ETag'', mt_LastModified = rs_Header resp ''Last-Modified'',
      mt_SHA256 = hex_text (sha body), mt_FetchedAt = now, mt_Bytes = int (length body)\<rparr>"

text \<open>The two answers that give a body.\<close>

definition not_modified ::
  "fetch_env \<Rightarrow> store \<Rightarrow> string \<Rightarrow> file_meta \<Rightarrow> fsys \<Rightarrow> (fetch_error + bytes) \<times> fsys" where
  "not_modified env st key prev s =
     (case read_raw (fe_read env) st key s of
        Inl e \<Rightarrow> (Inl (CacheMissing e), s)
      | Inr body \<Rightarrow>
          (case write_meta st key (prev\<lparr>mt_FetchedAt := fe_now env\<rparr>) (fe_fd env) (fe_meta env) s of
             (Some e, s') \<Rightarrow> (Inl (StoreFailed e), s')
           | (None, s') \<Rightarrow> (Inr body, s')))"

definition store_response ::
  "(bytes \<Rightarrow> bytes) \<Rightarrow> fetch_env \<Rightarrow> store \<Rightarrow> string \<Rightarrow> http_response \<Rightarrow> fsys \<Rightarrow> (fetch_error + bytes) \<times> fsys" where
  "store_response sha env st key resp s =
     (case read_all resp of
        None \<Rightarrow> (Inl BodyFailed, s)
      | Some body \<Rightarrow>
          (case atomic_write st key body (fe_fd env) (fe_body env) s of
             (Some e, s') \<Rightarrow> (Inl (StoreFailed e), s')
           | (None, s') \<Rightarrow>
               (case write_meta st key (response_meta sha resp body (fe_now env)) (fe_fd env) (fe_meta env) s' of
                  (Some e, s'') \<Rightarrow> (Inl (StoreFailed e), s'')
                | (None, s'') \<Rightarrow> (Inr body, s''))))"

definition fetch_once ::
  "(bytes \<Rightarrow> bytes) \<Rightarrow> 'n fetcher \<Rightarrow> fetch_env \<Rightarrow> string \<Rightarrow> string \<Rightarrow> fsys \<times> 'n \<Rightarrow> (fetch_error + bytes) \<times> fsys \<times> 'n" where
  "fetch_once sha f env url key w =
     (if \<not> fe_request env then (Inl RequestFailed, w)
      else
        (let s = fst w; prev = read_meta_ok env (ft_Store f) key s in
         case ft_HTTP f (fetch_request url prev) (snd w) of
           (None, n) \<Rightarrow> (Inl DoFailed, s, n)
         | (Some resp, n) \<Rightarrow>
             (case (if rs_StatusCode resp = 304 \<and> snd prev then not_modified env (ft_Store f) key (fst prev) s
                    else if rs_StatusCode resp = 200 then store_response sha env (ft_Store f) key resp s
                    else (Inl (BadStatus (rs_StatusCode resp)), s)) of
                (r, s') \<Rightarrow> (r, s', n))))"

text \<open>\<open>Fetch\<close>: \<open>sf\<close> is \<open>singleflight.Group.Do\<close>, which runs the function for the first caller of a URL.\<close>

definition fetch ::
  "(string \<Rightarrow> (fsys \<times> 'n \<Rightarrow> (fetch_error + bytes) \<times> fsys \<times> 'n) \<Rightarrow> fsys \<times> 'n \<Rightarrow> (fetch_error + bytes) \<times> fsys \<times> 'n) \<Rightarrow>
   (bytes \<Rightarrow> bytes) \<Rightarrow> 'n fetcher \<Rightarrow> fetch_env \<Rightarrow> string \<Rightarrow> string \<Rightarrow> fsys \<times> 'n \<Rightarrow> (fetch_error + bytes) \<times> fsys \<times> 'n" where
  "fetch sf sha f env url key w = sf url (fetch_once sha f env url key) w"

definition fetch_age :: "fetch_env \<Rightarrow> 'n fetcher \<Rightarrow> string \<Rightarrow> fsys \<Rightarrow> fetch_error + int" where
  "fetch_age env f key s =
     (case read_meta (fe_readmeta env) (ft_Store f) key s of
        Inl e \<Rightarrow> Inl (StoreFailed e)
      | Inr m \<Rightarrow> if mt_FetchedAt m = zero_time then Inl NoFetchedAt else Inr (sat64 (fe_now env - mt_FetchedAt m)))"

section \<open>Lemmas\<close>

lemma atomic_run_eq:
  "steps_left pc \<noteq> 0 \<Longrightarrow> atomic_run w pc s = atomic_run w (fst (atomic_step w pc s)) (snd (atomic_step w pc s))"
  by (subst atomic_run.simps, cases pc) (simp_all add: split_beta del: atomic_step.simps)

lemma fs_wf_run: "fs_wf s \<Longrightarrow> fs_wf (snd (atomic_run w pc s))"
proof (induction "steps_left pc" arbitrary: pc s rule: less_induct)
  case less
  show ?case
  proof (cases "steps_left pc = 0")
    case True
    then show ?thesis using less.prems by (cases pc) (simp_all add: atomic_run.simps)
  next
    case False
    then show ?thesis
      using less.hyps[OF steps_left_step fs_wf_step[OF less.prems]] by (simp add: atomic_run_eq)
  qed
qed

lemma fs_wf_atomic_write: "fs_wf s \<Longrightarrow> fs_wf (snd (atomic_write st key data fd env s))"
  by (simp add: atomic_write_def fs_wf_run split: sum.split)

lemma meta_key_plain: "plain_name key \<Longrightarrow> plain_name (key @ ''.meta'')"
  by (auto simp: plain_name_def append_eq_Cons_conv)

lemma meta_path_raw: "meta_path st key = raw_path st (key @ ''.meta'')"
  by (simp add: meta_path_def raw_path_def)

text \<open>A call whose staging names are new and of the usual length.\<close>

definition rand_ok :: "write_env \<Rightarrow> bool" where
  "rand_ok env = (case we_rand env of None \<Rightarrow> True | Some b \<Rightarrow> length b = 8)"

definition fetch_ready :: "store \<Rightarrow> string \<Rightarrow> fetch_env \<Rightarrow> fsys \<Rightarrow> bool" where
  "fetch_ready st key env s \<longleftrightarrow>
     plain_store st \<and> plain_name key \<and> fs_wf s \<and> rand_ok (fe_body env) \<and> rand_ok (fe_meta env) \<and>
     fresh_tmp st key (fe_body env) s \<and> fresh_tmp st (key @ ''.meta'') (fe_meta env) s"

lemma length_hex_text: "length (hex_text b) = 2 * length b"
  by (induction b) (auto simp: hex_text_def)

lemma tmp_length:
  assumes "plain_store st" "plain_name key" "rand_ok env" "new_tmp st key (we_rand env) = Inr tmp"
  shows "length (after_last CHR ''/'' tmp) = length key + 17"
  using new_tmp_last[OF assms(1,2,4)] assms(3) by (auto simp: rand_ok_def length_hex_text)

lemma raw_not_tmp:
  assumes "plain_store st" "plain_name key" "plain_name k" "rand_ok env" "length k \<noteq> length key + 17"
  shows "new_tmp st key (we_rand env) \<noteq> Inr (raw_path st k)"
  using tmp_length[OF assms(1,2,4), of "raw_path st k"] raw_path_last[OF assms(1,3)] assms(5) by auto

text \<open>What one write does to a raw file, and that it leaves the other staging names new.\<close>

lemma write_read:
  assumes "plain_store st" "plain_name key" "plain_name k" "fs_wf s" "fresh_tmp st key env s" "rand_ok env"
    and "length k \<noteq> length key + 17"
  shows "fs_read (raw_path st k) (snd (atomic_write st key data fd env s)) =
      (if raw_path st k = raw_path st key \<and> renamed_ok (write_outcome env) then Some data else fs_read (raw_path st k) s)"
    and "fst (atomic_write st key data fd env s) = write_outcome env"
  using atomic_write_outcome_env[OF assms(1,2,4,5), of "raw_path st k" data fd] raw_not_tmp[OF assms(1,2,3,6,7)] by auto

lemma raw_path_eq: "plain_store st \<Longrightarrow> plain_name k \<Longrightarrow> plain_name key \<Longrightarrow> raw_path st k = raw_path st key \<longleftrightarrow> k = key"
  using raw_path_last by metis

lemma fresh_after:
  assumes "plain_store st" "plain_name key" "plain_name k" "fs_wf s" "fresh_tmp st key env s" "rand_ok env"
    and "fresh_tmp st k env' s" "rand_ok env'" "length k \<noteq> length key" "length key \<noteq> length k + 17"
  shows "fresh_tmp st k env' (snd (atomic_write st key data fd env s))"
proof (cases "new_tmp st k (we_rand env')")
  case (Inr tmp)
  have l: "length (after_last CHR ''/'' tmp) = length k + 17" by (rule tmp_length[OF assms(1,3,8) Inr])
  have "new_tmp st key (we_rand env) \<noteq> Inr tmp" using tmp_length[OF assms(1,2,6), of tmp] l assms(9) by auto
  moreover have "tmp \<noteq> raw_path st key" using l raw_path_last[OF assms(1,2)] assms(10) by auto
  ultimately have "fs_read tmp (snd (atomic_write st key data fd env s)) = fs_read tmp s"
    using atomic_write_outcome_env[OF assms(1,2,4,5), of tmp data fd] by simp
  then show ?thesis using assms(7) Inr by (simp add: fresh_tmp_def fs_read_def)
qed (simp add: fresh_tmp_def)

text \<open>Both files after a write of the body and after a write of the sidecar.\<close>

lemma body_write:
  assumes "fetch_ready st key env s" and "atomic_write st key body fd (fe_body env) s = (r, s')"
  shows "r = write_outcome (fe_body env)"
    and "fs_read (raw_path st key) s' = (if renamed_ok r then Some body else fs_read (raw_path st key) s)"
    and "fs_read (meta_path st key) s' = fs_read (meta_path st key) s"
    and "fs_wf s'" and "fresh_tmp st (key @ ''.meta'') (fe_meta env) s'"
proof -
  have a: "plain_store st" "plain_name key" "plain_name (key @ ''.meta'')" "fs_wf s" "fresh_tmp st key (fe_body env) s"
    "rand_ok (fe_body env)" "fresh_tmp st (key @ ''.meta'') (fe_meta env) s" "rand_ok (fe_meta env)"
    using assms(1) by (auto simp: fetch_ready_def meta_key_plain)
  show "r = write_outcome (fe_body env)"
    "fs_read (raw_path st key) s' = (if renamed_ok r then Some body else fs_read (raw_path st key) s)"
    using write_read[OF a(1,2,2,4,5,6), of body fd] assms(2) by simp_all
  show "fs_read (meta_path st key) s' = fs_read (meta_path st key) s"
    using write_read[OF a(1,2,3,4,5,6), of body fd] assms(2) raw_path_eq[OF a(1,3,2)] by (simp add: meta_path_raw)
  show "fs_wf s'" using fs_wf_atomic_write[OF a(4), of st key body fd "fe_body env"] assms(2) by simp
  show "fresh_tmp st (key @ ''.meta'') (fe_meta env) s'"
    using fresh_after[OF a(1,2,3,4,5,6,7,8), of body fd] assms(2) by simp
qed

lemma meta_write:
  assumes "plain_store st" "plain_name key" "fs_wf s" "rand_ok (fe_meta env)"
    and "fresh_tmp st (key @ ''.meta'') (fe_meta env) s" and "write_meta st key m fd (fe_meta env) s = (r, s')"
  shows "fs_read (raw_path st key) s' = fs_read (raw_path st key) s"
    and "r = None \<Longrightarrow> \<exists>b. encode_meta m = Some b \<and> fs_read (meta_path st key) s' = Some b"
    and "\<not> renamed_ok r \<Longrightarrow> fs_read (meta_path st key) s' = fs_read (meta_path st key) s"
proof -
  have mk: "plain_name (key @ ''.meta'')" by (rule meta_key_plain[OF assms(2)])
  have neq: "raw_path st key \<noteq> raw_path st (key @ ''.meta'')"
    using raw_path_eq[OF assms(1,2) mk] by simp
  have "fs_read (raw_path st key) s' = fs_read (raw_path st key) s \<and>
    (r = None \<longrightarrow> (\<exists>b. encode_meta m = Some b \<and> fs_read (meta_path st key) s' = Some b)) \<and>
    (\<not> renamed_ok r \<longrightarrow> fs_read (meta_path st key) s' = fs_read (meta_path st key) s)"
  proof (cases "encode_meta m")
    case None
    then show ?thesis using assms(6) by (auto simp: write_meta_def)
  next
    case (Some b)
    note w = write_read[OF assms(1) mk _ assms(3,5,4), where data = b and fd = fd]
    show ?thesis
      using assms(6) Some w(1)[OF assms(2)] w(1)[OF mk] w(2)[OF mk] neq
      by (auto simp: write_meta_def meta_path_raw renamed_ok_def)
  qed
  then show "fs_read (raw_path st key) s' = fs_read (raw_path st key) s"
    "r = None \<Longrightarrow> \<exists>b. encode_meta m = Some b \<and> fs_read (meta_path st key) s' = Some b"
    "\<not> renamed_ok r \<Longrightarrow> fs_read (meta_path st key) s' = fs_read (meta_path st key) s"
    by blast+
qed

lemma read_meta_encoded:
  "fs_read (meta_path st key) s = Some b \<Longrightarrow> encode_meta m = Some b \<Longrightarrow> \<bar>mt_Bytes m\<bar> < 2 ^ 63 \<Longrightarrow>
   read_meta True st key s = Inr m"
  by (simp add: read_meta_def read_file_def meta_codec)

text \<open>What a successful call leaves behind.\<close>

definition consistent :: "store \<Rightarrow> string \<Rightarrow> bytes \<Rightarrow> file_meta \<Rightarrow> fsys \<Rightarrow> bool" where
  "consistent st key body m s \<longleftrightarrow> fs_read (raw_path st key) s = Some body \<and>
     (\<exists>b. encode_meta m = Some b \<and> fs_read (meta_path st key) s = Some b)"

lemma store_response_ok:
  assumes "fetch_ready st key env s" and "store_response sha env st key resp s = (Inr body, s')"
  shows "read_all resp = Some body \<and> consistent st key body (response_meta sha resp body (fe_now env)) s'"
proof -
  obtain s1 where 1: "read_all resp = Some body" "atomic_write st key body (fe_fd env) (fe_body env) s = (None, s1)"
    "write_meta st key (response_meta sha resp body (fe_now env)) (fe_fd env) (fe_meta env) s1 = (None, s')"
    using assms(2) by (auto simp: store_response_def split: option.splits prod.splits)
  have r: "plain_store st" "plain_name key" "rand_ok (fe_meta env)" using assms(1) by (simp_all add: fetch_ready_def)
  note b = body_write[OF assms(1) 1(2)]
  show ?thesis
    using 1(1) b(2) meta_write(1,2)[OF r(1,2) b(4) r(3) b(5) 1(3)] by (simp add: consistent_def renamed_ok_def)
qed

lemma not_modified_ok:
  assumes "fetch_ready st key env s" and "not_modified env st key prev s = (Inr body, s')"
  shows "fs_read (raw_path st key) s = Some body \<and> consistent st key body (prev\<lparr>mt_FetchedAt := fe_now env\<rparr>) s'"
proof -
  have 1: "read_raw (fe_read env) st key s = Inr body"
    "write_meta st key (prev\<lparr>mt_FetchedAt := fe_now env\<rparr>) (fe_fd env) (fe_meta env) s = (None, s')"
    using assms(2) by (auto simp: not_modified_def split: sum.splits option.splits prod.splits)
  have r: "plain_store st" "plain_name key" "fs_wf s" "rand_ok (fe_meta env)" "fresh_tmp st (key @ ''.meta'') (fe_meta env) s"
    using assms(1) by (simp_all add: fetch_ready_def)
  have "fs_read (raw_path st key) s = Some body"
    using 1(1) by (auto simp: read_raw_def read_file_def split: if_splits option.splits)
  then show ?thesis using meta_write(1,2)[OF r 1(2)] by (simp add: consistent_def)
qed

section \<open>Properties\<close>

text \<open>
  C12: A body that \<open>fetchOnce\<close> returns is what the store holds afterwards, next to a sidecar that
  describes it.  It is the whole body of a 200 response, with the response's validators and the hash and
  length of the body in the sidecar, or, for a 304, the stored body, and then only the fetch time of the
  sidecar has changed.
\<close>

theorem fetch_result_is_stored:
  assumes "fetch_ready (ft_Store f) key env s" and "fetch_once sha f env url key (s, n) = (Inr body, s', n')"
  shows "\<exists>resp. ft_HTTP f (fetch_request url (read_meta_ok env (ft_Store f) key s)) n = (Some resp, n') \<and>
    (rs_StatusCode resp = 200 \<and> read_all resp = Some body \<and>
       consistent (ft_Store f) key body (response_meta sha resp body (fe_now env)) s' \<or>
     rs_StatusCode resp = 304 \<and> fs_read (raw_path (ft_Store f) key) s = Some body \<and>
       consistent (ft_Store f) key body
         ((fst (read_meta_ok env (ft_Store f) key s))\<lparr>mt_FetchedAt := fe_now env\<rparr>) s')"
proof -
  let ?prev = "read_meta_ok env (ft_Store f) key s"
  obtain resp where h: "ft_HTTP f (fetch_request url ?prev) n = (Some resp, n')"
    and c: "(if rs_StatusCode resp = 304 \<and> snd ?prev then not_modified env (ft_Store f) key (fst ?prev) s
      else if rs_StatusCode resp = 200 then store_response sha env (ft_Store f) key resp s
      else (Inl (BadStatus (rs_StatusCode resp)), s)) = (Inr body, s')"
    using assms(2) by (auto simp: fetch_once_def Let_def split: option.splits prod.splits if_splits)
  show ?thesis
  proof (cases "rs_StatusCode resp = 304 \<and> snd ?prev")
    case True
    then show ?thesis using h c not_modified_ok[OF assms(1)] by auto
  next
    case False
    then have "rs_StatusCode resp = 200" "store_response sha env (ft_Store f) key resp s = (Inr body, s')"
      using c by (auto split: if_splits)
    then show ?thesis using h store_response_ok[OF assms(1)] by blast
  qed
qed

lemma raw_after_response:
  assumes "fetch_ready st key env s" and "store_response sha env st key resp s = (r, s')"
  shows "fs_read (raw_path st key) s' = fs_read (raw_path st key) s \<or>
    (\<exists>body. read_all resp = Some body \<and> fs_read (raw_path st key) s' = Some body)"
proof (cases "read_all resp")
  case (Some body)
  obtain e s1 where 1: "atomic_write st key body (fe_fd env) (fe_body env) s = (e, s1)" by fastforce
  note b = body_write[OF assms(1) 1]
  show ?thesis
  proof (cases e)
    case None
    then obtain r2 s2 where 2: "write_meta st key (response_meta sha resp body (fe_now env)) (fe_fd env) (fe_meta env) s1 = (r2, s2)"
      by fastforce
    then have "s' = s2" using assms(2) Some 1 None by (auto simp: store_response_def split: option.splits)
    have r: "plain_store st" "plain_name key" "rand_ok (fe_meta env)" using assms(1) by (simp_all add: fetch_ready_def)
    show ?thesis using \<open>s' = s2\<close> meta_write(1)[OF r(1,2) b(4) r(3) b(5) 2] b(2) Some by auto
  next
    case (Some x)
    then have "s' = s1" using assms(2) \<open>read_all resp = Some body\<close> 1 by (auto simp: store_response_def)
    then show ?thesis using b(2) \<open>read_all resp = Some body\<close> by auto
  qed
qed (use assms(2) in \<open>simp add: store_response_def\<close>)

lemma raw_after_not_modified:
  assumes "fetch_ready st key env s" and "not_modified env st key prev s = (r, s')"
  shows "fs_read (raw_path st key) s' = fs_read (raw_path st key) s"
proof -
  obtain r2 s2 where 2: "write_meta st key (prev\<lparr>mt_FetchedAt := fe_now env\<rparr>) (fe_fd env) (fe_meta env) s = (r2, s2)"
    by fastforce
  have r: "plain_store st" "plain_name key" "fs_wf s" "rand_ok (fe_meta env)" "fresh_tmp st (key @ ''.meta'') (fe_meta env) s"
    using assms(1) by (simp_all add: fetch_ready_def)
  show ?thesis
    using meta_write(1)[OF r 2] assms(2) 2 by (auto simp: not_modified_def split: sum.splits option.splits)
qed

text \<open>
  C28: Whatever a call of \<open>fetchOnce\<close> runs into, the raw file keeps its content or holds the whole body of
  a 200 response to this call; a failed download or a bad status never damages the copy in the store.
\<close>

theorem fetch_keeps_copy:
  assumes "fetch_ready (ft_Store f) key env s" and "fetch_once sha f env url key (s, n) = (r, s', n')"
  shows "fs_read (raw_path (ft_Store f) key) s' = fs_read (raw_path (ft_Store f) key) s \<or>
    (\<exists>resp body. ft_HTTP f (fetch_request url (read_meta_ok env (ft_Store f) key s)) n = (Some resp, n') \<and>
       rs_StatusCode resp = 200 \<and> read_all resp = Some body \<and>
       fs_read (raw_path (ft_Store f) key) s' = Some body)"
proof -
  let ?prev = "read_meta_ok env (ft_Store f) key s"
  show ?thesis
  proof (cases "fe_request env \<and> fst (ft_HTTP f (fetch_request url ?prev) n) \<noteq> None")
    case True
    then obtain resp where h: "ft_HTTP f (fetch_request url ?prev) n = (Some resp, n')"
      and c: "(if rs_StatusCode resp = 304 \<and> snd ?prev then not_modified env (ft_Store f) key (fst ?prev) s
        else if rs_StatusCode resp = 200 then store_response sha env (ft_Store f) key resp s
        else (Inl (BadStatus (rs_StatusCode resp)), s)) = (r, s')"
      using assms(2) by (auto simp: fetch_once_def Let_def split: option.splits prod.splits)
    show ?thesis
      using c h raw_after_not_modified[OF assms(1)] raw_after_response[OF assms(1)]
      by (auto split: if_splits)
  next
    case False
    then show ?thesis
      using assms(2) by (cases "ft_HTTP f (fetch_request url ?prev) n") (auto simp: fetch_once_def Let_def split: if_splits)
  qed
qed

text \<open>The environment of a call in which nothing fails.\<close>

definition env_ok :: "fetch_env \<Rightarrow> bool" where
  "env_ok env \<longleftrightarrow> fe_request env \<and> fe_stat env \<and> fe_read env \<and> fe_readmeta env \<and>
     write_outcome (fe_body env) = None \<and> write_outcome (fe_meta env) = None \<and> year_in_range 0 (fe_now env)"

lemma write_meta_result:
  assumes "fetch_ready st key env s" and "write_outcome (fe_meta env) = None" and "encode_meta m = Some b"
  shows "\<exists>s'. write_meta st key m fd (fe_meta env) s = (None, s')"
proof -
  have r: "plain_store st" "plain_name key" "fs_wf s" "rand_ok (fe_meta env)" "fresh_tmp st (key @ ''.meta'') (fe_meta env) s"
    using assms(1) by (simp_all add: fetch_ready_def)
  have "fst (atomic_write st (key @ ''.meta'') b fd (fe_meta env) s) = None"
    using write_read(2)[OF r(1) meta_key_plain[OF r(2)] r(2,3,5,4)] assms(2) by simp
  then show ?thesis using assms(3) by (metis (no_types, lifting) option.simps(5) prod.collapse write_meta_def)
qed

lemma revalidation:
  assumes "fetch_ready (ft_Store f) key env s" and "env_ok env"
    and "consistent (ft_Store f) key body m s" and "\<bar>mt_Bytes m\<bar> < 2 ^ 63"
    and "ft_HTTP f \<lparr>rq_Method = ''GET'', rq_URL = url,
      rq_Header = header_if ''If-None-Match'' (mt_ETag m) @ header_if ''If-Modified-Since'' (mt_LastModified m),
      rq_Timeout = 0\<rparr> n = (Some resp, n')"
    and "rs_StatusCode resp = 304"
  shows "\<exists>s'. fetch_once sha f env url key (s, n) = (Inr body, s', n') \<and>
    consistent (ft_Store f) key body (m\<lparr>mt_FetchedAt := fe_now env\<rparr>) s'"
proof -
  have "read_meta True (ft_Store f) key s = Inr m" and raw: "fs_read (raw_path (ft_Store f) key) s = Some body"
    using assms(3,4) read_meta_encoded by (auto simp: consistent_def)
  then have prev: "read_meta_ok env (ft_Store f) key s = (m, True)"
    using assms(2) by (simp add: read_meta_ok_def env_ok_def stat_raw_def read_file_def)
  obtain b where b: "encode_meta (m\<lparr>mt_FetchedAt := fe_now env\<rparr>) = Some b"
    using assms(2) by (simp add: encode_meta_def env_ok_def)
  have "write_outcome (fe_meta env) = None" using assms(2) by (simp add: env_ok_def)
  then obtain s' where s': "write_meta (ft_Store f) key (m\<lparr>mt_FetchedAt := fe_now env\<rparr>) (fe_fd env) (fe_meta env) s = (None, s')"
    using write_meta_result[OF assms(1) _ b] by blast
  have nm: "not_modified env (ft_Store f) key m s = (Inr body, s')"
    using assms(2) raw s' by (simp add: not_modified_def read_raw_def read_file_def env_ok_def)
  then have "fetch_once sha f env url key (s, n) = (Inr body, s', n')"
    using assms(2,5,6) prev by (simp add: fetch_once_def Let_def fetch_request_def env_ok_def)
  then show ?thesis using not_modified_ok[OF assms(1) nm] by blast
qed

text \<open>
  C27: A stored copy is revalidated: the request carries the validators of the sidecar, and when the server
  answers 304 the call returns the stored body, keeps it, and stores the same sidecar with the new fetch
  time, so the next call can do the same.
\<close>

theorem fetch_revalidates:
  assumes "fetch_ready (ft_Store f) key env s" and "env_ok env"
    and "consistent (ft_Store f) key body m s" and "\<bar>mt_Bytes m\<bar> < 2 ^ 63"
    and "ft_HTTP f \<lparr>rq_Method = ''GET'', rq_URL = url,
      rq_Header = header_if ''If-None-Match'' (mt_ETag m) @ header_if ''If-Modified-Since'' (mt_LastModified m),
      rq_Timeout = 0\<rparr> n = (Some resp, n')"
    and "rs_StatusCode resp = 304"
  shows "\<exists>s'. fetch_once sha f env url key (s, n) = (Inr body, s', n') \<and>
    consistent (ft_Store f) key body (m\<lparr>mt_FetchedAt := fe_now env\<rparr>) s'"
  by (rule revalidation[OF assms])

text \<open>A store with a copy, a server that knows its validator, and one that serves a new body.\<close>

definition sample_fetch_env :: fetch_env where
  "sample_fetch_env = \<lparr>fe_request = True, fe_stat = True, fe_read = True, fe_readmeta = True,
     fe_now = 1700000000 * second_ns, fe_fd = 3, fe_body = sample_env, fe_meta = sample_env\<rparr>"

definition sample_server :: "unit fetcher" where
  "sample_server = \<lparr>ft_HTTP = (\<lambda>r n.
       (Some (if rq_Header r = [(''If-None-Match'', mt_ETag sample_meta)]
              then \<lparr>rs_StatusCode = 304, rs_Header = (\<lambda>_. []), rs_Body = [], rs_BodyErr = False\<rparr>
              else \<lparr>rs_StatusCode = 200, rs_Header = (\<lambda>_. []), rs_Body = ''new'', rs_BodyErr = False\<rparr>), n)),
     ft_Store = sample_store\<rparr>"

definition sample_copy :: fsys where
  "sample_copy = sample_fs\<lparr>fs_entry := [''/c/raw/k'' \<mapsto> 0, ''/c/raw/k.meta'' \<mapsto> 1],
     fs_data := (\<lambda>_. ''old'')(1 := json_out (Some 0) (meta_json sample_meta)), fs_next := 2\<rparr>"

lemma sample_paths: "raw_path sample_store ''k'' = ''/c/raw/k''" "meta_path sample_store ''k'' = ''/c/raw/k.meta''"
  "new_tmp sample_store ''k'' (Some ''abcdefgh'') = Inr ''/c/tmp/k.6162636465666768''"
  "new_tmp sample_store ''k.meta'' (Some ''abcdefgh'') = Inr ''/c/tmp/k.meta.6162636465666768''"
  by code_simp+

lemma sample_env_ok: "env_ok sample_fetch_env"
proof -
  have "year_in_range 0 (1700000000 * second_ns)" by code_simp
  then show ?thesis
    by (simp add: env_ok_def sample_fetch_env_def write_outcome_def write_result_def sync_dir_result_def sample_env_def)
qed

lemma sample_fetch_ready:
  "fetch_ready sample_store ''k'' sample_fetch_env sample_fs" "fetch_ready sample_store ''k'' sample_fetch_env sample_copy"
proof -
  have "fs_wf sample_copy"
    by (rule fs_wfI) (auto simp: sample_copy_def sample_fs_def entries_def split: if_splits)
  then show "fetch_ready sample_store ''k'' sample_fetch_env sample_fs" "fetch_ready sample_store ''k'' sample_fetch_env sample_copy"
    using sample_fs_wf sample_paths
    by (simp_all add: fetch_ready_def sample_fetch_env_def fresh_tmp_def sample_env_def rand_ok_def
        plain_store_def sample_store_def plain_name_def)
      (simp_all add: sample_fs_def sample_copy_def)
qed

lemma sample_consistent: "consistent sample_store ''k'' ''old'' sample_meta sample_copy"
proof -
  have "year_in_range 0 (mt_FetchedAt sample_meta)" by code_simp
  then show ?thesis
    by (simp add: consistent_def sample_paths encode_meta_def) (simp add: sample_copy_def fs_read_def)
qed

lemma sample_server_304:
  "ft_HTTP sample_server \<lparr>rq_Method = ''GET'', rq_URL = ''u'',
      rq_Header = header_if ''If-None-Match'' (mt_ETag sample_meta) @ header_if ''If-Modified-Since'' (mt_LastModified sample_meta),
      rq_Timeout = 0\<rparr> () =
   (Some \<lparr>rs_StatusCode = 304, rs_Header = (\<lambda>_. []), rs_Body = [], rs_BodyErr = False\<rparr>, ())"
  by (simp add: sample_server_def header_if_def sample_meta_def)

theorem fetch_revalidates_witness:
  "\<exists>s'. fetch_once id sample_server sample_fetch_env ''u'' ''k'' (sample_copy, ()) = (Inr ''old'', s', ())"
proof -
  have st: "ft_Store sample_server = sample_store" by (simp add: sample_server_def)
  have "\<bar>mt_Bytes sample_meta\<bar> < 2 ^ 63" by (simp add: sample_meta_def)
  from fetch_revalidates[OF _ sample_env_ok _ this sample_server_304, unfolded st, OF sample_fetch_ready(2) sample_consistent]
  show ?thesis by fastforce
qed

lemma sample_revalidation:
  "\<exists>s'. fetch_once id sample_server sample_fetch_env ''u'' ''k'' (sample_copy, ()) = (Inr ''old'', s', ())"
proof -
  have st: "ft_Store sample_server = sample_store" by (simp add: sample_server_def)
  have "\<bar>mt_Bytes sample_meta\<bar> < 2 ^ 63" by (simp add: sample_meta_def)
  from revalidation[OF _ sample_env_ok _ this sample_server_304, unfolded st, OF sample_fetch_ready(2) sample_consistent]
  show ?thesis by fastforce
qed

theorem fetch_result_is_stored_witness:
  "\<exists>s'. fetch_once id sample_server sample_fetch_env ''u'' ''k'' (sample_copy, ()) = (Inr ''old'', s', ()) \<and>
    fs_read ''/c/raw/k'' s' = Some ''old''"
proof -
  have st: "ft_Store sample_server = sample_store" by (simp add: sample_server_def)
  obtain s' where s': "fetch_once id sample_server sample_fetch_env ''u'' ''k'' (sample_copy, ()) = (Inr ''old'', s', ())"
    using sample_revalidation by blast
  from fetch_result_is_stored[OF _ s', unfolded st, OF sample_fetch_ready(2)]
  have "fs_read ''/c/raw/k'' s' = Some ''old''" by (auto simp: consistent_def sample_paths)
  then show ?thesis using s' by blast
qed

definition broken_server :: "unit fetcher" where
  "broken_server = sample_server\<lparr>ft_HTTP := (\<lambda>r n.
     (Some \<lparr>rs_StatusCode = 503, rs_Header = (\<lambda>_. []), rs_Body = ''busy'', rs_BodyErr = False\<rparr>, n))\<rparr>"

theorem fetch_keeps_copy_witness:
  "fetch_once id broken_server sample_fetch_env ''u'' ''k'' (sample_copy, ()) = (Inl (BadStatus 503), sample_copy, ()) \<and>
   fs_read ''/c/raw/k'' sample_copy = Some ''old''"
proof -
  have st: "ft_Store broken_server = sample_store" by (simp add: broken_server_def sample_server_def)
  have r: "fetch_once id broken_server sample_fetch_env ''u'' ''k'' (sample_copy, ()) = (Inl (BadStatus 503), sample_copy, ())"
    by (simp add: fetch_once_def Let_def broken_server_def sample_fetch_env_def)
  have "fs_read ''/c/raw/k'' sample_copy = Some ''old''" using sample_consistent by (simp add: consistent_def sample_paths)
  then show ?thesis
    using r fetch_keeps_copy[OF _ r, unfolded st, OF sample_fetch_ready(2)] by (simp add: sample_paths)
qed

end
