(* ===== verification/CacheParts.thy ===== *)
theory CacheParts
  imports
    Store RirSnapshot
begin

text \<open>
  The rest of \<open>internal/cache\<close>: the table of remote sources (\<open>source.go\<close>), the LRU with a time to live
  (\<open>mem.go\<close>), the cross-process lock (\<open>lock.go\<close>) and the memory-mapped snapshot (\<open>parsed.go\<close>).  The LRU
  of \<open>golang-lru\<close> and the file lock of \<open>gofrs/flock\<close> are parameters.
\<close>

section \<open>Sources\<close>

record source =
  sr_Name :: string
  sr_URL :: string
  sr_Key :: string

definition mk_source :: "string \<times> string \<times> string \<Rightarrow> string \<times> source" where
  "mk_source e = (fst e, \<lparr>sr_Name = fst e, sr_URL = fst (snd e), sr_Key = snd (snd e)\<rparr>)"

definition sources :: "(string \<times> source) list" where
  "sources = map mk_source
     [(''nro'', ''https://www.nro.net/wp-content/uploads/apnic-uploads/delegated-extended'', ''nro-delegated-stats''),
      (''apnic'', ''https://ftp.apnic.net/stats/apnic/delegated-apnic-latest'', ''delegated-apnic-latest''),
      (''arin'', ''https://ftp.arin.net/pub/stats/arin/delegated-arin-latest'', ''delegated-arin-latest''),
      (''ripe'', ''https://ftp.ripe.net/pub/stats/ripencc/delegated-ripencc-latest'', ''delegated-ripencc-latest''),
      (''lacnic'', ''https://ftp.lacnic.net/pub/stats/lacnic/delegated-lacnic-latest'', ''delegated-lacnic-latest''),
      (''afrinic'', ''https://ftp.afrinic.net/pub/stats/afrinic/delegated-afrinic-latest'', ''delegated-afrinic-latest''),
      (''psl'', ''https://publicsuffix.org/list/public_suffix_list.dat'', ''public_suffix_list.dat'')]"

definition no_source :: source where
  "no_source = \<lparr>sr_Name = [], sr_URL = [], sr_Key = []\<rparr>"

definition get_source :: "string \<Rightarrow> source \<times> bool" where
  "get_source name =
     (case map_of sources (to_lower name) of None \<Rightarrow> (no_source, False) | Some s \<Rightarrow> (s, True))"

definition all_sources :: "string \<Rightarrow> source option" where
  "all_sources = map_of sources"

text \<open>Two sources never share a raw file or a sidecar, and every key is a plain file name.\<close>

definition source_files :: "string list" where
  "source_files = concat (map (\<lambda>(_, s). [sr_Key s, sr_Key s @ ''.meta'']) sources)"

lemma source_files_ok: "distinct source_files \<and> list_all plain_name source_files"
  by code_simp

lemma get_source_plain: "get_source name = (s, True) \<Longrightarrow> plain_name (sr_Key s)"
proof -
  assume "get_source name = (s, True)"
  then have "map_of sources (to_lower name) = Some s" by (auto simp: get_source_def split: option.splits)
  then have "(to_lower name, s) \<in> set sources" by (rule map_of_SomeD)
  then have "sr_Key s \<in> set source_files" by (force simp: source_files_def)
  then show ?thesis using source_files_ok by (auto simp: list_all_iff)
qed

section \<open>LRU\<close>

record ('k, 'v, 'c) lru_ops =
  lo_Get :: "'k \<Rightarrow> 'c \<Rightarrow> 'v option \<times> 'c"
  lo_Add :: "'k \<Rightarrow> 'v \<Rightarrow> 'c \<Rightarrow> 'c"
  lo_Remove :: "'k \<Rightarrow> 'c \<Rightarrow> 'c"
  lo_Len :: "'c \<Rightarrow> nat"
  lo_Purge :: "'c \<Rightarrow> 'c"

record 'v lru_entry =
  le_v :: 'v
  le_expires :: int

record 'c lru =
  lr_c :: 'c
  lr_ttl :: int
  lr_now :: int

text \<open>\<open>mk\<close> is \<open>lru.New\<close>, which refuses a size that is not positive.\<close>

definition new_lru :: "(int \<Rightarrow> 'c option) \<Rightarrow> int \<Rightarrow> int \<Rightarrow> int \<Rightarrow> 'c lru option" where
  "new_lru mk sz ttl now =
     (case mk sz of None \<Rightarrow> None | Some c \<Rightarrow> Some \<lparr>lr_c = c, lr_ttl = ttl, lr_now = now\<rparr>)"

definition lru_get :: "('k, 'v lru_entry, 'c) lru_ops \<Rightarrow> 'k \<Rightarrow> 'c lru \<Rightarrow> 'v option \<times> 'c lru" where
  "lru_get ops k l =
     (case lo_Get ops k (lr_c l) of
        (None, c) \<Rightarrow> (None, l\<lparr>lr_c := c\<rparr>)
      | (Some e, c) \<Rightarrow>
          if le_expires e \<noteq> zero_time \<and> le_expires e < lr_now l
          then (None, l\<lparr>lr_c := lo_Remove ops k c\<rparr>)
          else (Some (le_v e), l\<lparr>lr_c := c\<rparr>))"

definition lru_put :: "('k, 'v lru_entry, 'c) lru_ops \<Rightarrow> 'k \<Rightarrow> 'v \<Rightarrow> 'c lru \<Rightarrow> 'c lru" where
  "lru_put ops k v l =
     l\<lparr>lr_c := lo_Add ops k
        \<lparr>le_v = v, le_expires = (if 0 < lr_ttl l then lr_now l + lr_ttl l else zero_time)\<rparr> (lr_c l)\<rparr>"

definition lru_len :: "('k, 'v lru_entry, 'c) lru_ops \<Rightarrow> 'c lru \<Rightarrow> nat" where
  "lru_len ops l = lo_Len ops (lr_c l)"

definition lru_remove :: "('k, 'v lru_entry, 'c) lru_ops \<Rightarrow> 'k \<Rightarrow> 'c lru \<Rightarrow> 'c lru" where
  "lru_remove ops k l = l\<lparr>lr_c := lo_Remove ops k (lr_c l)\<rparr>"

definition lru_purge :: "('k, 'v lru_entry, 'c) lru_ops \<Rightarrow> 'c lru \<Rightarrow> 'c lru" where
  "lru_purge ops l = l\<lparr>lr_c := lo_Purge ops (lr_c l)\<rparr>"

text \<open>\<open>SetClock\<close>: the reading of the new clock, the system clock \<open>real\<close> when none is given.\<close>

definition lru_set_clock :: "int \<Rightarrow> int option \<Rightarrow> 'c lru \<Rightarrow> 'c lru" where
  "lru_set_clock real now l = l\<lparr>lr_now := (case now of None \<Rightarrow> real | Some t \<Rightarrow> t)\<rparr>"

text \<open>What \<open>golang-lru\<close> documents and the wrapper relies on.\<close>

definition lru_laws :: "('k, 'v, 'c) lru_ops \<Rightarrow> bool" where
  "lru_laws ops \<longleftrightarrow>
     (\<forall>k v c. fst (lo_Get ops k (lo_Add ops k v c)) = Some v) \<and>
     (\<forall>k c. fst (lo_Get ops k (lo_Remove ops k c)) = None) \<and>
     (\<forall>k c. fst (lo_Get ops k (lo_Purge ops c)) = None)"

text \<open>
  A value put into the LRU is found by the next lookup of its key as long as the time to live has not
  passed, for ever when it is not positive; afterwards the lookup misses and takes the entry out.
\<close>

theorem lru_ttl:
  assumes "lru_laws ops" and "lr_now l + lr_ttl l \<noteq> zero_time"
  shows "fst (lru_get ops k ((lru_put ops k v l)\<lparr>lr_now := t\<rparr>)) =
      (if 0 < lr_ttl l \<and> lr_now l + lr_ttl l < t then None else Some v) \<and>
    (0 < lr_ttl l \<and> lr_now l + lr_ttl l < t \<longrightarrow>
       fst (lru_get ops k (snd (lru_get ops k ((lru_put ops k v l)\<lparr>lr_now := t\<rparr>)))) = None)"
proof -
  let ?e = "\<lparr>le_v = v, le_expires = (if 0 < lr_ttl l then lr_now l + lr_ttl l else zero_time)\<rparr>"
  obtain c where c: "lo_Get ops k (lo_Add ops k ?e (lr_c l)) = (Some ?e, c)"
    using assms(1) unfolding lru_laws_def by (metis prod.collapse)
  obtain c' where c': "lo_Get ops k (lo_Remove ops k c) = (None, c')"
    using assms(1) unfolding lru_laws_def by (metis prod.collapse)
  show ?thesis using c c' assms(2) by (auto simp: lru_get_def lru_put_def)
qed

text \<open>A recency list of bounded length.\<close>

definition list_ops :: "nat \<Rightarrow> ('k, 'v, ('k \<times> 'v) list) lru_ops" where
  "list_ops n =
     \<lparr>lo_Get = (\<lambda>k c. (map_of c k, filter (\<lambda>e. fst e = k) c @ filter (\<lambda>e. fst e \<noteq> k) c)),
      lo_Add = (\<lambda>k v c. take n ((k, v) # filter (\<lambda>e. fst e \<noteq> k) c)),
      lo_Remove = (\<lambda>k c. filter (\<lambda>e. fst e \<noteq> k) c), lo_Len = length, lo_Purge = (\<lambda>_. [])\<rparr>"

lemma list_ops_laws: "0 < n \<Longrightarrow> lru_laws (list_ops n)"
  by (cases n) (auto simp: lru_laws_def list_ops_def map_of_eq_None_iff)

theorem lru_ttl_witness:
  "fst (lru_get (list_ops 2) ''k'' ((lru_put (list_ops 2) ''k'' (7 :: int) \<lparr>lr_c = [], lr_ttl = 10, lr_now = 100\<rparr>)
     \<lparr>lr_now := 111\<rparr>)) = None"
proof -
  have "100 + 10 \<noteq> zero_time" by code_simp
  then show ?thesis
    using lru_ttl[OF list_ops_laws[of 2], where l = "\<lparr>lr_c = [], lr_ttl = 10, lr_now = 100\<rparr>"
        and k = "''k''" and v = "7 :: int" and t = 111] by simp
qed

section \<open>Locker\<close>

text \<open>
  \<open>tr n\<close> is what the \<open>n\<close>-th \<open>TryLock\<close> answers (\<open>None\<close>: an error) and \<open>cancelled n\<close> whether the
  \<open>select\<close> after it takes the branch of the context.  The loop has no bound of its own.
\<close>

datatype lock_result = Acquired | LockMkdirFailed | TryLockFailed | CtxDone

partial_function (option) acquire_loop ::
  "(nat \<Rightarrow> bool option) \<Rightarrow> (nat \<Rightarrow> bool) \<Rightarrow> nat \<Rightarrow> (lock_result \<times> nat) option" where
  "acquire_loop tr cancelled n =
     (if tr n = None then Some (TryLockFailed, n)
      else if tr n = Some True then Some (Acquired, n)
      else if cancelled n then Some (CtxDone, n)
      else acquire_loop tr cancelled (Suc n))"

definition acquire :: "bool \<Rightarrow> (nat \<Rightarrow> bool option) \<Rightarrow> (nat \<Rightarrow> bool) \<Rightarrow> (lock_result \<times> nat) option" where
  "acquire mkdir tr cancelled =
     (if \<not> mkdir then Some (LockMkdirFailed, 0) else acquire_loop tr cancelled 0)"

definition lock_event :: "(nat \<Rightarrow> bool option) \<Rightarrow> (nat \<Rightarrow> bool) \<Rightarrow> nat \<Rightarrow> lock_result option" where
  "lock_event tr cancelled n =
     (case tr n of None \<Rightarrow> Some TryLockFailed | Some True \<Rightarrow> Some Acquired
      | Some False \<Rightarrow> if cancelled n then Some CtxDone else None)"

lemma acquire_loop_eq:
  "acquire_loop tr cancelled n =
     (case lock_event tr cancelled n of Some r \<Rightarrow> Some (r, n) | None \<Rightarrow> acquire_loop tr cancelled (Suc n))"
  by (subst acquire_loop.simps) (auto simp: lock_event_def split: option.split bool.split)

lemma acquire_loop_finds:
  assumes "lock_event tr cancelled (n + d) = Some r" and "\<forall>j < d. lock_event tr cancelled (n + j) = None"
  shows "acquire_loop tr cancelled n = Some (r, n + d)"
  using assms
proof (induction d arbitrary: n)
  case 0
  then show ?case by (subst acquire_loop_eq) simp
next
  case (Suc d)
  have "acquire_loop tr cancelled (Suc n) = Some (r, Suc n + d)"
    using Suc.IH[of "Suc n"] Suc.prems by (metis Suc_less_eq add_Suc add_Suc_right)
  moreover have "lock_event tr cancelled n = None" using Suc.prems(2) by (metis add.right_neutral zero_less_Suc)
  ultimately show ?case by (subst acquire_loop_eq) simp
qed

lemma acquire_loop_result:
  assumes "acquire_loop tr cancelled n = Some (r, m)"
  shows "n \<le> m \<and> lock_event tr cancelled m = Some r"
proof -
  have "acquire_loop tr cancelled n = Some y \<Longrightarrow> n \<le> snd y \<and> lock_event tr cancelled (snd y) = Some (fst y)" for y
  proof (rule acquire_loop.raw_induct[where P = "\<lambda>tr cancelled n y. n \<le> snd y \<and> lock_event tr cancelled (snd y) = Some (fst y)"])
    fix f :: "(nat \<Rightarrow> bool option) \<Rightarrow> (nat \<Rightarrow> bool) \<Rightarrow> nat \<Rightarrow> (lock_result \<times> nat) option" and tr cancelled n y
    assume IH: "\<And>tr cancelled n y. f tr cancelled n = Some y \<Longrightarrow> n \<le> snd y \<and> lock_event tr cancelled (snd y) = Some (fst y)"
      and eq: "(if tr n = None then Some (TryLockFailed, n) else if tr n = Some True then Some (Acquired, n)
        else if cancelled n then Some (CtxDone, n) else f tr cancelled (Suc n)) = Some y"
    show "n \<le> snd y \<and> lock_event tr cancelled (snd y) = Some (fst y)"
      using eq IH[of tr cancelled "Suc n" y]
      by (auto simp: lock_event_def split: option.splits bool.splits if_splits)
  qed
  then show ?thesis using assms by fastforce
qed

text \<open>
  C22: \<open>Acquire\<close> returns exactly when something ends it: the directory cannot be made, or at some round the
  lock is free, \<open>TryLock\<close> fails or the context is done.  Then it returns what the first such round says;
  otherwise it polls for ever.
\<close>

theorem acquire_returns_iff:
  "((\<exists>y. acquire mkdir tr cancelled = Some y) \<longleftrightarrow> \<not> mkdir \<or> (\<exists>n. lock_event tr cancelled n \<noteq> None)) \<and>
   (mkdir \<longrightarrow> lock_event tr cancelled n = Some r \<longrightarrow> (\<forall>j < n. lock_event tr cancelled j = None) \<longrightarrow>
      acquire mkdir tr cancelled = Some (r, n))"
proof -
  have "\<exists>y. acquire_loop tr cancelled 0 = Some y" if ex: "\<exists>n. lock_event tr cancelled n \<noteq> None"
  proof -
    define m where "m = (LEAST n. lock_event tr cancelled n \<noteq> None)"
    have "lock_event tr cancelled m \<noteq> None" unfolding m_def by (rule LeastI_ex[OF ex])
    then obtain q where "lock_event tr cancelled m = Some q" by blast
    moreover have "\<forall>j < m. lock_event tr cancelled j = None" using not_less_Least unfolding m_def by blast
    ultimately show ?thesis using acquire_loop_finds[of tr cancelled 0 m q] by auto
  qed
  moreover have "\<exists>n. lock_event tr cancelled n \<noteq> None" if "acquire_loop tr cancelled 0 = Some y" for y
    using acquire_loop_result[of tr cancelled 0 "fst y" "snd y"] that by auto
  ultimately show ?thesis
    using acquire_loop_finds[of tr cancelled 0 n r] by (auto simp: acquire_def)
qed

theorem acquire_returns_iff_witness:
  "acquire True (\<lambda>n. Some (n = 2)) (\<lambda>_. False) = Some (Acquired, 2)"
  using acquire_returns_iff[of True "\<lambda>n. Some (n = 2)" "\<lambda>_. False" 2 Acquired]
  by (auto simp: lock_event_def split: bool.split)

text \<open>\<open>Release\<close>: nothing to do without a lock.\<close>

definition release_lock :: "(unit \<Rightarrow> bool) option \<Rightarrow> bool" where
  "release_lock fl = (case fl of None \<Rightarrow> True | Some unlock \<Rightarrow> unlock ())"

section \<open>Snapshot\<close>

record snapshot_view =
  sv_DB :: rir_db
  sv_Path :: string
  sv_Size :: int
  sv_reader :: "bytes option"
  sv_raw :: bytes

datatype load_error = MmapOpenFailed | MmapReadFailed | ParseFailed snap_error

text \<open>\<open>openok\<close> and \<open>readok\<close> are the outcomes of \<open>mmap.Open\<close> and \<open>ReadAt\<close>.\<close>

definition load_snapshot_file :: "bool \<Rightarrow> bool \<Rightarrow> string \<Rightarrow> fsys \<Rightarrow> load_error + snapshot_view" where
  "load_snapshot_file openok readok path s =
     (case (if openok then fs_read path s else None) of
        None \<Rightarrow> Inl MmapOpenFailed
      | Some buf \<Rightarrow>
          if \<not> readok then Inl MmapReadFailed
          else (case load_snapshot buf zero_sha of
              Inl e \<Rightarrow> Inl (ParseFailed e)
            | Inr db \<Rightarrow> Inr \<lparr>sv_DB = db, sv_Path = path, sv_Size = int (length buf), sv_reader = Some buf, sv_raw = buf\<rparr>))"

definition close_snapshot :: "bool \<Rightarrow> snapshot_view option \<Rightarrow> bool \<times> snapshot_view option" where
  "close_snapshot closeok v =
     (case v of
        None \<Rightarrow> (True, None)
      | Some v \<Rightarrow>
          (case sv_reader v of
             None \<Rightarrow> (True, Some v)
           | Some _ \<Rightarrow> (closeok, Some (v\<lparr>sv_reader := None, sv_raw := []\<rparr>))))"

definition verify_sha256 :: "(bytes \<Rightarrow> bytes) \<Rightarrow> bytes \<Rightarrow> bytes \<Rightarrow> bool" where
  "verify_sha256 sha raw expected \<longleftrightarrow> sha raw = expected"

definition snapshot_size :: "bool \<Rightarrow> string \<Rightarrow> fsys \<Rightarrow> int option" where
  "snapshot_size statok path s = (if statok then map_option (\<lambda>b. int (length b)) (fs_read path s) else None)"

text \<open>
  A snapshot file in the cache loads with the rows it was written with, whatever hash it records: the
  cache hands \<open>rir.LoadSnapshot\<close> the zero hash, which switches the comparison off, so a snapshot built
  from an outdated raw file is never found stale.
\<close>

theorem cached_snapshot_any_hash:
  assumes "fits db" and "length sha = 32" and "fs_read path s = Some (snapshot db sha)"
  shows "load_snapshot_file True True path s =
    Inr \<lparr>sv_DB = db, sv_Path = path, sv_Size = int (length (snapshot db sha)),
      sv_reader = Some (snapshot db sha), sv_raw = snapshot db sha\<rparr>"
proof -
  have "load_snapshot (snapshot db sha) zero_sha = Inr db"
    using load_snapshot_header[OF assms(2), of "replicate 16 (CHR 0x00)"] load_tables_write[OF assms(1), of "[]"]
    by (simp add: snapshot_def)
  then show ?thesis using assms(3) by (simp add: load_snapshot_file_def)
qed

theorem cached_snapshot_any_hash_witness:
  "\<exists>v. load_snapshot_file True True ''/c/parsed/k''
     (sample_fs\<lparr>fs_entry := [''/c/parsed/k'' \<mapsto> 0],
       fs_data := (\<lambda>_. snapshot sample_db (replicate 32 (CHR ''h'')))\<rparr>) = Inr v \<and> sv_DB v = sample_db"
proof -
  let ?s = "sample_fs\<lparr>fs_entry := [''/c/parsed/k'' \<mapsto> 0],
       fs_data := (\<lambda>_. snapshot sample_db (replicate 32 (CHR ''h'')))\<rparr>"
  have "fs_read ''/c/parsed/k'' ?s = Some (snapshot sample_db (replicate 32 (CHR ''h'')))"
    by (simp add: fs_read_def)
  moreover have "fits sample_db" by (simp add: fits_def sample_db_def)
  ultimately show ?thesis
    using cached_snapshot_any_hash[of sample_db "replicate 32 (CHR ''h'')" "''/c/parsed/k''" ?s] by simp
qed

end
