(* ===== verification/Resolver.thy ===== *)
theory Resolver
  imports
    CacheParts Classifier Http
begin

text \<open>
  \<open>internal/resolver/resolver.go\<close>: name resolution with a timeout, a rotating list of servers and an LRU of
  answers that live for five minutes.  \<open>net.Resolver\<close> and the LRU are parameters.
\<close>

definition resolver_cache_size :: int where "resolver_cache_size = 10000"
definition resolver_cache_ttl :: int where "resolver_cache_ttl = 5 * 60 * second_ns"

record cache_entry =
  ce_addrs :: "addr list"
  ce_expires :: int

record 'c resolver_state =
  rs_cache :: 'c
  rs_idx :: nat

record ('c, 'n) resolver =
  rv_ops :: "(string, cache_entry, 'c) lru_ops"
  rv_lookup :: "int \<Rightarrow> string \<Rightarrow> 'n \<Rightarrow> addr list option \<times> 'n"
  rv_timeout :: int
  rv_clock :: "'n \<Rightarrow> int"

text \<open>\<open>New\<close>; \<open>net\<close> is the resolver of package \<open>net\<close> for a list of servers.\<close>

definition new_resolver ::
  "(string, cache_entry, 'c) lru_ops \<Rightarrow> (int \<Rightarrow> 'c) \<Rightarrow>
   (string list \<Rightarrow> int \<Rightarrow> string \<Rightarrow> 'n \<Rightarrow> addr list option \<times> 'n) \<Rightarrow> ('n \<Rightarrow> int) \<Rightarrow> int \<Rightarrow> string list \<Rightarrow>
   ('c, 'n) resolver \<times> 'c resolver_state" where
  "new_resolver ops mk net clock timeout servers =
     (\<lparr>rv_ops = ops, rv_lookup = net servers, rv_timeout = timeout, rv_clock = clock\<rparr>,
      \<lparr>rs_cache = mk resolver_cache_size, rs_idx = 0\<rparr>)"

text \<open>The server that the \<open>Dial\<close> hook picks: the list in turn.\<close>

definition dial_server :: "string list \<Rightarrow> 'c resolver_state \<Rightarrow> string \<times> 'c resolver_state" where
  "dial_server servers st = (servers ! (rs_idx st mod length servers), st\<lparr>rs_idx := rs_idx st + 1\<rparr>)"

definition query_net ::
  "('c, 'n) resolver \<Rightarrow> string \<Rightarrow> 'c resolver_state \<Rightarrow> 'n \<Rightarrow> (classify_error + addr list) \<times> 'c resolver_state \<times> 'n" where
  "query_net r host st n =
     (case rv_lookup r (deadline (rv_timeout r)) host n of
        (None, n') \<Rightarrow> (Inl ErrUnresolvable, st, n')
      | (Some addrs, n') \<Rightarrow>
          if addrs = [] then (Inl ErrUnresolvable, st, n')
          else
            (let result = map unmap addrs in
             (Inr result,
              st\<lparr>rs_cache := lo_Add (rv_ops r) host
                 \<lparr>ce_addrs = result, ce_expires = rv_clock r n' + resolver_cache_ttl\<rparr> (rs_cache st)\<rparr>, n')))"

definition resolve ::
  "('c, 'n) resolver \<Rightarrow> string \<Rightarrow> 'c resolver_state \<Rightarrow> 'n \<Rightarrow> (classify_error + addr list) \<times> 'c resolver_state \<times> 'n" where
  "resolve r host0 st n =
     (if host0 = [] then (Inl ErrInvalidInput, st, n)
      else
        (let host = trim_suffix host0 ''.'' in
         if 253 < length host then (Inl ErrInvalidInput, st, n)
         else if host = [] then (Inl ErrInvalidInput, st, n)
         else
           (case lo_Get (rv_ops r) host (rs_cache st) of
              (Some e, c) \<Rightarrow>
                if rv_clock r n < ce_expires e then (Inr (ce_addrs e), st\<lparr>rs_cache := c\<rparr>, n)
                else query_net r host (st\<lparr>rs_cache := lo_Remove (rv_ops r) host c\<rparr>) n
            | (None, c) \<Rightarrow> query_net r host (st\<lparr>rs_cache := c\<rparr>) n)))"

section \<open>Lemmas\<close>

text \<open>Every address in the cache has been unmapped, and no cached answer is empty.\<close>

definition answers_ok :: "addr list \<Rightarrow> bool" where
  "answers_ok as \<longleftrightarrow> as \<noteq> [] \<and> list_all (\<lambda>a. \<not> is4in6 a) as"

definition cache_holds :: "(string, cache_entry, 'c) lru_ops \<Rightarrow> (cache_entry \<Rightarrow> bool) \<Rightarrow> 'c \<Rightarrow> bool" where
  "cache_holds ops P c \<longleftrightarrow> (\<forall>h e. fst (lo_Get ops h c) = Some e \<longrightarrow> P e)"

text \<open>A lookup, a removal or an insertion brings no other entry into the LRU.\<close>

definition lru_frame :: "('k, 'v, 'c) lru_ops \<Rightarrow> bool" where
  "lru_frame ops \<longleftrightarrow>
     (\<forall>k h c e. fst (lo_Get ops h (snd (lo_Get ops k c))) = Some e \<longrightarrow> fst (lo_Get ops h c) = Some e) \<and>
     (\<forall>k h c e. fst (lo_Get ops h (lo_Remove ops k c)) = Some e \<longrightarrow> fst (lo_Get ops h c) = Some e) \<and>
     (\<forall>k v h c e. fst (lo_Get ops h (lo_Add ops k v c)) = Some e \<longrightarrow> e = v \<or> fst (lo_Get ops h c) = Some e)"

lemma lru_frameD:
  assumes "lru_frame ops"
  shows "fst (lo_Get ops h (snd (lo_Get ops k c))) = Some e \<Longrightarrow> fst (lo_Get ops h c) = Some e"
    and "fst (lo_Get ops h (lo_Remove ops k c)) = Some e \<Longrightarrow> fst (lo_Get ops h c) = Some e"
    and "fst (lo_Get ops h (lo_Add ops k v c)) = Some e \<Longrightarrow> e = v \<or> fst (lo_Get ops h c) = Some e"
  using assms unfolding lru_frame_def by blast+

lemma query_net_ok:
  assumes "query_net r host st n = (res, st', n')" and "lru_frame (rv_ops r)"
    and "cache_holds (rv_ops r) (\<lambda>e. answers_ok (ce_addrs e)) (rs_cache st)"
  shows "cache_holds (rv_ops r) (\<lambda>e. answers_ok (ce_addrs e)) (rs_cache st') \<and> (\<forall>as. res = Inr as \<longrightarrow> answers_ok as)"
proof (cases "\<exists>addrs. fst (rv_lookup r (deadline (rv_timeout r)) host n) = Some addrs \<and> addrs \<noteq> []")
  case True
  then obtain addrs n1 where a: "rv_lookup r (deadline (rv_timeout r)) host n = (Some addrs, n1)" "addrs \<noteq> []"
    by (metis prod.collapse)
  then have ok: "answers_ok (map unmap addrs)" by (auto simp: answers_ok_def list_all_iff)
  define e where "e = \<lparr>ce_addrs = map unmap addrs, ce_expires = rv_clock r n1 + resolver_cache_ttl\<rparr>"
  have st': "st' = st\<lparr>rs_cache := lo_Add (rv_ops r) host e (rs_cache st)\<rparr>" and res: "res = Inr (map unmap addrs)"
    using assms(1) a by (auto simp: query_net_def Let_def e_def)
  have "answers_ok (ce_addrs x)" if "fst (lo_Get (rv_ops r) h (lo_Add (rv_ops r) host e (rs_cache st))) = Some x" for h x
  proof -
    have "x = e \<or> fst (lo_Get (rv_ops r) h (rs_cache st)) = Some x" using lru_frameD(3)[OF assms(2) that] .
    then show ?thesis using ok assms(3) by (auto simp: e_def cache_holds_def)
  qed
  then show ?thesis using ok st' res by (simp add: cache_holds_def)
next
  case False
  then show ?thesis using assms(1,3) by (auto simp: query_net_def split: prod.splits option.splits if_splits)
qed

text \<open>
  C23: \<open>Resolve\<close> never hands out an IPv4-mapped IPv6 address nor an empty list of addresses, whether the
  answer comes from the network or from the cache, and it keeps the cache free of both.
\<close>

theorem resolve_unmapped:
  assumes "lru_frame (rv_ops r)" and "cache_holds (rv_ops r) (\<lambda>e. answers_ok (ce_addrs e)) (rs_cache st)"
    and "resolve r host st n = (res, st', n')"
  shows "cache_holds (rv_ops r) (\<lambda>e. answers_ok (ce_addrs e)) (rs_cache st') \<and> (\<forall>as. res = Inr as \<longrightarrow> answers_ok as)"
proof -
  let ?h = "trim_suffix host ''.''"
  let ?ok = "cache_holds (rv_ops r) (\<lambda>e. answers_ok (ce_addrs e))"
  obtain x c where g: "lo_Get (rv_ops r) ?h (rs_cache st) = (x, c)" by fastforce
  have c: "?ok c" and rm: "?ok (lo_Remove (rv_ops r) ?h c)"
    using assms(2) lru_frameD(1)[OF assms(1), of _ ?h "rs_cache st"] lru_frameD(2)[OF assms(1), of _ ?h c] g
    unfolding cache_holds_def by (metis snd_conv)+
  have hit: "answers_ok (ce_addrs e)" if "x = Some e" for e
    using assms(2) g that unfolding cache_holds_def by (metis fst_conv)
  note q = query_net_ok[OF _ assms(1), where host = ?h]
  show ?thesis
  proof (cases "host = [] \<or> 253 < length ?h \<or> ?h = []")
    case True
    then show ?thesis using assms(2,3) by (auto simp: resolve_def Let_def split: if_splits)
  next
    case ok: False
    show ?thesis
    proof (cases x)
      case None
      then have "query_net r ?h (st\<lparr>rs_cache := c\<rparr>) n = (res, st', n')"
        using assms(3) ok g by (simp add: resolve_def Let_def)
      from q[OF this] show ?thesis using c by simp
    next
      case (Some e)
      show ?thesis
      proof (cases "rv_clock r n < ce_expires e")
        case True
        then have "res = Inr (ce_addrs e)" "st' = st\<lparr>rs_cache := c\<rparr>"
          using assms(3) ok g Some by (simp_all add: resolve_def Let_def)
        then show ?thesis using hit[OF Some] c by simp
      next
        case False
        then have "query_net r ?h (st\<lparr>rs_cache := lo_Remove (rv_ops r) ?h c\<rparr>) n = (res, st', n')"
          using assms(3) ok g Some by (simp add: resolve_def Let_def)
        from q[OF this] show ?thesis using rm by simp
      qed
    qed
  qed
qed

lemma map_of_filter_key: "map_of (filter (\<lambda>e. P (fst e)) c) h = (if P h then map_of c h else None)"
  by (induction c) auto

lemma map_of_take: "map_of (take m c) h = Some e \<Longrightarrow> map_of c h = Some e"
  by (metis append_take_drop_id map_add_Some_iff map_of_append)

lemma list_ops_sel:
  "fst (lo_Get (list_ops m) k c) = map_of c k"
  "snd (lo_Get (list_ops m) k c) = filter (\<lambda>e. fst e = k) c @ filter (\<lambda>e. fst e \<noteq> k) c"
  "lo_Add (list_ops m) k v c = take m ((k, v) # filter (\<lambda>e. fst e \<noteq> k) c)"
  "lo_Remove (list_ops m) k c = filter (\<lambda>e. fst e \<noteq> k) c"
  by (simp_all add: list_ops_def)

lemma list_ops_frame: "lru_frame (list_ops m)"
  unfolding lru_frame_def list_ops_sel
proof (intro conjI allI impI)
  fix k h :: 'a and c :: "('a \<times> 'b) list" and e
  show "map_of c h = Some e" if "map_of (filter (\<lambda>e. fst e = k) c @ filter (\<lambda>e. fst e \<noteq> k) c) h = Some e"
    using that map_of_filter_key[of "\<lambda>x. x = k" c h] map_of_filter_key[of "\<lambda>x. x \<noteq> k" c h]
    by (auto simp: map_add_def split: option.splits if_splits)
  show "map_of c h = Some e" if "map_of (filter (\<lambda>e. fst e \<noteq> k) c) h = Some e"
    using that map_of_filter_key[of "\<lambda>x. x \<noteq> k" c h] by (auto split: if_splits)
next
  fix k h :: 'a and c :: "('a \<times> 'b) list" and v e
  assume "map_of (take m ((k, v) # filter (\<lambda>e. fst e \<noteq> k) c)) h = Some e"
  from map_of_take[OF this] show "e = v \<or> map_of c h = Some e"
    using map_of_filter_key[of "\<lambda>x. x \<noteq> k" c h] by (auto split: if_splits)
qed

definition sample_resolver :: "((string \<times> cache_entry) list, int) resolver" where
  "sample_resolver = \<lparr>rv_ops = list_ops 2,
     rv_lookup = (\<lambda>t h n. (if h = ''a.id'' then Some [Addr6 0xFFFF01020304 [], Addr4 5] else None, n)),
     rv_timeout = 3, rv_clock = id\<rparr>"

theorem resolve_unmapped_witness:
  "fst (resolve sample_resolver ''a.id.'' \<lparr>rs_cache = [], rs_idx = 0\<rparr> 7) = Inr [Addr4 0x01020304, Addr4 5] \<and>
   answers_ok [Addr4 0x01020304, Addr4 5]"
proof -
  let ?st = "\<lparr>rs_cache = [], rs_idx = 0\<rparr>"
  have r: "fst (resolve sample_resolver ''a.id.'' ?st 7) = Inr [Addr4 0x01020304, Addr4 5]"
    by code_simp
  then obtain st' n' where r': "resolve sample_resolver ''a.id.'' ?st 7 = (Inr [Addr4 0x01020304, Addr4 5], st', n')"
    by (metis prod.collapse)
  have "lru_frame (rv_ops sample_resolver)" "cache_holds (rv_ops sample_resolver) (\<lambda>e. answers_ok (ce_addrs e)) (rs_cache ?st)"
    by (simp_all add: sample_resolver_def list_ops_frame cache_holds_def) (simp add: list_ops_def)
  from resolve_unmapped[OF this r'] r show ?thesis by blast
qed

text \<open>
  An answer is reused for five minutes: resolving the same host again, with or without its trailing
  dot, gives the same addresses without a query while the entry lives, and queries again afterwards.
\<close>

theorem resolve_memo:
  assumes "lru_laws (rv_ops r)" and "query_net r (trim_suffix host ''.'') st n = (Inr as, st', n')"
    and "trim_suffix host ''.'' \<noteq> []" and "length (trim_suffix host ''.'') \<le> 253"
  shows "resolve r host st' m =
    (if rv_clock r m < rv_clock r n' + resolver_cache_ttl
     then (Inr as, st'\<lparr>rs_cache := snd (lo_Get (rv_ops r) (trim_suffix host ''.'') (rs_cache st'))\<rparr>, m)
     else query_net r (trim_suffix host ''.'')
       (st'\<lparr>rs_cache := lo_Remove (rv_ops r) (trim_suffix host ''.'')
          (snd (lo_Get (rv_ops r) (trim_suffix host ''.'') (rs_cache st')))\<rparr>) m)"
proof -
  let ?h = "trim_suffix host ''.''"
  have "host \<noteq> []" using assms(3) by (auto simp: trim_suffix_def split: if_splits)
  moreover obtain v c where st': "rs_cache st' = lo_Add (rv_ops r) ?h \<lparr>ce_addrs = as, ce_expires = v\<rparr> c"
    and v: "v = rv_clock r n' + resolver_cache_ttl"
    using assms(2) by (auto simp: query_net_def Let_def split: prod.splits option.splits if_splits)
  moreover have "fst (lo_Get (rv_ops r) ?h (rs_cache st')) = Some \<lparr>ce_addrs = as, ce_expires = v\<rparr>"
    using assms(1) by (simp add: lru_laws_def st')
  ultimately show ?thesis
    using assms(3,4) by (cases "lo_Get (rv_ops r) ?h (rs_cache st')") (simp add: resolve_def Let_def)
qed

theorem resolve_memo_witness:
  "\<exists>st'. fst (resolve sample_resolver ''a.id.'' st' 8) = Inr [Addr4 0x01020304, Addr4 5]"
proof -
  have q: "fst (query_net sample_resolver ''a.id'' \<lparr>rs_cache = [], rs_idx = 0\<rparr> 7) = Inr [Addr4 0x01020304, Addr4 5]"
    "snd (snd (query_net sample_resolver ''a.id'' \<lparr>rs_cache = [], rs_idx = 0\<rparr> 7)) = 7"
    "trim_suffix ''a.id.'' ''.'' = ''a.id''" "8 < 7 + resolver_cache_ttl"
    by code_simp+
  then obtain st' where st': "query_net sample_resolver (trim_suffix ''a.id.'' ''.'') \<lparr>rs_cache = [], rs_idx = 0\<rparr> 7 =
      (Inr [Addr4 0x01020304, Addr4 5], st', 7)"
    by (metis prod.collapse)
  have laws: "lru_laws (rv_ops sample_resolver)" by (simp add: sample_resolver_def list_ops_laws)
  have "rv_clock sample_resolver = id" by (simp add: sample_resolver_def)
  then show ?thesis
    using resolve_memo[OF laws st', of 8] q(3,4) by (intro exI[of _ st']) simp
qed

end
