(* ===== verification/Cli.thy ===== *)
theory Cli
  imports
    Server Config Fetch Resolver ContentScan TlsCert CtLog Wayback Rdap
begin

text \<open>
  \<open>cmd/regionchecker\<close> and \<open>pkg/regionchecker\<close>: how the commands put the components together.  The network, the
  MMDB reader, the YAML decoder and the hash are parameters; the command line is a record of flag values.
\<close>

section \<open>Loading\<close>

datatype cli_error =
    CliConfig config_error
  | CliReadInput
  | CliNoInput
  | CliStore store_error
  | CliNoSnapshot string
  | CliLoad load_error
  | CliMMDB string
  | CliRdap
  | CliFormat string
  | CliUnknownSource string
  | CliFetch fetch_error
  | CliBuild rir_error
  | CliMkdir
  | CliWrite
  | CliSweep store_error
  | CliNoExecutable

definition parsed_snapshot_name :: string where
  "parsed_snapshot_name = ''ipv4-ranges.bin''"

definition cli_load_config ::
  "(bytes \<Rightarrow> config \<Rightarrow> config option) \<Rightarrow> (string \<Rightarrow> file_read) \<Rightarrow> (string \<Rightarrow> string) \<Rightarrow> string \<Rightarrow> string \<Rightarrow>
   cli_error + config" where
  "cli_load_config yaml read env path cache_dir =
     (case load_config yaml read env path of
        Inl e \<Rightarrow> Inl (CliConfig e)
      | Inr cfg \<Rightarrow> Inr (if cache_dir \<noteq> [] then cfg\<lparr>cf_CacheDir := cache_dir\<rparr> else cfg))"

text \<open>\<open>mk\<close> and \<open>stat\<close> are the outcomes of \<open>MkdirAll\<close> and \<open>Stat\<close>; \<open>openok\<close> and \<open>readok\<close> those of the mapping.\<close>

definition open_snapshot ::
  "(string \<Rightarrow> bool) \<Rightarrow> (string \<Rightarrow> bool) \<Rightarrow> bool \<Rightarrow> bool \<Rightarrow> config \<Rightarrow> fsys \<Rightarrow> (cli_error + snapshot_view) \<times> fsys" where
  "open_snapshot mk stat openok readok cfg s =
     (case new_store mk (cf_CacheDir cfg) s of
        (Inl e, s') \<Rightarrow> (Inl (CliStore e), s')
      | (Inr st, s') \<Rightarrow>
          (let path = parsed_path st parsed_snapshot_name in
           if \<not> stat path \<or> fs_read path s' = None then (Inl (CliNoSnapshot path), s')
           else (case load_snapshot_file openok readok path s' of
               Inl e \<Rightarrow> (Inl (CliLoad e), s')
             | Inr v \<Rightarrow> (Inr v, s'))))"

section \<open>Inputs\<close>

definition input_lines :: "bytes \<Rightarrow> string list" where
  "input_lines data =
     filter (\<lambda>s. s \<noteq> [] \<and> hd s \<noteq> CHR ''#'') (map trim_space (go_split CHR 0x0A data))"

definition collect_inputs :: "(string \<Rightarrow> bytes option) \<Rightarrow> string list \<Rightarrow> string \<Rightarrow> string list option" where
  "collect_inputs read args file =
     (if file = [] then Some args
      else (case read file of None \<Rightarrow> None | Some data \<Rightarrow> Some (args @ input_lines data)))"

fun dedup_loop :: "string list \<Rightarrow> string list \<Rightarrow> string list" where
  "dedup_loop seen [] = []"
| "dedup_loop seen (s # ss) = (if s \<in> set seen then dedup_loop seen ss else s # dedup_loop (s # seen) ss)"

definition dedup :: "string list \<Rightarrow> string list" where
  "dedup ss = dedup_loop [] ss"

section \<open>The classifier of the check command\<close>

definition auto_mmdb :: "(string \<Rightarrow> string) \<Rightarrow> (string \<Rightarrow> bool) \<Rightarrow> config \<Rightarrow> string" where
  "auto_mmdb env stat cfg =
     (let v = env ''REGIONCHECKER_MMDB'';
          home = (case user_home_dir env of None \<Rightarrow> [] | Some h \<Rightarrow> h) in
      if v \<noteq> [] \<and> stat v then v
      else if cf_MMDBPath cfg \<noteq> [] \<and> stat (cf_MMDBPath cfg) then cf_MMDBPath cfg
      else (case find stat
          [path_join [cf_CacheDir cfg, ''asn.mmdb''], path_join [cf_CacheDir cfg, ''country_asn.mmdb''],
           path_join [home, ''.local'', ''share'', ''regionchecker'', ''asn.mmdb''],
           path_join [home, ''.cache'', ''regionchecker'', ''asn.mmdb''],
           ''/usr/share/GeoIP/GeoLite2-ASN.mmdb''] of
          None \<Rightarrow> []
        | Some p \<Rightarrow> p))"

record check_flags =
  fl_args :: "string list"
  fl_file :: string
  fl_output :: string
  fl_timeout :: int
  fl_offline :: bool
  fl_mmdb :: string
  fl_fast :: bool
  fl_no_rdap :: bool
  fl_no_cert :: bool
  fl_no_scan :: bool
  fl_no_wayback :: bool
  fl_no_ctlog :: bool
  fl_rdap_timeout :: int
  fl_cert_timeout :: int
  fl_scan_timeout :: int
  fl_wayback_timeout :: int
  fl_ctlog_timeout :: int

text \<open>
  The world of a lookup: the resolver's state and the network sit behind \<open>wd_net\<close>.  \<open>dp_http t\<close> is an HTTP
  client with timeout \<open>t\<close>.
\<close>

type_synonym ('c, 'm) cli_world = "('c resolver_state \<times> 'm) world"

record ('c, 'm) deps =
  dp_http :: "int \<Rightarrow> ('c, 'm) cli_world http"
  dp_dialer :: "('c, 'm) cli_world dialer"
  dp_cert :: "bytes \<Rightarrow> certificate option"
  dp_ctxerr :: "('c, 'm) cli_world \<Rightarrow> bool"
  dp_sha :: "bytes \<Rightarrow> bytes"
  dp_mkdir :: "string \<Rightarrow> bool"
  dp_bootstrap :: bytes
  dp_mmdb :: "string \<Rightarrow> (addr \<Rightarrow> mmdb_record option) option"
  dp_ops :: "(string, cache_entry, 'c) lru_ops"
  dp_lru :: "int \<Rightarrow> 'c"
  dp_net :: "string list \<Rightarrow> int \<Rightarrow> string \<Rightarrow> 'm \<Rightarrow> addr list option \<times> 'm"
  dp_now :: "'m \<Rightarrow> int"

text \<open>\<open>NewDiskCache\<close> of the five packages.\<close>

definition new_disk_cache :: "(string \<Rightarrow> bool) \<Rightarrow> string \<Rightarrow> int \<Rightarrow> disk_cache option" where
  "new_disk_cache mk dir ttl = (if mk dir then Some \<lparr>dc_dir = dir, dc_ttl = ttl\<rparr> else None)"

definition layer_cache ::
  "('c, 'm) deps \<Rightarrow> config \<Rightarrow> string \<Rightarrow> string \<Rightarrow> ('c, 'm) cli_world host_cache option \<Rightarrow> ('c, 'm) cli_world host_cache option" where
  "layer_cache d cfg sub key old =
     (case new_disk_cache (dp_mkdir d) (path_join [cf_CacheDir cfg, sub]) (7 * 24 * 3600 * second_ns) of
        None \<Rightarrow> old
      | Some dc \<Rightarrow> Some (disk_store (dp_sha d) key dc))"

definition check_tls :: "('c, 'm) deps \<Rightarrow> config \<Rightarrow> check_flags \<Rightarrow> ('c, 'm) cli_world tls_client" where
  "check_tls d cfg fl =
     tls_NewClient\<lparr>tc_Timeout := fl_cert_timeout fl, tc_Cache := layer_cache d cfg ''tlscert'' ''host'' (tc_Cache tls_NewClient)\<rparr>"

definition check_scan :: "('c, 'm) deps \<Rightarrow> config \<Rightarrow> check_flags \<Rightarrow> ('c, 'm) cli_world cs_client" where
  "check_scan d cfg fl =
     (let c = cs_NewClient (dp_http d (fl_scan_timeout fl)) in
      c\<lparr>cs_Timeout := fl_scan_timeout fl, cs_Cache := layer_cache d cfg ''contentscan'' ''host'' (cs_Cache c)\<rparr>)"

definition check_ctlog :: "('c, 'm) deps \<Rightarrow> config \<Rightarrow> check_flags \<Rightarrow> ('c, 'm) cli_world ct_client" where
  "check_ctlog d cfg fl =
     (let c = ct_NewClient (dp_http d (fl_ctlog_timeout fl)) (dp_cert d) (dp_ctxerr d) in
      c\<lparr>cl_Timeout := fl_ctlog_timeout fl, cl_Cache := layer_cache d cfg ''ctlog'' ''host'' (cl_Cache c)\<rparr>)"

definition check_wayback :: "('c, 'm) deps \<Rightarrow> config \<Rightarrow> check_flags \<Rightarrow> ('c, 'm) cli_world wb_client" where
  "check_wayback d cfg fl =
     (let c = wb_NewClient (dp_http d (fl_wayback_timeout fl)) in
      c\<lparr>wb_Timeout := fl_wayback_timeout fl, wb_Cache := layer_cache d cfg ''wayback'' ''host'' (wb_Cache c)\<rparr>)"

definition check_rdap :: "('c, 'm) deps \<Rightarrow> config \<Rightarrow> check_flags \<Rightarrow> ('c, 'm) cli_world rdap_client option" where
  "check_rdap d cfg fl =
     map_option (\<lambda>c. c\<lparr>rd_Timeout := fl_rdap_timeout fl, rd_Cache := layer_cache d cfg ''rdap'' ''domain'' (rd_Cache c)\<rparr>)
       (rdap_NewClient (dp_http d (3 * second_ns)) (dp_bootstrap d))"

text \<open>\<open>Resolve\<close> and \<open>LookupIP\<close> as the classifier takes them.\<close>

definition resolver_of ::
  "('c, 'm) resolver \<Rightarrow> string \<Rightarrow> ('c, 'm) cli_world \<Rightarrow> (addr list \<times> bool) \<times> ('c, 'm) cli_world" where
  "resolver_of r host w =
     (case resolve r host (fst (wd_net w)) (snd (wd_net w)) of
        (Inl e, st, n) \<Rightarrow> (([], True), w\<lparr>wd_net := (st, n)\<rparr>)
      | (Inr as, st, n) \<Rightarrow> ((as, False), w\<lparr>wd_net := (st, n)\<rparr>))"

definition no_ip_meta :: meta where
  "no_ip_meta = \<lparr>m_Registry = [], m_Status = 0, m_Date = zero_time, m_CIDR = []\<rparr>"

definition ip_of :: "rir_db \<Rightarrow> addr \<Rightarrow> string \<times> meta \<times> bool" where
  "ip_of db a = (case lookup_ip db a of None \<Rightarrow> ([], no_ip_meta, False) | Some (cc, m) \<Rightarrow> (cc, m, True))"

definition asn_of :: "(addr \<Rightarrow> mmdb_record option) option \<Rightarrow> addr \<Rightarrow> u32 \<times> string \<times> bool" where
  "asn_of reader a = (case mmdb_lookup reader a of None \<Rightarrow> (0, [], False) | Some (n, org) \<Rightarrow> (n, org, True))"

definition check_resolver ::
  "('c, 'm) deps \<Rightarrow> config \<Rightarrow> check_flags \<Rightarrow> (string \<Rightarrow> ('c, 'm) cli_world \<Rightarrow> (addr list \<times> bool) \<times> ('c, 'm) cli_world) option" where
  "check_resolver d cfg fl =
     (if fl_offline fl then None
      else Some (resolver_of (fst (new_resolver (dp_ops d) (dp_lru d) (dp_net d) (dp_now d) (fl_timeout fl) (cf_DNSServers cfg)))))"

definition check_classifier ::
  "('c, 'm) deps \<Rightarrow> (string \<Rightarrow> string) \<Rightarrow> (string \<Rightarrow> bool) \<Rightarrow> config \<Rightarrow> check_flags \<Rightarrow> rir_db \<Rightarrow>
   cli_error + ('c, 'm) cli_world classifier" where
  "check_classifier d env stat cfg fl db =
     (let base = new_classifier (\<lambda>w. (dp_now d (snd (wd_net w)), w)) (ip_of db) (check_resolver d cfg fl) None;
          mmdb = (if fl_mmdb fl = [] then auto_mmdb env stat cfg else fl_mmdb fl);
          online = (\<not> fl_fast fl \<and> \<not> fl_offline fl) in
      if mmdb \<noteq> [] \<and> Option.is_none (dp_mmdb d mmdb) then Inl (CliMMDB mmdb)
      else if online \<and> \<not> fl_no_rdap fl \<and> Option.is_none (check_rdap d cfg fl) then Inl CliRdap
      else Inr (base
        \<lparr>c_ASN := (if mmdb = [] then None else Some (asn_of (dp_mmdb d mmdb))),
         c_TLSCert := (if online \<and> \<not> fl_no_cert fl then Some (tls_lookup (dp_dialer d) (Some (check_tls d cfg fl))) else None),
         c_ContentScan := (if online \<and> \<not> fl_no_scan fl then Some (cs_lookup (Some (check_scan d cfg fl))) else None),
         c_CTLog := (if online \<and> \<not> fl_no_ctlog fl then Some (ct_lookup (Some (check_ctlog d cfg fl))) else None),
         c_Wayback := (if online \<and> \<not> fl_no_wayback fl then Some (wb_lookup (Some (check_wayback d cfg fl))) else None),
         c_RDAP := (if online \<and> \<not> fl_no_rdap fl then Some (rdap_lookup (check_rdap d cfg fl)) else None)\<rparr>))"

section \<open>check\<close>

definition failed_row :: "string \<Rightarrow> classify_error \<Rightarrow> result" where
  "failed_row input e =
     empty_result\<lparr>r_Input := input, r_Confidence := ConfUnknown, r_Reason := classify_error_text e\<rparr>"

fun check_rows :: "'w classifier \<Rightarrow> host_env \<Rightarrow> string list \<Rightarrow> 'w \<Rightarrow> result list \<times> 'w" where
  "check_rows c env [] w = ([], w)"
| "check_rows c env (h # hs) w =
     (case classify c env h w of
        (v, w1) \<Rightarrow>
          (case check_rows c env hs w1 of
             (rs, w2) \<Rightarrow> ((case v of Inl e \<Rightarrow> failed_row h e | Inr r \<Rightarrow> r) # rs, w2)))"

definition check_cmd ::
  "('c, 'm) deps \<Rightarrow> (string \<Rightarrow> string) \<Rightarrow> (string \<Rightarrow> bool) \<Rightarrow> (string \<Rightarrow> bytes option) \<Rightarrow> host_env \<Rightarrow>
   cli_error + config \<Rightarrow> check_flags \<Rightarrow> fsys \<Rightarrow> ('c, 'm) cli_world \<Rightarrow> (cli_error + string) \<times> fsys \<times> ('c, 'm) cli_world" where
  "check_cmd d env stat read he config fl s w =
     (case config of
        Inl e \<Rightarrow> (Inl e, s, w)
      | Inr cfg \<Rightarrow>
          (case collect_inputs read (fl_args fl) (fl_file fl) of
             None \<Rightarrow> (Inl CliReadInput, s, w)
           | Some inputs \<Rightarrow>
               if inputs = [] then (Inl CliNoInput, s, w)
               else (case open_snapshot (dp_mkdir d) stat True True cfg s of
                   (Inl e, s1) \<Rightarrow> (Inl e, s1, w)
                 | (Inr v, s1) \<Rightarrow>
                     (case check_classifier d env stat cfg fl (sv_DB v) of
                        Inl e \<Rightarrow> (Inl e, s1, w)
                      | Inr c \<Rightarrow>
                          (case parse_format (fl_output fl) of
                             None \<Rightarrow> (Inl (CliFormat (fl_output fl)), s1, w)
                           | Some f \<Rightarrow>
                               (case check_rows c he (dedup inputs) w of
                                  (rs, w') \<Rightarrow> (Inr (ow_out (write_results rs (new_writer f))), s1, w')))))))"

section \<open>update-db\<close>

text \<open>\<open>os.WriteFile\<close> on the file system of the store: truncate, write, close; nothing is synchronised.\<close>

definition fs_write_file :: "write_outcome \<Rightarrow> nat \<Rightarrow> string \<Rightarrow> bytes \<Rightarrow> fsys \<Rightarrow> bool \<times> fsys" where
  "fs_write_file oc fd path data s =
     (case oc of
        OpenFails \<Rightarrow> (False, s)
      | WriteStops n \<Rightarrow> (False, fs_close fd (fs_write fd (take n data) (fs_create fd path s)))
      | WriteOk \<Rightarrow> (True, fs_close fd (fs_write fd data (fs_create fd path s))))"

record update_env =
  ue_mkdir :: "string \<Rightarrow> bool"
  ue_fetch :: fetch_env
  ue_parsed :: bool
  ue_write :: write_outcome

definition write_parsed ::
  "update_env \<Rightarrow> store \<Rightarrow> rir_db \<Rightarrow> fsys \<Rightarrow> (cli_error + rir_db) \<times> fsys" where
  "write_parsed env st db s =
     (if \<not> ue_parsed env then (Inl CliMkdir, s)
      else (case fs_write_file (ue_write env) (fe_fd (ue_fetch env)) (parsed_path st parsed_snapshot_name) (snapshot db zero_sha) s of
          (False, s') \<Rightarrow> (Inl CliWrite, s')
        | (True, s') \<Rightarrow> (Inr db, s')))"

definition update_db ::
  "(bytes \<Rightarrow> bytes) \<Rightarrow> (int \<Rightarrow> 'n http) \<Rightarrow> update_env \<Rightarrow> config \<Rightarrow> string \<Rightarrow> fsys \<times> 'n \<Rightarrow> (cli_error + rir_db) \<times> fsys \<times> 'n" where
  "update_db sha http env cfg source w =
     (let name = (if source = [] then cf_DBSource cfg else source) in
      (case get_source name of
         (src, False) \<Rightarrow> (Inl (CliUnknownSource name), w)
       | (src, True) \<Rightarrow>
           (case new_store (ue_mkdir env) (cf_CacheDir cfg) (fst w) of
              (Inl e, s) \<Rightarrow> (Inl (CliStore e), s, snd w)
            | (Inr st, s) \<Rightarrow>
                (case fetch_once sha (new_fetcher http st (Some (http (2 * 60 * second_ns)))) (ue_fetch env) (sr_URL src) (sr_Key src) (s, snd w) of
                   (Inl e, w1) \<Rightarrow> (Inl (CliFetch e), w1)
                 | (Inr body, s1, n1) \<Rightarrow>
                     (case build body of
                        Inl e \<Rightarrow> (Inl (CliBuild e), s1, n1)
                      | Inr db \<Rightarrow> (case write_parsed env st db s1 of (r, s2) \<Rightarrow> (r, s2, n1)))))))"

section \<open>cache, bootstrap, healthcheck, serve\<close>

text \<open>One line of \<open>cache info\<close>: a name, the head of the hash, the size and the age; \<open>None\<close> is the panic of the slice.\<close>

definition info_line :: "int \<Rightarrow> bool \<Rightarrow> store \<Rightarrow> fsys \<Rightarrow> string \<Rightarrow> (string \<times> (string \<times> int \<times> int) option) option" where
  "info_line now ok st s n =
     (case read_meta ok st (sr_Key (fst (get_source n))) s of
        Inl e \<Rightarrow> Some (n, None)
      | Inr m \<Rightarrow>
          if length (mt_SHA256 m) < 12 then None
          else Some (n, Some (take 12 (mt_SHA256 m), mt_Bytes m, sat64 (now - mt_FetchedAt m))))"

definition source_names :: "string list" where
  "source_names = [''afrinic'', ''apnic'', ''arin'', ''lacnic'', ''nro'', ''psl'', ''ripe'']"

fun info_lines :: "int \<Rightarrow> bool \<Rightarrow> store \<Rightarrow> fsys \<Rightarrow> string list \<Rightarrow> (string \<times> (string \<times> int \<times> int) option) list option" where
  "info_lines now ok st s [] = Some []"
| "info_lines now ok st s (n # ns) =
     Option.bind (info_line now ok st s n) (\<lambda>l. map_option (\<lambda>ls. l # ls) (info_lines now ok st s ns))"

definition cache_info :: "int \<Rightarrow> bool \<Rightarrow> store \<Rightarrow> fsys \<Rightarrow> (string \<times> (string \<times> int \<times> int) option) list option" where
  "cache_info now ok st s = info_lines now ok st s source_names"

definition below_dir :: "string \<Rightarrow> string \<Rightarrow> bool" where
  "below_dir d p \<longleftrightarrow> p = d \<or> prefix (d @ ''/'') p"

definition fs_remove_all :: "string \<Rightarrow> fsys \<Rightarrow> fsys" where
  "fs_remove_all d s = s\<lparr>fs_entry := (\<lambda>p. if below_dir d p then None else fs_entry s p),
     fs_past := (\<lambda>p. if below_dir d p then entries p s else fs_past s p)\<rparr>"

fun clear_dirs :: "(string \<Rightarrow> bool) \<Rightarrow> (string \<Rightarrow> bool) \<Rightarrow> string \<Rightarrow> string list \<Rightarrow> fsys \<Rightarrow> bool \<times> fsys" where
  "clear_dirs rm mk dir [] s = (True, s)"
| "clear_dirs rm mk dir (sub # subs) s =
     (let p = path_join [dir, sub] in
      if \<not> rm p then (False, s)
      else if \<not> mk p then (False, fs_remove_all p s)
      else clear_dirs rm mk dir subs (fs_mkdir p (fs_remove_all p s)))"

definition cache_clear :: "(string \<Rightarrow> bool) \<Rightarrow> (string \<Rightarrow> bool) \<Rightarrow> config \<Rightarrow> fsys \<Rightarrow> bool \<times> fsys" where
  "cache_clear rm mk cfg s = clear_dirs rm mk (cf_CacheDir cfg) [''raw'', ''parsed''] s"

text \<open>\<open>sweepOrphans\<close>: like \<open>SweepTmp\<close>, but errors of single entries are passed over.\<close>

fun sweep_orphan_entries :: "string \<Rightarrow> int \<Rightarrow> (string \<times> bool \<times> bool) list \<Rightarrow> fsys \<Rightarrow> fsys" where
  "sweep_orphan_entries dir cutoff [] s = s"
| "sweep_orphan_entries dir cutoff ((name, info, rm) # es) s =
     (let p = path_join [dir, name] in
      case fs_entry s p of
        None \<Rightarrow> sweep_orphan_entries dir cutoff es s
      | Some i \<Rightarrow>
          sweep_orphan_entries dir cutoff es (if info \<and> fs_mtime s i < cutoff \<and> rm then fs_remove p s else s))"

definition sweep_orphans ::
  "string \<Rightarrow> int \<Rightarrow> store_error + (string \<times> bool \<times> bool) list \<Rightarrow> fsys \<Rightarrow> store_error option \<times> fsys" where
  "sweep_orphans dir max_age listing s =
     (case listing of
        Inl NotExist \<Rightarrow> (None, s)
      | Inl e \<Rightarrow> (Some e, s)
      | Inr es \<Rightarrow> (None, sweep_orphan_entries dir (fs_now s - max_age) es s))"

definition exe_look_path :: "string option \<Rightarrow> string \<Rightarrow> string option" where
  "exe_look_path self name =
     (if rooted name then Some name
      else (case self of
          None \<Rightarrow> None
        | Some exe \<Rightarrow> if name = path_base exe \<or> name = ''regionchecker'' then Some exe else Some name))"

definition healthcheck :: "'n http \<Rightarrow> string \<Rightarrow> int \<Rightarrow> 'n \<Rightarrow> bool \<times> 'n" where
  "healthcheck http addr timeout n =
     (case http \<lparr>rq_Method = ''GET'', rq_URL = addr, rq_Header = [], rq_Timeout = timeout\<rparr> n of
        (None, n') \<Rightarrow> (False, n')
      | (Some resp, n') \<Rightarrow> (\<not> (rs_StatusCode resp < 200 \<or> 300 \<le> rs_StatusCode resp), n'))"

text \<open>\<open>serve\<close>: no online layer and no MMDB; the age is that of the sidecar of the configured source.\<close>

definition db_age :: "bool \<Rightarrow> store \<Rightarrow> config \<Rightarrow> fsys \<Rightarrow> int \<Rightarrow> int option" where
  "db_age ok st cfg s now =
     (case read_meta ok st (sr_Key (fst (get_source (cf_DBSource cfg)))) s of
        Inl e \<Rightarrow> None
      | Inr m \<Rightarrow> Some (sat64 (now - mt_FetchedAt m)))"

definition serve_classifier :: "('c, 'm) deps \<Rightarrow> config \<Rightarrow> rir_db \<Rightarrow> ('c, 'm) cli_world classifier" where
  "serve_classifier d cfg db =
     new_classifier (\<lambda>w. (dp_now d (snd (wd_net w)), w)) (ip_of db)
       (Some (resolver_of (fst (new_resolver (dp_ops d) (dp_lru d) (dp_net d) (dp_now d) (cf_DNSTimeout cfg) (cf_DNSServers cfg))))) None"

definition serve_server ::
  "('c, 'm) deps \<Rightarrow> host_env \<Rightarrow> bool \<Rightarrow> store \<Rightarrow> ('m \<Rightarrow> fsys) \<Rightarrow> config \<Rightarrow> string \<Rightarrow> int \<Rightarrow> rir_db \<Rightarrow>
   (int \<Rightarrow> int \<Rightarrow> 'b) \<Rightarrow> (int \<Rightarrow> 'b \<Rightarrow> bool \<times> 'b) \<Rightarrow> (('c, 'm) cli_world \<Rightarrow> string) \<Rightarrow> (bytes \<Rightarrow> string) \<Rightarrow>
   (('c, 'm) cli_world, 'b) server" where
  "serve_server d he ok st fsat cfg listen rate db bucket allow prom jsonerr =
     new_server
       \<lparr>sf_Addr = listen, sf_ReadTimeout = sc_ReadTimeout (cf_Server cfg), sf_WriteTimeout = sc_WriteTimeout (cf_Server cfg),
        sf_RateLimit = rate, sf_MaxBatch = sc_MaxBatch (cf_Server cfg)\<rparr>
       (classify (serve_classifier d cfg db) he)
       (Some (\<lambda>w. (db_age ok st cfg (fsat (snd (wd_net w))) (dp_now d (snd (wd_net w))), w)))
       True bucket allow prom jsonerr"

definition serve_cmd ::
  "('c, 'm) deps \<Rightarrow> host_env \<Rightarrow> (string \<Rightarrow> bool) \<Rightarrow> bool \<Rightarrow> ('m \<Rightarrow> fsys) \<Rightarrow> cli_error + config \<Rightarrow> string \<Rightarrow> int \<Rightarrow>
   (int \<Rightarrow> int \<Rightarrow> 'b) \<Rightarrow> (int \<Rightarrow> 'b \<Rightarrow> bool \<times> 'b) \<Rightarrow> (('c, 'm) cli_world \<Rightarrow> string) \<Rightarrow> (bytes \<Rightarrow> string) \<Rightarrow> fsys \<Rightarrow>
   (cli_error + (('c, 'm) cli_world, 'b) server) \<times> fsys" where
  "serve_cmd d he stat ok fsat config listen rate bucket allow prom jsonerr s =
     (case config of
        Inl e \<Rightarrow> (Inl e, s)
      | Inr cfg \<Rightarrow>
          (case open_snapshot (dp_mkdir d) stat True True cfg s of
             (Inl e, s1) \<Rightarrow> (Inl e, s1)
           | (Inr v, s1) \<Rightarrow>
               (case new_store (dp_mkdir d) (cf_CacheDir cfg) s1 of
                  (Inl e, s2) \<Rightarrow> (Inl (CliStore e), s2)
                | (Inr st, s2) \<Rightarrow>
                    (Inr (serve_server d he ok st fsat cfg listen rate (sv_DB v) bucket allow prom jsonerr), s2))))"

text \<open>\<open>bench\<close> looks up as many random addresses as it is told to; \<open>us\<close> is what \<open>rand.Uint32\<close> answers.\<close>

fun bench_lookups :: "rir_db \<Rightarrow> u32 list \<Rightarrow> (string \<times> meta) option list" where
  "bench_lookups db [] = []"
| "bench_lookups db (u # us) = lookup_ip db (Addr4 u) # bench_lookups db us"

definition exec_follow_up :: "string option \<Rightarrow> string list \<Rightarrow> (string \<times> string list) option" where
  "exec_follow_up self args = map_option (\<lambda>exe. (exe, args)) (exe_look_path self (hd args))"

text \<open>\<open>bootstrap\<close> ends with the program and the arguments it hands over to, if any.\<close>

definition bootstrap_cmd ::
  "(bytes \<Rightarrow> bytes) \<Rightarrow> (int \<Rightarrow> 'n http) \<Rightarrow> update_env \<Rightarrow> (string \<Rightarrow> bool) \<Rightarrow> string option \<Rightarrow> cli_error + config \<Rightarrow>
   int \<Rightarrow> bool \<Rightarrow> string list \<Rightarrow> store_error + (string \<times> bool \<times> bool) list \<Rightarrow> fsys \<times> 'n \<Rightarrow>
   (cli_error + (string \<times> string list) option) \<times> fsys \<times> 'n" where
  "bootstrap_cmd sha http env stat self config age skip args listing w =
     (case config of
        Inl e \<Rightarrow> (Inl e, w)
      | Inr cfg \<Rightarrow>
          (case new_store (ue_mkdir env) (cf_CacheDir cfg) (fst w) of
             (Inl e, s) \<Rightarrow> (Inl (CliStore e), s, snd w)
           | (Inr st, s) \<Rightarrow>
               (case sweep_orphans (tmp_dir st) age listing s of
                  (Some e, s1) \<Rightarrow> (Inl (CliSweep e), s1, snd w)
                | (None, s1) \<Rightarrow>
                    (let path = parsed_path st parsed_snapshot_name in
                     case (if \<not> skip \<and> stat path \<and> fs_read path s1 = None
                           then update_db sha http env cfg [] (s1, snd w)
                           else (Inr empty_db, s1, snd w)) of
                       (Inl e, w2) \<Rightarrow> (Inl e, w2)
                     | (Inr db, w2) \<Rightarrow>
                         if args = [] then (Inr None, w2)
                         else (case exec_follow_up self args of
                             None \<Rightarrow> (Inl CliNoExecutable, w2)
                           | Some x \<Rightarrow> (Inr (Some x), w2))))))"

section \<open>The public client\<close>

type_synonym client_result = result

record 'w client =
  ci_c :: "'w classifier"

definition new_client ::
  "('w \<Rightarrow> int \<times> 'w) \<Rightarrow> (addr \<Rightarrow> string \<times> meta \<times> bool) \<Rightarrow> (string \<Rightarrow> 'w \<Rightarrow> (addr list \<times> bool) \<times> 'w) option \<Rightarrow>
   ('w \<Rightarrow> int \<times> 'w) option \<Rightarrow> 'w client" where
  "new_client real ip r clk = \<lparr>ci_c = new_classifier real ip r clk\<rparr>"

definition client_classify :: "'w client \<Rightarrow> host_env \<Rightarrow> string \<Rightarrow> 'w \<Rightarrow> (classify_error + client_result) \<times> 'w" where
  "client_classify c env input w =
     (case classify (ci_c c) env input w of (Inl e, w') \<Rightarrow> (Inl e, w') | (Inr r, w') \<Rightarrow> (Inr r, w'))"

section \<open>Properties\<close>

lemma remdups_snoc: "remdups (xs @ [s]) = filter (\<lambda>x. x \<noteq> s) (remdups xs) @ [s]"
  by (induction xs) auto

lemma dedup_loop_first:
  "dedup_loop seen ss = filter (\<lambda>x. x \<notin> set seen) (rev (remdups (rev ss)))"
proof (induction ss arbitrary: seen)
  case (Cons s ss)
  have "filter (\<lambda>x. x \<notin> set (s # seen)) xs = filter (\<lambda>x. x \<notin> set seen) (filter (\<lambda>x. x \<noteq> s) xs)" for xs
    by (induction xs) auto
  then show ?case using Cons.IH[of seen] Cons.IH[of "s # seen"]
    by (auto simp: remdups_snoc rev_filter intro: filter_cong)
qed simp

lemma dedup_remdups: "dedup ss = rev (remdups (rev ss))"
  by (simp add: dedup_def dedup_loop_first)

lemma length_check_rows: "length (fst (check_rows c env hs w)) = length hs"
  by (induction hs arbitrary: w) (auto simp: split_beta)

text \<open>Every client the check command builds is a layer that answers a country when it answers.\<close>

lemma layer_ok_if: "country_layer l \<Longrightarrow> layer_ok (if b then Some l else None)"
  by (simp add: layer_ok_def)

lemma guarded_Inr: "(if a then Inl x else if b then Inl y else Inr z) = Inr c \<Longrightarrow> z = c"
  by (simp split: if_splits)

lemma check_layers_ok:
  assumes "check_classifier d env stat cfg fl db = Inr c"
  shows "layers_ok c"
proof -
  have "country_layer (tls_lookup (dp_dialer d) (Some (check_tls d cfg fl)))"
    "country_layer (cs_lookup (Some (check_scan d cfg fl)))" "country_layer (ct_lookup (Some (check_ctlog d cfg fl)))"
    "country_layer (wb_lookup (Some (check_wayback d cfg fl)))" "country_layer (rdap_lookup (check_rdap d cfg fl))"
    by (rule tls.country_layer_axioms cs.country_layer_axioms ct.country_layer_axioms wb.country_layer_axioms
        rdap.country_layer_axioms)+
  note ok = this[THEN layer_ok_if]
  show ?thesis
    unfolding guarded_Inr[OF assms[unfolded check_classifier_def Let_def], symmetric] layers_ok_def
    by (simp add: ok split del: if_split)
qed

lemma failed_row_explained: "explained (failed_row h e)"
  by (simp add: explained_def failed_row_def empty_result_def)

lemma check_rows_explained:
  "layers_ok c \<Longrightarrow> r \<in> set (fst (check_rows c env hs w)) \<Longrightarrow> explained r \<or> unlabelled c r"
proof (induction hs arbitrary: w)
  case (Cons h hs)
  obtain v w1 where v: "classify c env h w = (v, w1)" by fastforce
  have "explained q \<or> unlabelled c q" if "v = Inr q" for q
    using classify_explains[OF Cons.prems(1)] v that by blast
  then show ?case
    using Cons.IH[of w1] Cons.prems v by (auto simp: split_beta failed_row_explained split: sum.splits)
qed simp

lemma csv_table:
  "rs \<noteq> [] \<Longrightarrow> csv_read_all (Suc (length rs)) (ow_out (write_results rs (new_writer FormatCSV))) = Some (csv_header # map csv_row rs)"
  using csv_read_records[of "csv_header # map csv_row rs" "Suc (length rs)"]
  by (simp add: write_csv_all csv_header_def csv_row_def del: csv_read_all.simps)

text \<open>A run that ends well went through every stage of the command.\<close>

lemma check_cmd_stages:
  assumes "check_cmd d env stat read he (Inr cfg) fl s w = (Inr out, s', w')"
  obtains inputs v c f where "collect_inputs read (fl_args fl) (fl_file fl) = Some inputs" "inputs \<noteq> []"
    "fst (open_snapshot (dp_mkdir d) stat True True cfg s) = Inr v"
    "check_classifier d env stat cfg fl (sv_DB v) = Inr c" "parse_format (fl_output fl) = Some f"
    "out = ow_out (write_results (fst (check_rows c he (dedup inputs) w)) (new_writer f))"
proof -
  obtain inputs where i: "collect_inputs read (fl_args fl) (fl_file fl) = Some inputs" "inputs \<noteq> []"
    using assms by (cases "collect_inputs read (fl_args fl) (fl_file fl)") (auto simp: check_cmd_def split: if_splits)
  obtain q s1 where q: "open_snapshot (dp_mkdir d) stat True True cfg s = (q, s1)" by fastforce
  obtain v where v: "q = Inr v" using assms i q by (cases q) (auto simp: check_cmd_def)
  obtain c where c: "check_classifier d env stat cfg fl (sv_DB v) = Inr c"
    using assms i q v by (cases "check_classifier d env stat cfg fl (sv_DB v)") (auto simp: check_cmd_def)
  obtain f where f: "parse_format (fl_output fl) = Some f"
    using assms i q v c by (cases "parse_format (fl_output fl)") (auto simp: check_cmd_def)
  show thesis using that[OF i _ c f] assms i q v c f by (simp add: check_cmd_def split_beta)
qed



section \<open>The snapshot from update-db to check\<close>

lemma fs_read_write_file:
  "fs_read path (snd (fs_write_file WriteOk fd path data s)) = Some data"
  by (simp add: fs_write_file_def fs_create_def fs_write_def fs_close_def fs_read_def split: option.split)

lemma fs_read_write_stops:
  "fs_read path (snd (fs_write_file (WriteStops n) fd path data s)) = Some (take n data)"
  by (simp add: fs_write_file_def fs_create_def fs_write_def fs_close_def fs_read_def split: option.split)

lemma make_dirs_read: "fs_read p (snd (make_dirs mk dir subs s)) = fs_read p s"
  by (induction mk dir subs s rule: make_dirs.induct) (auto simp: Let_def fs_mkdir_def fs_read_def)

lemma new_store_read: "fs_read p (snd (new_store mk dir s)) = fs_read p s"
  using make_dirs_read[of p mk dir "[''raw'', ''parsed'', ''lock'', ''tmp'']" s]
  by (auto simp: new_store_def split: prod.split option.split)

lemma new_store_result: "fst (new_store mk dir s) = Inr st \<Longrightarrow> st = \<lparr>st_dir = dir\<rparr>"
  by (auto simp: new_store_def split: if_splits prod.splits option.splits)

lemma make_dirs_ok: "fst (make_dirs (\<lambda>_. True) dir subs s) = None"
  by (induction subs arbitrary: s) (simp_all add: Let_def)

lemma new_store_ok: "dir \<noteq> [] \<Longrightarrow> fst (new_store (\<lambda>_. True) dir s) = Inr \<lparr>st_dir = dir\<rparr>"
  using make_dirs_ok[of dir "[''raw'', ''parsed'', ''lock'', ''tmp'']" s]
  by (auto simp: new_store_def split: prod.split option.split)

text \<open>Opening a store whose snapshot file holds \<open>b\<close>.\<close>

lemma open_snapshot_file:
  assumes "cf_CacheDir cfg \<noteq> []" and "fs_read (parsed_path \<lparr>st_dir = cf_CacheDir cfg\<rparr> parsed_snapshot_name) s = Some b"
  shows "fst (open_snapshot (\<lambda>_. True) (\<lambda>_. True) True True cfg s) =
    (case load_snapshot b zero_sha of
       Inl e \<Rightarrow> Inl (CliLoad (ParseFailed e))
     | Inr db \<Rightarrow> Inr \<lparr>sv_DB = db, sv_Path = parsed_path \<lparr>st_dir = cf_CacheDir cfg\<rparr> parsed_snapshot_name,
         sv_Size = int (length b), sv_reader = Some b, sv_raw = b\<rparr>)"
proof -
  obtain s' where s': "new_store (\<lambda>_. True) (cf_CacheDir cfg) s = (Inr \<lparr>st_dir = cf_CacheDir cfg\<rparr>, s')"
    using new_store_ok[OF assms(1), of s] by (metis prod.collapse)
  then have "fs_read (parsed_path \<lparr>st_dir = cf_CacheDir cfg\<rparr> parsed_snapshot_name) s' = Some b"
    using new_store_read[of _ "\<lambda>_. True" "cf_CacheDir cfg" s] assms(2) by (metis snd_conv)
  then show ?thesis using s' by (simp add: open_snapshot_def Let_def load_snapshot_file_def split: sum.split)
qed

lemma zero_sha_length: "length zero_sha = 32"
  by (simp add: zero_sha_def)

lemma load_written: "fits db \<Longrightarrow> load_snapshot (snapshot db zero_sha) zero_sha = Inr db"
  using load_snapshot_header[OF zero_sha_length, of "replicate 16 (CHR 0x00)"] load_tables_write[of db "[]"]
  by (simp add: snapshot_def)

lemma write_parsed_ok:
  assumes "write_parsed env st db s = (Inr db', s')"
  shows "db' = db \<and> fs_read (parsed_path st parsed_snapshot_name) s' = Some (snapshot db zero_sha)"
proof (cases "ue_write env")
  case WriteOk
  then show ?thesis
    using assms fs_read_write_file[of "parsed_path st parsed_snapshot_name" "fe_fd (ue_fetch env)" "snapshot db zero_sha" s]
    by (auto simp: write_parsed_def fs_write_file_def split: if_splits)
qed (use assms in \<open>auto simp: write_parsed_def fs_write_file_def split: if_splits\<close>)

lemma update_db_steps:
  assumes "update_db sha http env cfg source (s, n) = (Inr db, s', n')"
  obtains src st s0 body s1 where
    "get_source (if source = [] then cf_DBSource cfg else source) = (src, True)"
    "new_store (ue_mkdir env) (cf_CacheDir cfg) s = (Inr st, s0)"
    "fetch_once sha (new_fetcher http st (Some (http (2 * 60 * second_ns)))) (ue_fetch env) (sr_URL src) (sr_Key src) (s0, n) = (Inr body, s1, n')"
    "build body = Inr db" "write_parsed env st db s1 = (Inr db, s')"
proof -
  obtain src ok where g: "get_source (if source = [] then cf_DBSource cfg else source) = (src, ok)" by fastforce
  obtain v s0 where ns: "new_store (ue_mkdir env) (cf_CacheDir cfg) s = (v, s0)" by fastforce
  have ok: ok using assms g by (cases ok) (simp_all add: update_db_def Let_def)
  obtain st where v: "v = Inr st" using assms g ns ok by (cases v) (simp_all add: update_db_def Let_def)
  obtain f s1 n1 where f: "fetch_once sha (new_fetcher http st (Some (http (2 * 60 * second_ns)))) (ue_fetch env) (sr_URL src) (sr_Key src) (s0, n) = (f, s1, n1)"
    using prod_cases3 by blast
  obtain body where body: "f = Inr body" using assms g ns ok v f by (cases f) (simp_all add: update_db_def Let_def)
  obtain db0 where b: "build body = Inr db0"
    using assms g ns ok v f body by (cases "build body") (simp_all add: update_db_def Let_def)
  obtain r s2 where w: "write_parsed env st db0 s1 = (r, s2)" by fastforce
  have "(r, s2, n1) = (Inr db, s', n')"
    using assms g ns ok v f body b w by (simp add: update_db_def Let_def)
  then show thesis using that[of src st s0 body s1] g ns ok v f body b w write_parsed_ok[of env st db0 s1 db s'] by auto
qed

text \<open>
  C13: From the download to the next run: when \<open>update-db\<close> succeeds, the body it fetched under the key of the
  source builds the database it reports, and every later \<open>check\<close>, \<open>serve\<close> or \<open>bench\<close> over the same cache
  directory opens a snapshot with exactly that database.
\<close>

theorem update_then_open:
  assumes "update_db sha http env cfg source (s, n) = (Inr db, s', n')" and "fits db"
  shows "(\<exists>src st s0 body s1. get_source (if source = [] then cf_DBSource cfg else source) = (src, True) \<and>
      fetch_once sha (new_fetcher http st (Some (http (2 * 60 * second_ns)))) (ue_fetch env) (sr_URL src) (sr_Key src) (s0, n) = (Inr body, s1, n') \<and>
      build body = Inr db) \<and>
    (\<exists>v. fst (open_snapshot (\<lambda>_. True) (\<lambda>_. True) True True cfg s') = Inr v \<and> sv_DB v = db)"
proof -
  obtain src st s0 body s1 where u: "get_source (if source = [] then cf_DBSource cfg else source) = (src, True)"
    "new_store (ue_mkdir env) (cf_CacheDir cfg) s = (Inr st, s0)"
    "fetch_once sha (new_fetcher http st (Some (http (2 * 60 * second_ns)))) (ue_fetch env) (sr_URL src) (sr_Key src) (s0, n) = (Inr body, s1, n')"
    "build body = Inr db" "write_parsed env st db s1 = (Inr db, s')"
    using update_db_steps[OF assms(1)] by metis
  have st: "st = \<lparr>st_dir = cf_CacheDir cfg\<rparr>" "cf_CacheDir cfg \<noteq> []"
    using new_store_result[of "ue_mkdir env" "cf_CacheDir cfg" s st] u(2) by (auto simp: new_store_def)
  have "fs_read (parsed_path \<lparr>st_dir = cf_CacheDir cfg\<rparr> parsed_snapshot_name) s' = Some (snapshot db zero_sha)"
    using write_parsed_ok[OF u(5)] st(1) by simp
  then show ?thesis using open_snapshot_file[OF st(2)] load_written[OF assms(2)] u(1,3,4) by auto
qed

text \<open>
  C15: A run of \<open>update-db\<close> whose final write stops early, after any number of bytes, never feeds a partial
  table to a lookup: the file is not written atomically, but every proper prefix of a snapshot is refused
  when it is opened.
\<close>

theorem interrupted_update_refused:
  assumes "fits db" and "cf_CacheDir cfg \<noteq> []" and "ue_parsed env" and "ue_write env = WriteStops k"
    and "k < length (snapshot db zero_sha)" and "write_parsed env \<lparr>st_dir = cf_CacheDir cfg\<rparr> db s = (r, s')"
  shows "r = Inl CliWrite \<and>
    (\<exists>e. fst (open_snapshot (\<lambda>_. True) (\<lambda>_. True) True True cfg s') = Inl (CliLoad (ParseFailed e)))"
proof -
  let ?p = "parsed_path \<lparr>st_dir = cf_CacheDir cfg\<rparr> parsed_snapshot_name"
  have s': "r = Inl CliWrite" "s' = snd (fs_write_file (WriteStops k) (fe_fd (ue_fetch env)) ?p (snapshot db zero_sha) s)"
    using assms(3,4,6) by (auto simp: write_parsed_def fs_write_file_def)
  then have "fs_read ?p s' = Some (take k (snapshot db zero_sha))" by (simp add: fs_read_write_stops)
  moreover obtain e where "load_snapshot (take k (snapshot db zero_sha)) zero_sha = Inl e"
    using load_snapshot_cut[OF zero_sha_length assms(1), of "take k (snapshot db zero_sha)" "drop k (snapshot db zero_sha)"] assms(5)
    by auto
  ultimately show ?thesis using open_snapshot_file[OF assms(2)] s'(1) by simp
qed

text \<open>
  Warming up: when \<open>bootstrap\<close> gets to its end without \<open>--skip-update\<close>, a snapshot file is there, and
  it is either the one it found after the sweep or that of the database it built from its own download.
\<close>

theorem bootstrap_leaves_snapshot:
  assumes "bootstrap_cmd sha http env stat self (Inr cfg) age False args listing (s, n) = (Inr x, s', n')"
    and "stat (parsed_path \<lparr>st_dir = cf_CacheDir cfg\<rparr> parsed_snapshot_name)"
  shows "\<exists>b. fs_read (parsed_path \<lparr>st_dir = cf_CacheDir cfg\<rparr> parsed_snapshot_name) s' = Some b \<and>
    (n' = n \<or> (\<exists>db body. build body = Inr db \<and> b = snapshot db zero_sha))"
proof -
  let ?p = "parsed_path \<lparr>st_dir = cf_CacheDir cfg\<rparr> parsed_snapshot_name"
  obtain v s0 where ns: "new_store (ue_mkdir env) (cf_CacheDir cfg) s = (v, s0)" by fastforce
  obtain st where v: "v = Inr st" using assms(1) ns by (cases v) (simp_all add: bootstrap_cmd_def)
  have st: "st = \<lparr>st_dir = cf_CacheDir cfg\<rparr>"
    using new_store_result[of "ue_mkdir env" "cf_CacheDir cfg" s st] ns v by simp
  obtain e s1 where sw: "sweep_orphans (tmp_dir st) age listing s0 = (e, s1)" by fastforce
  have e: "e = None" using assms(1) ns v sw by (cases e) (simp_all add: bootstrap_cmd_def)
  show ?thesis
  proof (cases "fs_read ?p s1")
    case (Some b)
    then have "s' = s1 \<and> n' = n"
      using assms ns v sw e st
      by (cases "args = []"; cases "exec_follow_up self args") (auto simp: bootstrap_cmd_def Let_def)
    then show ?thesis using Some by blast
  next
    case None
    obtain r s2 n2 where u: "update_db sha http env cfg [] (s1, n) = (r, s2, n2)" using prod_cases3 by blast
    obtain db where r: "r = Inr db"
      using assms ns v sw e st None u by (cases r) (auto simp: bootstrap_cmd_def Let_def)
    have s': "s' = s2"
      using assms ns v sw e st None u r
      by (cases "args = []"; cases "exec_follow_up self args") (auto simp: bootstrap_cmd_def Let_def)
    obtain st' s3 body where w: "new_store (ue_mkdir env) (cf_CacheDir cfg) s1 = (Inr st', s3)" "build body = Inr db"
      "\<exists>s4. write_parsed env st' db s4 = (Inr db, s2)"
      using update_db_steps[OF u[unfolded r]] by metis
    then have "st' = \<lparr>st_dir = cf_CacheDir cfg\<rparr>"
      using new_store_result[of "ue_mkdir env" "cf_CacheDir cfg" s1 st'] by simp
    then show ?thesis using w(2,3) write_parsed_ok s' by metis
  qed
qed

text \<open>
  \<open>cache info\<close> prints a line for every registered source, in alphabetical order, unless the sidecar
  of one of them holds a hash of fewer than twelve characters: slicing it is a panic.
\<close>

theorem cache_info_iff:
  "(case cache_info now ok st s of
      None \<Rightarrow> \<exists>n \<in> set source_names. \<exists>m. read_meta ok st (sr_Key (fst (get_source n))) s = Inr m \<and> length (mt_SHA256 m) < 12
    | Some ls \<Rightarrow> map fst ls = source_names)"
proof -
  have "(case info_lines now ok st s ns of
      None \<Rightarrow> \<exists>n \<in> set ns. \<exists>m. read_meta ok st (sr_Key (fst (get_source n))) s = Inr m \<and> length (mt_SHA256 m) < 12
    | Some ls \<Rightarrow> map fst ls = ns)" for ns
    by (induction ns) (auto simp: info_line_def split: option.splits sum.splits if_splits bind_splits)
  then show ?thesis by (simp add: cache_info_def)
qed

section \<open>Concrete runs\<close>

definition sample_cfg :: config where
  "sample_cfg = default_config\<lparr>cf_CacheDir := ''/c''\<rparr>"

definition offline_flags :: check_flags where
  "offline_flags = \<lparr>fl_args = [''8.8.8.8'', ''a.example'', ''8.8.8.8''], fl_file = [], fl_output = ''CSV'',
     fl_timeout = 5 * second_ns, fl_offline = True, fl_mmdb = ''asn.mmdb'', fl_fast = False, fl_no_rdap = False,
     fl_no_cert = False, fl_no_scan = False, fl_no_wayback = False, fl_no_ctlog = False,
     fl_rdap_timeout = 3 * second_ns, fl_cert_timeout = 3 * second_ns, fl_scan_timeout = 4 * second_ns,
     fl_wayback_timeout = 8 * second_ns, fl_ctlog_timeout = 8 * second_ns\<rparr>"

definition sample_deps :: "((string \<times> cache_entry) list, unit) deps" where
  "sample_deps = \<lparr>dp_http = (\<lambda>t r w. (None, w)), dp_dialer = (\<lambda>h p t w. (None, w)), dp_cert = (\<lambda>b. None),
     dp_ctxerr = (\<lambda>w. False), dp_sha = id, dp_mkdir = (\<lambda>_. True), dp_bootstrap = [],
     dp_mmdb = (\<lambda>p. Some (\<lambda>a. None)), dp_ops = list_ops 2, dp_lru = (\<lambda>n. []),
     dp_net = (\<lambda>servers t h n. (None, n)), dp_now = (\<lambda>n. 0)\<rparr>"

definition no_psl :: host_env where
  "no_psl = \<lparr>he_to_ascii = Some, he_psl = (\<lambda>h. (h, True)), he_etld1 = (\<lambda>h. None)\<rparr>"

definition snapshot_fs :: fsys where
  "snapshot_fs = \<lparr>fs_entry = [''/c/parsed/ipv4-ranges.bin'' \<mapsto> 0], fs_past = (\<lambda>_. []),
     fs_data = (\<lambda>_. snapshot sample_db zero_sha), fs_synced = (\<lambda>_. True), fs_mtime = (\<lambda>_. 0),
     fs_open = Map.empty, fs_next = 1, fs_dirs = [], fs_now = 0\<rparr>"

definition idle_world :: "((string \<times> cache_entry) list, unit) cli_world" where
  "idle_world = \<lparr>wd_mem = Map.empty, wd_files = Map.empty, wd_now = 0, wd_zone = 0, wd_write = (\<lambda>_. OpenFails),
     wd_net = (\<lparr>rs_cache = [], rs_idx = 0\<rparr>, ())\<rparr>"

lemma sample_cfg_path:
  "parsed_path \<lparr>st_dir = cf_CacheDir sample_cfg\<rparr> parsed_snapshot_name = ''/c/parsed/ipv4-ranges.bin''" "cf_CacheDir sample_cfg \<noteq> []"
  by code_simp+

lemma sample_db_fits: "fits sample_db"
  by (simp add: fits_def sample_db_def)

lemma sample_open:
  "\<exists>v. fst (open_snapshot (\<lambda>_. True) (\<lambda>_. True) True True sample_cfg snapshot_fs) = Inr v \<and> sv_DB v = sample_db"
proof -
  have "fs_read (parsed_path \<lparr>st_dir = cf_CacheDir sample_cfg\<rparr> parsed_snapshot_name) snapshot_fs = Some (snapshot sample_db zero_sha)"
    unfolding sample_cfg_path by (simp add: snapshot_fs_def fs_read_def)
  from open_snapshot_file[OF sample_cfg_path(2) this] show ?thesis by (simp add: load_written[OF sample_db_fits])
qed

lemma sample_offline_classifier:
  "\<exists>c. check_classifier sample_deps (\<lambda>_. []) (\<lambda>_. True) sample_cfg offline_flags db = Inr c"
  by (simp add: check_classifier_def offline_flags_def sample_deps_def)



theorem interrupted_update_refused_witness:
  "\<exists>r s' e. write_parsed \<lparr>ue_mkdir = (\<lambda>_. True), ue_fetch = sample_fetch_env, ue_parsed = True, ue_write = WriteStops 20\<rparr>
      \<lparr>st_dir = cf_CacheDir sample_cfg\<rparr> sample_db snapshot_fs = (r, s') \<and>
    fst (open_snapshot (\<lambda>_. True) (\<lambda>_. True) True True sample_cfg s') = Inl (CliLoad (ParseFailed e))"
proof -
  let ?env = "\<lparr>ue_mkdir = (\<lambda>_. True), ue_fetch = sample_fetch_env, ue_parsed = True, ue_write = WriteStops 20\<rparr>"
  obtain r s' where w: "write_parsed ?env \<lparr>st_dir = cf_CacheDir sample_cfg\<rparr> sample_db snapshot_fs = (r, s')" by fastforce
  have "20 < length (snapshot sample_db zero_sha)" by (simp add: snapshot_def zero_sha_length)
  from interrupted_update_refused[OF sample_db_fits sample_cfg_path(2) _ _ this w] w show ?thesis by auto
qed

lemma store_response_succeeds:
  assumes "fetch_ready st key env s" and "env_ok env" and "read_all resp = Some body"
  shows "\<exists>s'. store_response sha env st key resp s = (Inr body, s')"
proof -
  obtain e s1 where 1: "atomic_write st key body (fe_fd env) (fe_body env) s = (e, s1)" by fastforce
  note b = body_write[OF assms(1) 1]
  have e: "e = None" using b(1) assms(2) by (simp add: env_ok_def)
  have r: "plain_store st" "plain_name key" "rand_ok (fe_meta env)" using assms(1) by (simp_all add: fetch_ready_def)
  obtain m where m: "encode_meta (response_meta sha resp body (fe_now env)) = Some m"
    using assms(2) by (simp add: encode_meta_def response_meta_def env_ok_def)
  have "fst (atomic_write st (key @ ''.meta'') m (fe_fd env) (fe_meta env) s1) = None"
    using write_read(2)[OF r(1) meta_key_plain[OF r(2)] r(2) b(4,5) r(3)] assms(2) by (simp add: env_ok_def)
  then obtain s2 where "write_meta st key (response_meta sha resp body (fe_now env)) (fe_fd env) (fe_meta env) s1 = (None, s2)"
    using m by (metis (no_types, lifting) option.simps(5) prod.collapse write_meta_def)
  then show ?thesis using 1 e assms(3) by (simp add: store_response_def)
qed

lemma fetch_succeeds:
  assumes "fetch_ready (ft_Store f) key env s" and "env_ok env"
    and "\<And>rq. ft_HTTP f rq n = (Some resp, n')" and "rs_StatusCode resp = 200" and "read_all resp = Some body"
  shows "\<exists>s'. fetch_once sha f env url key (s, n) = (Inr body, s', n')"
proof -
  obtain s' where "store_response sha env (ft_Store f) key resp s = (Inr body, s')"
    using store_response_succeeds[OF assms(1,2,5)] by blast
  then have "fetch_once sha f env url key (s, n) = (Inr body, s', n')"
    using assms(2,3,4) by (simp add: fetch_once_def Let_def env_ok_def)
  then show ?thesis by blast
qed

definition nro_http :: "int \<Rightarrow> 'n http" where
  "nro_http t = (\<lambda>rq n. (Some \<lparr>rs_StatusCode = 200, rs_Header = (\<lambda>_. []), rs_Body = sample_file, rs_BodyErr = False\<rparr>, n))"

definition sample_update :: update_env where
  "sample_update = \<lparr>ue_mkdir = (\<lambda>_. True), ue_fetch = sample_fetch_env, ue_parsed = True, ue_write = WriteOk\<rparr>"

definition empty_fs :: fsys where
  "empty_fs = \<lparr>fs_entry = Map.empty, fs_past = (\<lambda>_. []), fs_data = (\<lambda>_. []), fs_synced = (\<lambda>_. True), fs_mtime = (\<lambda>_. 0),
     fs_open = Map.empty, fs_next = 0, fs_dirs = [], fs_now = 0\<rparr>"

lemma new_store_sample:
  "\<exists>ds. new_store (\<lambda>_. True) ''/c'' s = (Inr sample_store, s\<lparr>fs_dirs := ds\<rparr>)"
  by (simp add: new_store_def fs_mkdir_def sample_store_def Let_def) blast

lemma empty_fs_ready: "fetch_ready sample_store ''nro-delegated-stats'' sample_fetch_env (empty_fs\<lparr>fs_dirs := ds\<rparr>)"
proof -
  have "fs_wf (empty_fs\<lparr>fs_dirs := ds\<rparr>)" by (rule fs_wfI) (auto simp: empty_fs_def entries_def)
  moreover have "fresh_tmp sample_store k e (empty_fs\<lparr>fs_dirs := ds\<rparr>)" for k e
    by (simp add: fresh_tmp_def empty_fs_def split: sum.split)
  ultimately show ?thesis
    by (simp add: fetch_ready_def plain_store_def sample_store_def plain_name_def rand_ok_def sample_fetch_env_def Store.sample_env_def)
qed

lemma sample_update_runs:
  "\<exists>db s'. build sample_file = Inr db \<and> update_db id nro_http sample_update sample_cfg [] (empty_fs, n) = (Inr db, s', n) \<and> fits db"
proof -
  obtain db where db: "build sample_file = Inr db" "fits db" by (simp add: sample_build fits_def)
  obtain src where src: "get_source ''nro'' = (src, True)" "sr_Key src = ''nro-delegated-stats''"
  proof -
    have "snd (get_source ''nro'')" "sr_Key (fst (get_source ''nro'')) = ''nro-delegated-stats''" by code_simp+
    then show thesis using that by (metis (full_types) prod.collapse)
  qed
  obtain ds where ns: "new_store (ue_mkdir sample_update) (cf_CacheDir sample_cfg) empty_fs = (Inr sample_store, empty_fs\<lparr>fs_dirs := ds\<rparr>)"
    using new_store_sample[of empty_fs] by (auto simp: sample_update_def sample_cfg_def)
  let ?f = "new_fetcher nro_http sample_store (Some (nro_http (2 * 60 * second_ns)))"
  have "ft_Store ?f = sample_store" by (simp add: new_fetcher_def)
  then obtain s1 where f: "fetch_once id ?f (ue_fetch sample_update) (sr_URL src) (sr_Key src) (empty_fs\<lparr>fs_dirs := ds\<rparr>, n) = (Inr sample_file, s1, n)"
    using fetch_succeeds[of ?f "''nro-delegated-stats''" sample_fetch_env "empty_fs\<lparr>fs_dirs := ds\<rparr>" n
        "\<lparr>rs_StatusCode = 200, rs_Header = (\<lambda>_. []), rs_Body = sample_file, rs_BodyErr = False\<rparr>" n sample_file id "sr_URL src"]
      empty_fs_ready[of ds] sample_env_ok src(2)
    by (auto simp: new_fetcher_def nro_http_def read_all_def sample_update_def)
  obtain s2 where w: "write_parsed sample_update sample_store db s1 = (Inr db, s2)"
    by (simp add: write_parsed_def sample_update_def fs_write_file_def)
  have "cf_DBSource sample_cfg = ''nro''" by (simp add: sample_cfg_def default_config_def)
  then have "update_db id nro_http sample_update sample_cfg [] (empty_fs, n) = (Inr db, s2, n)"
    using src(1) ns f db(1) w by (simp add: update_db_def)
  then show ?thesis using db by blast
qed

theorem update_then_open_witness:
  "\<exists>db s' v. update_db id nro_http sample_update sample_cfg [] (empty_fs, ()) = (Inr db, s', ()) \<and>
    fst (open_snapshot (\<lambda>_. True) (\<lambda>_. True) True True sample_cfg s') = Inr v \<and> sv_DB v = db"
proof -
  obtain db s' where u: "update_db id nro_http sample_update sample_cfg [] (empty_fs, ()) = (Inr db, s', ())" "fits db"
    using sample_update_runs[of "()"] by blast
  from update_then_open[OF u] u(1) show ?thesis by blast
qed

theorem bootstrap_leaves_snapshot_witness:
  "\<exists>s' b. bootstrap_cmd id nro_http sample_update (\<lambda>_. True) None (Inr sample_cfg) 300 False [] (Inl NotExist) (snapshot_fs, ()) = (Inr None, s', ()) \<and>
    fs_read ''/c/parsed/ipv4-ranges.bin'' s' = Some b"
proof -
  obtain ds where ns: "new_store (ue_mkdir sample_update) (cf_CacheDir sample_cfg) snapshot_fs = (Inr sample_store, snapshot_fs\<lparr>fs_dirs := ds\<rparr>)"
    using new_store_sample[of snapshot_fs] by (auto simp: sample_update_def sample_cfg_def)
  have p: "parsed_path sample_store parsed_snapshot_name = ''/c/parsed/ipv4-ranges.bin''" by code_simp
  have b: "bootstrap_cmd id nro_http sample_update (\<lambda>_. True) None (Inr sample_cfg) 300 False [] (Inl NotExist) (snapshot_fs, ()) =
      (Inr None, snapshot_fs\<lparr>fs_dirs := ds\<rparr>, ())"
    using ns p by (simp add: bootstrap_cmd_def sweep_orphans_def Let_def) (simp add: snapshot_fs_def fs_read_def)
  from bootstrap_leaves_snapshot[OF this] b show ?thesis by (auto simp: sample_cfg_path)
qed

end
