(* ===== verification/App.thy ===== *)
theory App
  imports
    Cli
begin

text \<open>
  The programs as a whole: \<open>cmd/regionchecker/main.go\<close> dispatches a command and turns its error into the exit
  status, \<open>e2e/seed\<close> writes a snapshot from a local file, \<open>internal/clock\<close> is the clock of the library.  The
  parser of the command line is a parameter: a command is given with the values of its flags.  The
  theorems follow a delegated file through all components to the row that \<open>check\<close> prints.
\<close>

section \<open>Clock\<close>

datatype clock = RealClock | FixedClock int

fun clock_now :: "('w \<Rightarrow> int \<times> 'w) \<Rightarrow> clock \<Rightarrow> 'w \<Rightarrow> int \<times> 'w" where
  "clock_now now RealClock w = now w"
| "clock_now now (FixedClock t) w = (t, w)"

section \<open>The commands\<close>

datatype command =
    CmdCheck check_flags
  | CmdUpdateDB string
  | CmdCacheInfo
  | CmdCacheClear
  | CmdBench "u32 list"
  | CmdServe string int
  | CmdHealthcheck string int
  | CmdBootstrap int bool "string list"
  | CmdVersion

datatype app_error = AppCli cli_error | AppClear | AppServe | AppHealthcheck | AppPanic

datatype app_output =
    PrintRows string
  | PrintUpdated rir_db
  | PrintInfo "(string \<times> (string \<times> int \<times> int) option) list"
  | PrintCleared
  | PrintBench "(string \<times> meta) option list"
  | PrintNothing
  | HandOver string "string list"
  | PrintVersion string

text \<open>What a run finds around it: the environment, the outcomes of system calls and the libraries.\<close>

record ('c, 'm, 'b) app_env =
  ap_deps :: "('c, 'm) deps"
  ap_env :: "string \<Rightarrow> string"
  ap_stat :: "string \<Rightarrow> bool"
  ap_read :: "string \<Rightarrow> bytes option"
  ap_yaml :: "bytes \<Rightarrow> config \<Rightarrow> config option"
  ap_config :: "string \<Rightarrow> file_read"
  ap_host :: host_env
  ap_update :: update_env
  ap_readmeta :: bool
  ap_remove :: "string \<Rightarrow> bool"
  ap_self :: "string option"
  ap_listing :: "store_error + (string \<times> bool \<times> bool) list"
  ap_fsat :: "'m \<Rightarrow> fsys"
  ap_bucket :: "int \<Rightarrow> int \<Rightarrow> 'b"
  ap_allow :: "int \<Rightarrow> 'b \<Rightarrow> bool \<times> 'b"
  ap_prom :: "('c, 'm) cli_world \<Rightarrow> string"
  ap_jsonerr :: "bytes \<Rightarrow> string"
  ap_event :: serve_event
  ap_shutdown :: bool
  ap_version :: "string \<times> string \<times> string"

definition version_text :: "string \<times> string \<times> string \<Rightarrow> string" where
  "version_text v =
     (case v of (version, commit, date) \<Rightarrow>
        ''regionchecker '' @ version @ [CHR 0x0A] @ ''commit: '' @ commit @ [CHR 0x0A] @ ''built:  '' @ date @ [CHR 0x0A])"

text \<open>
  The command table with the defaults of the flags: the command that a name and arguments without flags
  select.  \<open>us\<close> are the random numbers of \<open>bench\<close>.
\<close>

definition default_check_flags :: "string list \<Rightarrow> check_flags" where
  "default_check_flags args =
     \<lparr>fl_args = args, fl_file = [], fl_output = ''text'', fl_timeout = 5 * second_ns, fl_offline = False, fl_mmdb = [],
      fl_fast = False, fl_no_rdap = False, fl_no_cert = False, fl_no_scan = False, fl_no_wayback = False,
      fl_no_ctlog = False, fl_rdap_timeout = 3 * second_ns, fl_cert_timeout = 3 * second_ns,
      fl_scan_timeout = 4 * second_ns, fl_wayback_timeout = 8 * second_ns, fl_ctlog_timeout = 8 * second_ns\<rparr>"

definition cache_command :: "string \<Rightarrow> command option" where
  "cache_command name =
     (if name = ''info'' then Some CmdCacheInfo else if name = ''clear'' then Some CmdCacheClear else None)"

definition default_command :: "(nat \<Rightarrow> u32) \<Rightarrow> string \<Rightarrow> string list \<Rightarrow> command option" where
  "default_command us name args =
     (if name = ''check'' then Some (CmdCheck (default_check_flags args))
      else if name = ''update-db'' then Some (CmdUpdateDB [])
      else if name = ''cache'' then (case args of [] \<Rightarrow> None | sub # _ \<Rightarrow> cache_command sub)
      else if name = ''bench'' then Some (CmdBench (map us [0..<10000]))
      else if name = ''serve'' then Some (CmdServe '':8080'' 100)
      else if name = ''healthcheck'' then Some (CmdHealthcheck ''http://127.0.0.1:8080/healthz'' (3 * second_ns))
      else if name = ''bootstrap'' then Some (CmdBootstrap (5 * 60 * second_ns) False args)
      else if name = ''version'' then Some CmdVersion
      else None)"

text \<open>\<open>cache info\<close> and \<open>cache clear\<close> from the configuration on; \<open>AppPanic\<close> is the slice out of range.\<close>

definition cache_info_cmd ::
  "(string \<Rightarrow> bool) \<Rightarrow> bool \<Rightarrow> int \<Rightarrow> config \<Rightarrow> fsys \<Rightarrow> (app_error + app_output) \<times> fsys" where
  "cache_info_cmd mk ok now cfg s =
     (case new_store mk (cf_CacheDir cfg) s of
        (Inl e, s1) \<Rightarrow> (Inl (AppCli (CliStore e)), s1)
      | (Inr st, s1) \<Rightarrow>
          (case cache_info now ok st s1 of None \<Rightarrow> (Inl AppPanic, s1) | Some ls \<Rightarrow> (Inr (PrintInfo ls), s1)))"

definition cache_clear_cmd ::
  "(string \<Rightarrow> bool) \<Rightarrow> (string \<Rightarrow> bool) \<Rightarrow> config \<Rightarrow> fsys \<Rightarrow> (app_error + app_output) \<times> fsys" where
  "cache_clear_cmd rm mk cfg s =
     (case cache_clear rm mk cfg s of (ok, s1) \<Rightarrow> (if ok then Inr PrintCleared else Inl AppClear, s1))"

definition bench_cmd ::
  "(string \<Rightarrow> bool) \<Rightarrow> (string \<Rightarrow> bool) \<Rightarrow> config \<Rightarrow> u32 list \<Rightarrow> fsys \<Rightarrow> (app_error + app_output) \<times> fsys" where
  "bench_cmd mk stat cfg us s =
     (case open_snapshot mk stat True True cfg s of
        (Inl e, s1) \<Rightarrow> (Inl (AppCli e), s1)
      | (Inr v, s1) \<Rightarrow> (Inr (PrintBench (bench_lookups (sv_DB v) us)), s1))"

text \<open>One command, with the values of the two global flags.\<close>

definition run_command ::
  "('c, 'm, 'b) app_env \<Rightarrow> string \<Rightarrow> string \<Rightarrow> command \<Rightarrow> fsys \<times> ('c, 'm) cli_world \<Rightarrow>
   (app_error + app_output) \<times> fsys \<times> ('c, 'm) cli_world" where
  "run_command a config_path cache_dir cmd sw =
     (let d = ap_deps a; s = fst sw; w = snd sw;
          config = cli_load_config (ap_yaml a) (ap_config a) (ap_env a) config_path cache_dir;
          with_config = (\<lambda>f. case config of Inl e \<Rightarrow> (Inl (AppCli e), s, w) | Inr cfg \<Rightarrow> f cfg);
          local = (\<lambda>p. (fst p, snd p, w)) in
      case cmd of
        CmdCheck fl \<Rightarrow>
          (case check_cmd d (ap_env a) (ap_stat a) (ap_read a) (ap_host a) config fl s w of
             (Inl e, sw1) \<Rightarrow> (Inl (AppCli e), sw1)
           | (Inr out, sw1) \<Rightarrow> (Inr (PrintRows out), sw1))
      | CmdUpdateDB source \<Rightarrow>
          with_config (\<lambda>cfg.
            case update_db (dp_sha d) (dp_http d) (ap_update a) cfg source (s, w) of
              (Inl e, sw1) \<Rightarrow> (Inl (AppCli e), sw1)
            | (Inr db, sw1) \<Rightarrow> (Inr (PrintUpdated db), sw1))
      | CmdCacheInfo \<Rightarrow>
          with_config (\<lambda>cfg. local (cache_info_cmd (dp_mkdir d) (ap_readmeta a) (dp_now d (snd (wd_net w))) cfg s))
      | CmdCacheClear \<Rightarrow> with_config (\<lambda>cfg. local (cache_clear_cmd (ap_remove a) (dp_mkdir d) cfg s))
      | CmdBench us \<Rightarrow> with_config (\<lambda>cfg. local (bench_cmd (dp_mkdir d) (ap_stat a) cfg us s))
      | CmdServe listen rate \<Rightarrow>
          (case serve_cmd d (ap_host a) (ap_stat a) (ap_readmeta a) (ap_fsat a) config listen rate (ap_bucket a)
              (ap_allow a) (ap_prom a) (ap_jsonerr a) s of
             (Inl e, s1) \<Rightarrow> (Inl (AppCli e), s1, w)
           | (Inr sv, s1) \<Rightarrow> (if run_server (ap_event a) (ap_shutdown a) then Inr PrintNothing else Inl AppServe, s1, w))
      | CmdHealthcheck addr timeout \<Rightarrow>
          (case healthcheck (dp_http d timeout) addr timeout w of
             (ok, w1) \<Rightarrow> (if ok then Inr PrintNothing else Inl AppHealthcheck, s, w1))
      | CmdBootstrap age skip args \<Rightarrow>
          (case bootstrap_cmd (dp_sha d) (dp_http d) (ap_update a) (ap_stat a) (ap_self a) config age skip args
              (ap_listing a) (s, w) of
             (Inl e, sw1) \<Rightarrow> (Inl (AppCli e), sw1)
           | (Inr None, sw1) \<Rightarrow> (Inr PrintNothing, sw1)
           | (Inr (Some x), sw1) \<Rightarrow> (Inr (HandOver (fst x) (snd x)), sw1))
      | CmdVersion \<Rightarrow> (Inr (PrintVersion (version_text (ap_version a))), s, w))"

text \<open>
  The exit status: 1 after an error, 2 after a panic; after \<open>HandOver\<close> the process goes on as another
  program and has no status of its own.
\<close>

definition exit_status :: "app_error + app_output \<Rightarrow> nat option" where
  "exit_status r =
     (case r of
        Inr out \<Rightarrow> (case out of HandOver p args \<Rightarrow> None | _ \<Rightarrow> Some 0)
      | Inl e \<Rightarrow> (if e = AppPanic then Some 2 else Some 1))"

section \<open>The seed program\<close>

definition seed_main ::
  "(string \<Rightarrow> bytes option) \<Rightarrow> write_outcome \<Rightarrow> nat \<Rightarrow> string \<Rightarrow> string \<Rightarrow> fsys \<Rightarrow> nat \<times> fsys" where
  "seed_main read oc fd input output s =
     (if input = [] \<or> output = [] then (2, s)
      else (case read input of
          None \<Rightarrow> (1, s)
        | Some data \<Rightarrow>
            (case build data of
               Inl e \<Rightarrow> (1, s)
             | Inr db \<Rightarrow>
                 (case fs_write_file oc fd output (snapshot db zero_sha) s of
                    (ok, s1) \<Rightarrow> (if ok then 0 else 1, s1)))))"

section \<open>Lemmas\<close>

lemma check_classifier_ip: "check_classifier d env stat cfg fl db = Inr c \<Longrightarrow> c_IP c = ip_of db"
  unfolding check_classifier_def Let_def by (drule guarded_Inr[THEN sym]) (simp add: new_classifier_def)

text \<open>An address that is not reserved, without an ASN source: the answer of the lookup decides.\<close>

lemma classify_plain_ip:
  assumes "parse_addr h = Some a" and "match_bogon a = CatPublic" and "c_ASN c = None"
  shows "\<exists>r. fst (classify c he h w) = Inr r \<and> r_FinalCountry r = fst (c_IP c (unmap a)) \<and>
    r_Confidence r = (if fst (c_IP c (unmap a)) = [] then ConfUnknown else ConfIPOnly)"
proof -
  have "h \<noteq> []" using assms(1) by auto
  moreover obtain cc m ok where "c_IP c (unmap a) = (cc, m, ok)" by (metis surj_pair)
  ultimately show ?thesis
    using assms
    by (auto simp: classify_def classify_ip_def Let_def match_bogon_unmap ip_brand_step_def and_then_def stamp_def
        set_final_def empty_result_def split: prod.split)
qed

lemma length_collect_rows: "length (collect_rows f xs) \<le> length xs"
  by (induction xs) (auto split: option.split)

lemma built_fits:
  assumes "build data = Inr db" and "length (built_records data) < 2 ^ 32"
  shows "fits db"
proof -
  let ?r = "built_records data"
  have rows: "db_V4 db = slice_sort v4_Start (collect_rows v4_row ?r)"
    "length (db_V6 db) = length (collect_rows v6_row ?r)" "db_ASN db = slice_sort asn_Start (collect_rows asn_row ?r)"
    using build_InrD(1)[OF assms(1)] by (simp_all add: sort_db_def)
  show ?thesis
    unfolding fits_def rows length_slice_sort using assms(2)
    by (intro conjI le_less_trans[OF length_collect_rows])
qed

lemma seed_main_ok:
  assumes "seed_main read oc fd input output s = (0, s')" and "read input = Some data"
  shows "\<exists>db. build data = Inr db \<and> fs_read output s' = Some (snapshot db zero_sha)"
proof -
  obtain db where db: "build data = Inr db"
    using assms by (cases "build data") (simp_all add: seed_main_def split: if_splits)
  obtain ok s1 where w: "fs_write_file oc fd output (snapshot db zero_sha) s = (ok, s1)" by fastforce
  then have "ok" "s1 = s'" using assms db by (simp_all add: seed_main_def split: if_splits)
  then have "oc = WriteOk" using w by (cases oc) (simp_all add: fs_write_file_def)
  then show ?thesis using db w \<open>s1 = s'\<close> fs_read_write_file[of "output" fd "snapshot db zero_sha" s] by simp
qed

section \<open>Properties\<close>

text \<open>The specification of an address lookup: the first record of the file whose range holds the address.\<close>

definition scan_country :: "bytes \<Rightarrow> u32 \<Rightarrow> string" where
  "scan_country data u =
     (case Option.bind (find (covers_v4 u) (collect_rows v4_row (built_records data))) v4_answer of
        None \<Rightarrow> []
      | Some (cc, m) \<Rightarrow> cc)"


definition seed_file :: bytes where
  "seed_file = ''apnic|AU|ipv4|1.0.0.0|256|20110811|assigned'' @ [CHR 0x0A]"

definition seed_records :: "rir_record list" where
  "seed_records =
     [\<lparr>rc_Registry = ''apnic'', rc_CC = ''AU'', rc_Type = TypeIPv4, rc_Start = ''1.0.0.0'', rc_Value = 256,
       rc_Date = 15197, rc_Status = 2, rc_OpaqueID = []\<rparr>]"

lemma seed_stream: "record_stream False seed_file = (seed_records, None)"
  by code_simp

lemma seed_records_built: "built_records seed_file = seed_records"
  by code_simp

lemma seed_rows:
  "collect_rows v4_row seed_records =
     [\<lparr>v4_Start = 0x01000000, v4_End = 0x010000FF, v4_CC = (CHR ''A'', CHR ''U''), v4_Registry = 1, v4_Status = 2, v4_Date = 15197\<rparr>]"
  by code_simp

lemma seed_scan: "scan_country seed_file 0x01000009 = ''AU''"
  unfolding scan_country_def seed_records_built seed_rows by code_simp

lemma seed_built: "\<exists>db. build seed_file = Inr db"
proof -
  have "fst (run_records build_record seed_records 0 empty_db) = None" unfolding run_build_ok by code_simp
  then obtain n db where "run_records build_record seed_records 0 empty_db = (None, n, db)" by (metis prod.collapse)
  then show ?thesis by (simp add: build_refines seed_stream)
qed

lemma seed_host: "parse_addr ''1.0.0.9'' = Some (Addr4 0x01000009)" "match_bogon (Addr4 0x01000009) = CatPublic"
  by code_simp+



text \<open>
  C16: The HTTP API and the command line agree: for every input, \<open>GET /v1/check\<close> of \<open>serve\<close> answers with what
  \<open>check --fast\<close> computes from the same snapshot, world and DNS timeout when it finds no ASN file: the same result
  as the document of a 200, the same error as its status, and the same changes to the caches and the network.  The
  server never consults an online layer, whatever the request asks for.
\<close>

theorem api_is_fast_check:
  assumes "check_classifier d env stat cfg fl db = Inr c" and "fl_fast fl" and "\<not> fl_offline fl"
    and "fl_timeout fl = cf_DNSTimeout cfg" and "c_ASN c = None" and "sq_Query rq ''host'' = h" and "h \<noteq> []"
  shows "handle_check (serve_server d he ok st fsat cfg listen rate db bucket allow prom jsonerr) rq sv =
    (case classify c he h (ss_world sv) of
       (Inl e, w) \<Rightarrow> (http_error_for_classifier e, sv\<lparr>ss_world := w\<rparr>)
     | (Inr r, w) \<Rightarrow> (write_json 200 (result_doc r), sv\<lparr>ss_world := w\<rparr>))"
proof -
  have "c = serve_classifier d cfg db"
    using assms(2-5) guarded_Inr[OF assms(1)[unfolded check_classifier_def Let_def], symmetric]
    by (simp add: serve_classifier_def new_classifier_def check_resolver_def)
  then show ?thesis using assms(6,7) by (simp add: handle_check_def serve_server_def new_server_def)
qed

theorem api_is_fast_check_witness:
  "\<exists>db c. build seed_file = Inr db \<and>
    check_classifier sample_deps (\<lambda>_. []) (\<lambda>_. False) sample_cfg ((default_check_flags [])\<lparr>fl_fast := True, fl_timeout := cf_DNSTimeout sample_cfg\<rparr>) db = Inr c \<and>
    sp_Status (fst (handle_check
      (serve_server sample_deps no_psl True \<lparr>st_dir = ''/c''\<rparr> (\<lambda>_. empty_fs) sample_cfg '':8080'' 100 db (\<lambda>_ _. ()) (\<lambda>_ b. (True, b)) (\<lambda>_. []) (\<lambda>_. []))
      ((sample_request ''10.0.0.1'' 0)\<lparr>sq_Path := ''/v1/check'', sq_Query := (\<lambda>_. ''1.0.0.9'')\<rparr>)
      \<lparr>ss_world = idle_world, ss_buckets = Map.empty, ss_requests = [], ss_log = [], ss_age = None\<rparr>)) = 200"
proof -
  obtain db where db: "build seed_file = Inr db" using seed_built by blast
  let ?fl = "(default_check_flags [])\<lparr>fl_fast := True, fl_timeout := cf_DNSTimeout sample_cfg\<rparr>"
  have t: "fl_fast ?fl" "\<not> fl_offline ?fl" "fl_timeout ?fl = cf_DNSTimeout sample_cfg"
    by (simp_all add: default_check_flags_def)
  obtain c where c: "check_classifier sample_deps (\<lambda>_. []) (\<lambda>_. False) sample_cfg ?fl db = Inr c" "c_ASN c = None"
    by (simp add: check_classifier_def default_check_flags_def auto_mmdb_def new_classifier_def)
  obtain r w where "classify c no_psl ''1.0.0.9'' idle_world = (Inr r, w)"
    using classify_plain_ip[OF seed_host c(2), of no_psl idle_world] by (metis prod.collapse)
  then show ?thesis
    by (intro exI[of _ db] exI[of _ c] conjI db c(1)) (subst api_is_fast_check[OF c(1) t c(2) refl], simp_all add: write_json_def)
qed

text \<open>With the default flags every layer of the ladder is switched on and the resolver is set.\<close>

lemma default_check_layers:
  assumes "check_classifier d env stat cfg (default_check_flags hs) db = Inr c"
  shows "c_TLSCert c \<noteq> None \<and> c_CTLog c \<noteq> None \<and> c_ContentScan c \<noteq> None \<and> c_RDAP c \<noteq> None \<and> c_Wayback c \<noteq> None"
    and "c_Resolver c = check_resolver d cfg (default_check_flags hs)"
  unfolding guarded_Inr[OF assms[unfolded check_classifier_def Let_def], symmetric]
  by (simp_all add: default_check_flags_def new_classifier_def)

text \<open>With a fixed clock a client measures no time.\<close>

lemma fixed_clock_duration:
  assumes "client_classify (new_client now ip r (Some (clock_now now (FixedClock t)))) env input w = (Inr res, w')"
  shows "r_LookupDuration res = 0"
  using assms
  by (auto simp: client_classify_def new_client_def new_classifier_def classify_def classify_ip_def classify_host_def
      stamp_def Let_def split: prod.splits sum.splits option.splits if_splits)

end
