(* ===== verification/Sessions.thy ===== *)
theory Sessions
  imports
    App
begin

text \<open>
  Sessions: one command after the other over the same cache directory, each with its own network, clock and
  outcomes of system calls, failures included.  The invariant is that the parsed snapshot, the one file that
  every command shares, is absent or complete.
\<close>

section \<open>Running one command after the other\<close>

record ('c, 'm, 'b) invocation =
  in_env :: "('c, 'm, 'b) app_env"
  in_config :: string
  in_dir :: string
  in_command :: command
  in_world :: "('c, 'm) cli_world"

definition invoke :: "('c, 'm, 'b) invocation \<Rightarrow> fsys \<Rightarrow> (app_error + app_output) \<times> fsys" where
  "invoke i s =
     (case run_command (in_env i) (in_config i) (in_dir i) (in_command i) (s, in_world i) of (r, s', w) \<Rightarrow> (r, s'))"

fun run_session :: "('c, 'm, 'b) invocation list \<Rightarrow> fsys \<Rightarrow> (app_error + app_output) list \<times> fsys" where
  "run_session [] s = ([], s)"
| "run_session (i # is) s =
     (case invoke i s of (r, s1) \<Rightarrow> (case run_session is s1 of (rs, s2) \<Rightarrow> (r # rs, s2)))"

definition invoked_config :: "('c, 'm, 'b) invocation \<Rightarrow> cli_error + config" where
  "invoked_config i = cli_load_config (ap_yaml (in_env i)) (ap_config (in_env i)) (ap_env (in_env i)) (in_config i) (in_dir i)"

text \<open>The command works over the directory \<open>dir\<close>, and its write of the snapshot is not cut off.\<close>

definition over_dir :: "string \<Rightarrow> ('c, 'm, 'b) invocation \<Rightarrow> bool" where
  "over_dir dir i \<longleftrightarrow> (case invoked_config i of Inl e \<Rightarrow> True | Inr cfg \<Rightarrow> cf_CacheDir cfg = dir)"

definition uncut :: "('c, 'm, 'b) invocation \<Rightarrow> bool" where
  "uncut i \<longleftrightarrow> ue_write (ap_update (in_env i)) \<in> {OpenFails, WriteOk}"

section \<open>A file that no other name shares\<close>

definition lone :: "string \<Rightarrow> fsys \<Rightarrow> bool" where
  "lone p s \<longleftrightarrow> fs_wf s \<and> (\<forall>i q. fs_entry s p = Some i \<longrightarrow> q \<noteq> p \<longrightarrow> fs_entry s q \<noteq> Some i)"

definition elsewhere :: "string \<Rightarrow> nat \<Rightarrow> fsys \<Rightarrow> bool" where
  "elsewhere p d s \<longleftrightarrow> (\<forall>i. fs_open s d = Some i \<longrightarrow> fs_entry s p \<noteq> Some i)"

text \<open>\<open>kept p s s'\<close>: from \<open>s\<close> to \<open>s'\<close> the file \<open>p\<close> has not changed, though it may have been removed.\<close>

definition kept :: "string \<Rightarrow> fsys \<Rightarrow> fsys \<Rightarrow> bool" where
  "kept p s s' \<longleftrightarrow> lone p s' \<and> fs_read p s' \<in> {None, fs_read p s}"

lemma kept_refl: "lone p s \<Longrightarrow> kept p s s"
  by (simp add: kept_def)

lemma kept_trans: "kept p s s1 \<Longrightarrow> kept p s1 s2 \<Longrightarrow> kept p s s2"
  by (auto simp: kept_def)

lemma kept_lone: "kept p s s' \<Longrightarrow> lone p s'"
  by (simp add: kept_def)

lemma lone_wf: "lone p s \<Longrightarrow> fs_wf s"
  by (simp add: lone_def)

lemma kept_create:
  assumes "lone p s" and "q \<noteq> p"
  shows "kept p s (fs_create d q s) \<and> elsewhere p d (fs_create d q s)"
  using assms fs_wf_create[OF lone_wf[OF assms(1)], of d q] fs_wf_entry[OF lone_wf[OF assms(1)]]
  by (cases "fs_entry s p") (auto simp: kept_def lone_def elsewhere_def fs_read_def fs_create_def split: option.splits)

lemma kept_write: "lone p s \<Longrightarrow> elsewhere p d s \<Longrightarrow> kept p s (fs_write d b s)"
  using fs_wf_write[of s d b]
  by (auto simp: kept_def lone_def elsewhere_def fs_read_def fs_write_def map_option_case split: option.splits)

lemma kept_sync: "lone p s \<Longrightarrow> kept p s (fs_sync d s)"
  using fs_wf_sync[of s d] by (auto simp: kept_def lone_def fs_read_def fs_sync_def split: option.splits)

lemma kept_close: "lone p s \<Longrightarrow> kept p s (fs_close d s)"
  using fs_wf_close[of s d] by (auto simp: kept_def lone_def fs_read_def fs_close_def)

lemma kept_sync_dir: "lone p s \<Longrightarrow> kept p s (fs_sync_dir q s)"
  using fs_wf_sync_dir[of s q] by (auto simp: kept_def lone_def fs_read_def fs_sync_dir_def)

lemma kept_remove: "lone p s \<Longrightarrow> kept p s (fs_remove q s)"
  using fs_wf_remove[of s q] by (auto simp: kept_def lone_def fs_read_def fs_remove_def)

lemma kept_rename: "lone p s \<Longrightarrow> q \<noteq> p \<Longrightarrow> r \<noteq> p \<Longrightarrow> kept p s (fs_rename q r s)"
  using fs_wf_rename[of s q r] by (auto simp: kept_def lone_def fs_read_def fs_rename_def split: option.splits)

lemma kept_mkdir: "lone p s \<Longrightarrow> kept p s (fs_mkdir q s)"
  by (auto simp: kept_def lone_def fs_read_def fs_mkdir_def fs_wf_def entries_def)

lemma fs_wf_remove_all: "fs_wf s \<Longrightarrow> fs_wf (fs_remove_all q s)"
  by (rule fs_wfI) (auto simp: fs_remove_all_def entries_def dest: fs_wf_entry fs_wf_open fs_wf_mem past_mem entry_mem split: if_splits)

lemma kept_remove_all: "lone p s \<Longrightarrow> kept p s (fs_remove_all q s)"
  using fs_wf_remove_all[of s q] by (auto simp: kept_def lone_def fs_read_def fs_remove_all_def)

lemmas kept_ops = kept_sync kept_close kept_sync_dir kept_remove kept_mkdir kept_remove_all

section \<open>AtomicWrite and the fetch\<close>

lemma kept_step:
  assumes "lone p s" and "wr_tmp w \<noteq> p" and "wr_dst w \<noteq> p" and "pc = AtWrite \<Longrightarrow> elsewhere p (wr_fd w) s"
  shows "kept p s (snd (atomic_step w pc s)) \<and> (fst (atomic_step w pc s) = AtWrite \<longrightarrow> elsewhere p (wr_fd w) (snd (atomic_step w pc s)))"
  using assms by (cases pc) (auto intro: kept_refl kept_ops kept_write kept_rename dest: kept_create split: option.splits)

lemma kept_run:
  "lone p s \<Longrightarrow> wr_tmp w \<noteq> p \<Longrightarrow> wr_dst w \<noteq> p \<Longrightarrow> (pc = AtWrite \<Longrightarrow> elsewhere p (wr_fd w) s) \<Longrightarrow>
   kept p s (snd (atomic_run w pc s))"
proof (induction "steps_left pc" arbitrary: pc s rule: less_induct)
  case less
  show ?case
  proof (cases "steps_left pc = 0")
    case True
    then show ?thesis using less.prems(1) by (cases pc) (simp_all add: atomic_run.simps kept_refl)
  next
    case False
    note step = kept_step[OF less.prems, of pc]
    have "kept p (snd (atomic_step w pc s)) (snd (atomic_run w (fst (atomic_step w pc s)) (snd (atomic_step w pc s))))"
      using step less.prems by (intro less.hyps[OF steps_left_step[OF False]]) (auto dest: kept_lone)
    then show ?thesis using step kept_trans by (auto simp: atomic_run_eq[OF False])
  qed
qed

abbreviation snapshot_path :: "string \<Rightarrow> string" where
  "snapshot_path dir \<equiv> parsed_path \<lparr>st_dir = dir\<rparr> parsed_snapshot_name"

lemma snapshot_path_last: "dir \<noteq> [] \<Longrightarrow> after_last CHR ''/'' (snapshot_path dir) = parsed_snapshot_name"
  by (simp add: parsed_path_def path_join_last2 plain_name_def parsed_snapshot_name_def)

text \<open>A key whose files, staged ones included, are never the snapshot.\<close>

definition other_key :: "string \<Rightarrow> bool" where
  "other_key key \<longleftrightarrow> plain_name key \<and> \<not> prefix key parsed_snapshot_name"

lemma kept_atomic_write:
  assumes "dir \<noteq> []" and "lone (snapshot_path dir) s" and "other_key key"
  shows "kept (snapshot_path dir) s (snd (atomic_write \<lparr>st_dir = dir\<rparr> key data fd env s))"
proof (cases "atomic_start \<lparr>st_dir = dir\<rparr> key data fd env")
  case (Inr w)
  have st: "plain_store \<lparr>st_dir = dir\<rparr>" and k: "plain_name key" using assms(1,3) by (simp_all add: plain_store_def other_key_def)
  have t: "new_tmp \<lparr>st_dir = dir\<rparr> key (we_rand env) = Inr (wr_tmp w)" "wr_dst w = raw_path \<lparr>st_dir = dir\<rparr> key"
    using Inr by (auto simp: atomic_start_def split: if_splits sum.splits)
  obtain b where "after_last CHR ''/'' (wr_tmp w) = key @ ''.'' @ hex_text b" using new_tmp_last[OF st k t(1)] by blast
  with t(2) have "wr_tmp w \<noteq> snapshot_path dir" "wr_dst w \<noteq> snapshot_path dir"
    using snapshot_path_last[OF assms(1)] raw_path_last[OF st k] assms(3) by (auto simp: other_key_def prefix_def)
  then show ?thesis using kept_run[OF assms(2), of w AtOpen] Inr by (simp add: atomic_write_def)
qed (simp add: atomic_write_def kept_refl assms(2))

lemma other_meta_key: "other_key key \<Longrightarrow> other_key (key @ ''.meta'')"
  using meta_key_plain[of key] by (auto simp: other_key_def dest: append_prefixD)

lemma kept_write_meta:
  "dir \<noteq> [] \<Longrightarrow> lone (snapshot_path dir) s \<Longrightarrow> other_key key \<Longrightarrow>
   kept (snapshot_path dir) s (snd (write_meta \<lparr>st_dir = dir\<rparr> key m fd env s))"
  by (auto simp: write_meta_def kept_refl kept_atomic_write[OF _ _ other_meta_key] split: option.split)

lemma kept_fetch:
  assumes "dir \<noteq> []" and "lone (snapshot_path dir) s" and "other_key key" and "ft_Store f = \<lparr>st_dir = dir\<rparr>"
    and "fetch_once sha f env url key (s, n) = (r, s', n')"
  shows "kept (snapshot_path dir) s s'"
proof -
  note refl = kept_refl[OF assms(2)]
  have nm: "kept (snapshot_path dir) s (snd (not_modified env \<lparr>st_dir = dir\<rparr> key m s))" for m
    using refl kept_write_meta[OF assms(1-3)] by (auto simp: not_modified_def split: sum.split option.split prod.split) (metis snd_conv)+
  have sr: "kept (snapshot_path dir) s (snd (store_response sha env \<lparr>st_dir = dir\<rparr> key resp s))" for resp
  proof (cases "read_all resp")
    case (Some body)
    obtain e s1 where w: "atomic_write \<lparr>st_dir = dir\<rparr> key body (fe_fd env) (fe_body env) s = (e, s1)" by fastforce
    have k: "kept (snapshot_path dir) s s1" using kept_atomic_write[OF assms(1-3), of body "fe_fd env" "fe_body env"] w by simp
    obtain e2 s2 where m: "write_meta \<lparr>st_dir = dir\<rparr> key (response_meta sha resp body (fe_now env)) (fe_fd env) (fe_meta env) s1 = (e2, s2)"
      by fastforce
    have "kept (snapshot_path dir) s s2"
      using kept_trans[OF k] kept_write_meta[OF assms(1) kept_lone[OF k] assms(3)] m by (metis snd_conv)
    then show ?thesis using Some w m k by (cases e; cases e2) (simp_all add: store_response_def)
  qed (simp add: store_response_def refl)
  show ?thesis
    using assms(4,5) refl nm sr
    by (auto simp: fetch_once_def Let_def split: if_splits option.splits prod.splits) (metis snd_conv)+
qed

section \<open>The invariant\<close>

text \<open>The snapshot is absent, or the complete snapshot of a database built from a registry file.\<close>

definition intact :: "string \<Rightarrow> fsys \<Rightarrow> bool" where
  "intact p s \<longleftrightarrow> lone p s \<and>
     (case fs_read p s of None \<Rightarrow> True | Some b \<Rightarrow> (\<exists>data db. build data = Inr db \<and> b = snapshot db zero_sha))"

lemma intact_kept: "intact p s \<Longrightarrow> kept p s s' \<Longrightarrow> intact p s'"
  unfolding intact_def kept_def by (cases "fs_read p s'"; cases "fs_read p s") simp_all

lemma intact_lone: "intact p s \<Longrightarrow> lone p s"
  by (simp add: intact_def)

lemma make_dirs_kept: "lone p s \<Longrightarrow> kept p s (snd (make_dirs mk dir subs s))"
proof (induction mk dir subs s rule: make_dirs.induct)
  case (2 mk dir sub subs s)
  have m: "kept p s (fs_mkdir (path_join [dir, sub]) s)" by (rule kept_mkdir[OF 2(2)])
  show ?case
    using kept_refl[OF 2(2)] kept_trans[OF m 2(1)[OF refl _ kept_lone[OF m]]] by (simp add: Let_def)
qed (simp add: kept_refl)

lemma new_store_kept: "lone p s \<Longrightarrow> kept p s (snd (new_store mk dir s))"
  using make_dirs_kept[of p s mk dir "[''raw'', ''parsed'', ''lock'', ''tmp'']"]
  by (auto simp: new_store_def kept_refl split: prod.split option.split)

lemma open_snapshot_kept: "lone p s \<Longrightarrow> kept p s (snd (open_snapshot mk stat ok1 ok2 cfg s))"
  using new_store_kept[of p s mk "cf_CacheDir cfg"]
  by (auto simp: open_snapshot_def Let_def split: prod.split sum.split)

lemma clear_dirs_kept: "lone p s \<Longrightarrow> kept p s (snd (clear_dirs rm mk dir subs s))"
proof (induction rm mk dir subs s rule: clear_dirs.induct)
  case (2 rm mk dir sub subs s)
  let ?q = "path_join [dir, sub]"
  have r: "kept p s (fs_remove_all ?q s)" by (rule kept_remove_all[OF 2(2)])
  have m: "kept p s (fs_mkdir ?q (fs_remove_all ?q s))" by (rule kept_trans[OF r kept_mkdir[OF kept_lone[OF r]]])
  show ?case
    using r kept_refl[OF 2(2)] kept_trans[OF m 2(1)[OF refl _ _ kept_lone[OF m]]] by (simp add: Let_def)
qed (simp add: kept_refl)

lemma sweep_kept: "lone p s \<Longrightarrow> kept p s (snd (sweep_orphans dir age listing s))"
proof -
  have "lone p s \<Longrightarrow> kept p s (sweep_orphan_entries dir cutoff es s)" for cutoff es
  proof (induction dir cutoff es s rule: sweep_orphan_entries.induct)
    case (2 dir cutoff name info rm es s)
    have r: "kept p s (if info \<and> fs_mtime s i < cutoff \<and> rm then fs_remove (path_join [dir, name]) s else s)" for i
      by (simp add: kept_remove[OF 2(3)] kept_refl[OF 2(3)])
    show ?case
      using 2(1)[OF refl _ 2(3)] kept_trans[OF r 2(2)[OF refl _ kept_lone[OF r]]]
      by (cases "fs_entry s (path_join [dir, name])") (simp_all add: Let_def)
  qed (simp add: kept_refl)
  moreover assume "lone p s"
  ultimately show ?thesis by (simp add: sweep_orphans_def kept_refl split: sum.split store_error.split)
qed

lemma write_file_lone: "lone p s \<Longrightarrow> lone p (snd (fs_write_file WriteOk fd p b s))"
proof -
  assume l: "lone p s"
  have c: "lone p (fs_create fd p s)"
    using l fs_wf_create[OF lone_wf[OF l], of fd p] fs_wf_entry[OF lone_wf[OF l]]
    by (auto simp: lone_def fs_create_def split: option.split)
  have "lone p (fs_write fd b (fs_create fd p s))"
    using c fs_wf_write[OF lone_wf[OF c], of fd b] by (auto simp: lone_def fs_write_def split: option.split)
  then show ?thesis using kept_lone[OF kept_close] by (simp add: fs_write_file_def)
qed

lemma source_key_other: "get_source name = (src, True) \<Longrightarrow> other_key (sr_Key src)"
proof -
  have "list_all (\<lambda>x. \<not> prefix (sr_Key (snd x)) parsed_snapshot_name) sources" by code_simp
  moreover assume g: "get_source name = (src, True)"
  moreover have "(to_lower name, src) \<in> set sources" using g by (auto simp: get_source_def dest: map_of_SomeD split: option.splits)
  ultimately show ?thesis using get_source_plain[OF g] by (auto simp: other_key_def list_all_iff)
qed

lemma intact_write_parsed:
  assumes "intact (snapshot_path dir) s" and "build data = Inr db" and "ue_write env \<in> {OpenFails, WriteOk}"
  shows "intact (snapshot_path dir) (snd (write_parsed env \<lparr>st_dir = dir\<rparr> db s))"
proof (cases "ue_parsed env \<and> ue_write env = WriteOk")
  case True
  let ?w = "snd (fs_write_file WriteOk (fe_fd (ue_fetch env)) (snapshot_path dir) (snapshot db zero_sha) s)"
  have "snd (write_parsed env \<lparr>st_dir = dir\<rparr> db s) = ?w" using True by (simp add: write_parsed_def fs_write_file_def)
  moreover have "fs_read (snapshot_path dir) ?w = Some (snapshot db zero_sha)" by (rule fs_read_write_file)
  ultimately show ?thesis
    using write_file_lone[OF intact_lone[OF assms(1)]] assms(2) by (auto simp: intact_def)
next
  case False
  then show ?thesis using assms(1,3) by (auto simp: write_parsed_def fs_write_file_def)
qed

lemma intact_update:
  assumes "intact (snapshot_path dir) s" and "cf_CacheDir cfg = dir" and "ue_write env \<in> {OpenFails, WriteOk}"
  shows "intact (snapshot_path dir) (fst (snd (update_db sha http env cfg source (s, n))))"
proof -
  obtain src ok where g: "get_source (if source = [] then cf_DBSource cfg else source) = (src, ok)" by fastforce
  obtain v s0 where ns: "new_store (ue_mkdir env) dir s = (v, s0)" by fastforce
  have i0: "intact (snapshot_path dir) s0"
    using intact_kept[OF assms(1) new_store_kept[OF intact_lone[OF assms(1)]], of "ue_mkdir env" dir] ns by simp
  show ?thesis
  proof (cases "ok \<and> (\<exists>st. v = Inr st)")
    case True
    then have st: "v = Inr \<lparr>st_dir = dir\<rparr>" "dir \<noteq> []" and ok: ok
      using ns new_store_result[of "ue_mkdir env" dir s] by (auto simp: new_store_def)
    let ?f = "new_fetcher http \<lparr>st_dir = dir\<rparr> (Some (http (2 * 60 * second_ns)))"
    obtain r s1 n1 where f: "fetch_once sha ?f (ue_fetch env) (sr_URL src) (sr_Key src) (s0, n) = (r, s1, n1)"
      using prod_cases3 by blast
    have i1: "intact (snapshot_path dir) s1"
      using kept_fetch[OF st(2) intact_lone[OF i0] source_key_other _ f] g ok intact_kept[OF i0] by (simp add: new_fetcher_def)
    show ?thesis
    proof (cases r)
      case (Inr body)
      then show ?thesis
        using g ns st ok f i1 assms(2) intact_write_parsed[OF i1 _ assms(3)]
        by (cases "build body") (simp_all add: update_db_def Let_def split_beta)
    qed (use g ns st ok f i1 assms(2) in \<open>simp add: update_db_def Let_def\<close>)
  next
    case False
    then show ?thesis using g ns assms(1,2) i0 by (cases ok; cases v) (simp_all add: update_db_def Let_def)
  qed
qed

lemma intact_open: "intact p s \<Longrightarrow> intact p (snd (open_snapshot mk stat ok1 ok2 cfg s))"
  by (rule intact_kept[OF _ open_snapshot_kept[OF intact_lone]])

lemma intact_new_store: "intact p s \<Longrightarrow> intact p (snd (new_store mk dir s))"
  by (rule intact_kept[OF _ new_store_kept[OF intact_lone]])

lemma intact_check:
  assumes "intact p s"
  shows "intact p (fst (snd (check_cmd d env stat read he config fl s w)))"
proof (cases config)
  case (Inr cfg)
  obtain v s1 where o: "open_snapshot (dp_mkdir d) stat True True cfg s = (v, s1)" by fastforce
  have i1: "intact p s1" using intact_open[OF assms, of "dp_mkdir d" stat True True cfg] o by simp
  have fs: "fst (snd (check_cmd d env stat read he config fl s w)) \<in> {s, s1}"
    using Inr o
    by (cases "collect_inputs read (fl_args fl) (fl_file fl)"; cases v; cases "check_classifier d env stat cfg fl (sv_DB (projr v))";
        cases "parse_format (fl_output fl)") (simp_all add: check_cmd_def split_beta)
  then show ?thesis using assms i1 by auto
qed (simp add: check_cmd_def assms)

lemma intact_serve:
  assumes "intact p s"
  shows "intact p (snd (serve_cmd d he stat ok fsat config listen rate bucket allow prom jsonerr s))"
proof (cases config)
  case (Inr cfg)
  obtain v s1 where o: "open_snapshot (dp_mkdir d) stat True True cfg s = (v, s1)" by fastforce
  have i1: "intact p s1" using intact_open[OF assms, of "dp_mkdir d" stat True True cfg] o by simp
  obtain st s2 where n: "new_store (dp_mkdir d) (cf_CacheDir cfg) s1 = (st, s2)" by fastforce
  have "intact p s2" using intact_new_store[OF i1, of "dp_mkdir d" "cf_CacheDir cfg"] n by simp
  then show ?thesis using Inr o n i1 by (cases v; cases st) (simp_all add: serve_cmd_def)
qed (simp add: serve_cmd_def assms)

lemma intact_bootstrap:
  assumes "intact (snapshot_path dir) s" and "case config of Inl e \<Rightarrow> True | Inr cfg \<Rightarrow> cf_CacheDir cfg = dir"
    and "ue_write env \<in> {OpenFails, WriteOk}"
  shows "intact (snapshot_path dir) (fst (snd (bootstrap_cmd sha http env stat self config age skip args listing (s, n))))"
proof (cases config)
  case (Inr cfg)
  then have dir: "cf_CacheDir cfg = dir" using assms(2) by simp
  obtain v s0 where ns: "new_store (ue_mkdir env) dir s = (v, s0)" by fastforce
  have i0: "intact (snapshot_path dir) s0" using intact_new_store[OF assms(1), of "ue_mkdir env" dir] ns by simp
  show ?thesis
  proof (cases v)
    case (Inr st)
    obtain e s1 where sw: "sweep_orphans (tmp_dir st) age listing s0 = (e, s1)" by fastforce
    have i1: "intact (snapshot_path dir) s1"
      using intact_kept[OF i0 sweep_kept[OF intact_lone[OF i0]], of "tmp_dir st" age listing] sw by simp
    define up where "up \<longleftrightarrow> \<not> skip \<and> stat (parsed_path st parsed_snapshot_name) \<and> fs_read (parsed_path st parsed_snapshot_name) s1 = None"
    obtain r s2 n2 where u: "update_db sha http env cfg [] (s1, n) = (r, s2, n2)" using prod_cases3 by blast
    have "intact (snapshot_path dir) s2" using u intact_update[OF i1 dir assms(3), of sha http "[]" n] by simp
    then show ?thesis
      using \<open>config = Inr cfg\<close> Inr ns dir sw i1 u
      by (cases up; cases e; cases r; cases "args = []"; cases "exec_follow_up self args")
        (simp_all add: bootstrap_cmd_def Let_def up_def[symmetric])
  qed (use Inr ns dir i0 in \<open>simp add: bootstrap_cmd_def\<close>)
qed (simp add: bootstrap_cmd_def assms)

lemma intact_cache_info: "intact p s \<Longrightarrow> intact p (snd (cache_info_cmd mk ok now cfg s))"
  using intact_new_store[of p s mk "cf_CacheDir cfg"]
  by (cases "new_store mk (cf_CacheDir cfg) s") (simp add: cache_info_cmd_def split: sum.split option.split)

lemma intact_cache_clear: "intact p s \<Longrightarrow> intact p (snd (cache_clear_cmd rm mk cfg s))"
  using intact_kept[OF _ clear_dirs_kept[OF intact_lone], of p s rm mk "cf_CacheDir cfg"]
  by (simp add: cache_clear_cmd_def cache_clear_def split_beta del: clear_dirs.simps)

lemma intact_bench: "intact p s \<Longrightarrow> intact p (snd (bench_cmd mk stat cfg us s))"
  using intact_open[of p s mk stat True True cfg]
  by (cases "open_snapshot mk stat True True cfg s") (simp add: bench_cmd_def split: sum.split)

lemma intact_invoke:
  assumes "intact (snapshot_path dir) s" and "over_dir dir i" and "uncut i"
  shows "intact (snapshot_path dir) (snd (invoke i s))"
proof -
  let ?a = "in_env i" and ?c = "invoked_config i"
  have o: "cf_CacheDir cfg = dir" if "?c = Inr cfg" for cfg using assms(2) that by (simp add: over_dir_def)
  have u: "ue_write (ap_update ?a) \<in> {OpenFails, WriteOk}" using assms(3) by (simp add: uncut_def)
  note c = invoked_config_def[of i, symmetric]
  note defs = invoke_def run_command_def Let_def c
  show ?thesis
  proof (cases "in_command i")
    case (CmdCheck fl)
    obtain r s1 w1 where r: "check_cmd (ap_deps ?a) (ap_env ?a) (ap_stat ?a) (ap_read ?a) (ap_host ?a) ?c fl s (in_world i) = (r, s1, w1)"
      using prod_cases3 by blast
    have "intact (snapshot_path dir) s1"
      using intact_check[OF assms(1), of "ap_deps ?a" "ap_env ?a" "ap_stat ?a" "ap_read ?a" "ap_host ?a" ?c fl "in_world i"] r by simp
    then show ?thesis using CmdCheck r by (cases r) (simp_all add: defs)
  next
    case (CmdUpdateDB source)
    then show ?thesis
      using intact_update[OF assms(1) o u, of _ "dp_sha (ap_deps ?a)" "dp_http (ap_deps ?a)" source "in_world i"] assms(1)
      by (auto simp: defs split: prod.split sum.split)
  next
    case CmdCacheInfo
    then show ?thesis using assms(1) intact_cache_info[OF assms(1)] by (cases ?c) (simp_all add: defs)
  next
    case CmdCacheClear
    then show ?thesis using assms(1) intact_cache_clear[OF assms(1)] by (cases ?c) (simp_all add: defs)
  next
    case (CmdBench us)
    then show ?thesis using assms(1) intact_bench[OF assms(1)] by (cases ?c) (simp_all add: defs)
  next
    case (CmdServe listen rate)
    obtain r s1 where r: "serve_cmd (ap_deps ?a) (ap_host ?a) (ap_stat ?a) (ap_readmeta ?a) (ap_fsat ?a) ?c listen rate
        (ap_bucket ?a) (ap_allow ?a) (ap_prom ?a) (ap_jsonerr ?a) s = (r, s1)" by fastforce
    have "intact (snapshot_path dir) s1"
      using intact_serve[OF assms(1), of "ap_deps ?a" "ap_host ?a" "ap_stat ?a" "ap_readmeta ?a" "ap_fsat ?a" ?c listen rate
          "ap_bucket ?a" "ap_allow ?a" "ap_prom ?a" "ap_jsonerr ?a"] r by simp
    then show ?thesis using CmdServe r by (cases r) (simp_all add: defs)
  next
    case (CmdHealthcheck addr timeout)
    then show ?thesis using assms(1) by (simp add: defs split: prod.split)
  next
    case (CmdBootstrap age skip args)
    obtain r s1 w1 where r: "bootstrap_cmd (dp_sha (ap_deps ?a)) (dp_http (ap_deps ?a)) (ap_update ?a) (ap_stat ?a) (ap_self ?a) ?c
        age skip args (ap_listing ?a) (s, in_world i) = (r, s1, w1)" using prod_cases3 by blast
    have "intact (snapshot_path dir) s1"
      using intact_bootstrap[OF assms(1) assms(2)[unfolded over_dir_def] u, of "dp_sha (ap_deps ?a)" "dp_http (ap_deps ?a)" "ap_stat ?a"
          "ap_self ?a" age skip args "ap_listing ?a" "in_world i"] r by simp
    then show ?thesis using CmdBootstrap r
      by (cases r; cases "projr r") (simp_all add: defs)
  next
    case CmdVersion
    then show ?thesis using assms(1) by (simp add: defs)
  qed
qed

lemma intact_session:
  "intact (snapshot_path dir) s \<Longrightarrow> set is \<subseteq> {i. over_dir dir i \<and> uncut i} \<Longrightarrow> intact (snapshot_path dir) (snd (run_session is s))"
  by (induction "is" arbitrary: s) (use intact_invoke in \<open>force simp: split_beta\<close>)+

section \<open>Properties\<close>

text \<open>
  C14: The snapshot over the life of a cache directory: after any sequence of commands, whatever fails in them
  short of a write of the snapshot that is cut off half-way, the snapshot file is absent or is the complete
  snapshot of a database that \<open>Build\<close> made from a registry file, and in the second case the next command
  opens exactly that database (up to 2^32 records).  The downloads, the sweep and the clearing of the cache never damage it.
\<close>

theorem session_keeps_snapshot:
  assumes "run_session is s = (rs, s')" and "lone (snapshot_path dir) s" and "fs_read (snapshot_path dir) s = None"
    and "set is \<subseteq> {i. over_dir dir i \<and> uncut i}" and "dir \<noteq> []" and "cf_CacheDir cfg = dir"
  shows "fs_read (snapshot_path dir) s' = None \<or>
    (\<exists>data db. build data = Inr db \<and> fs_read (snapshot_path dir) s' = Some (snapshot db zero_sha) \<and>
      (2 ^ 32 \<le> length (built_records data) \<or>
       (\<exists>v. fst (open_snapshot (\<lambda>_. True) (\<lambda>_. True) True True cfg s') = Inr v \<and> sv_DB v = db)))"
proof -
  have "intact (snapshot_path dir) s'" using intact_session[OF _ assms(4), of s] assms(1-3) by (simp add: intact_def)
  then have "fs_read (snapshot_path dir) s' = None \<or>
    (\<exists>data db. build data = Inr db \<and> fs_read (snapshot_path dir) s' = Some (snapshot db zero_sha))"
    by (auto simp: intact_def split: option.splits)
  moreover have "\<exists>v. fst (open_snapshot (\<lambda>_. True) (\<lambda>_. True) True True cfg s') = Inr v \<and> sv_DB v = db"
    if "build data = Inr db" "fs_read (snapshot_path dir) s' = Some (snapshot db zero_sha)" "length (built_records data) < 2 ^ 32" for data db
    using open_snapshot_file[of cfg s' "snapshot db zero_sha"] load_written[OF built_fits[OF that(1,3)]] that(2) assms(5,6) by simp
  ultimately show ?thesis by (meson not_less)
qed

text \<open>
  What the invariant leaves out: \<open>bootstrap\<close> asks only whether the snapshot file exists.  One that was cut off
  stays as it is, and the next \<open>check\<close> refuses it again.
\<close>

lemma sweep_reads:
  assumes "dir \<noteq> []" and "set (map fst es) \<subseteq> {n. plain_name n \<and> n \<noteq> parsed_snapshot_name}"
  shows "fs_read (snapshot_path dir) (sweep_orphan_entries (tmp_dir \<lparr>st_dir = dir\<rparr>) cutoff es s) = fs_read (snapshot_path dir) s"
  using assms(2)
proof (induction "tmp_dir \<lparr>st_dir = dir\<rparr>" cutoff es s rule: sweep_orphan_entries.induct)
  case (2 cutoff name info rm es s)
  let ?q = "path_join [tmp_dir \<lparr>st_dir = dir\<rparr>, name]"
  have "after_last CHR ''/'' ?q = name" using 2(3) assms(1) by (intro path_join_last tmp_dir_not_Nil) (simp_all add: plain_store_def)
  then have q: "?q \<noteq> snapshot_path dir" using snapshot_path_last[OF assms(1)] 2(3) by auto
  show ?case
  proof (cases "fs_entry s ?q")
    case (Some i)
    then show ?thesis using 2(2)[OF refl Some] 2(3) q by (simp add: Let_def fs_read_remove)
  qed (use 2 in \<open>simp add: Let_def\<close>)
qed simp

theorem bootstrap_keeps_cut_snapshot:
  assumes "fits db" and "dir \<noteq> []" and "k < length (snapshot db zero_sha)"
    and "fs_read (snapshot_path dir) s = Some (take k (snapshot db zero_sha))" and "cf_CacheDir cfg = dir"
    and "bootstrap_cmd sha http env stat self (Inr cfg) age skip [] (Inr es) (s, n) = (r, s', n')"
    and "set (map fst es) \<subseteq> {n. plain_name n \<and> n \<noteq> parsed_snapshot_name}" and "ue_mkdir env = (\<lambda>_. True)"
  shows "r = Inr None \<and> (\<exists>e. fst (open_snapshot (\<lambda>_. True) (\<lambda>_. True) True True cfg s') = Inl (CliLoad (ParseFailed e)))"
proof -
  obtain s0 where ns: "new_store (ue_mkdir env) dir s = (Inr \<lparr>st_dir = dir\<rparr>, s0)"
    using new_store_ok[OF assms(2), of s] assms(8) by (metis prod.collapse)
  let ?s1 = "sweep_orphan_entries (tmp_dir \<lparr>st_dir = dir\<rparr>) (fs_now s0 - age) es s0"
  have "fs_read (snapshot_path dir) s0 = fs_read (snapshot_path dir) s"
    using new_store_read[of "snapshot_path dir" "ue_mkdir env" dir s] ns by simp
  then have f: "fs_read (snapshot_path dir) ?s1 = Some (take k (snapshot db zero_sha))"
    using sweep_reads[OF assms(2,7)] assms(4) by simp
  then have "r = Inr None" "s' = ?s1" using assms(5,6) ns by (simp_all add: bootstrap_cmd_def sweep_orphans_def Let_def)
  moreover obtain e where "load_snapshot (take k (snapshot db zero_sha)) zero_sha = Inl e"
    using load_snapshot_cut[OF zero_sha_length assms(1), of "take k (snapshot db zero_sha)" "drop k (snapshot db zero_sha)"] assms(3)
    by auto
  ultimately show ?thesis using open_snapshot_file[of cfg ?s1] f assms(2,5) by simp
qed

section \<open>A concrete session\<close>

definition sample_app :: "((string \<times> cache_entry) list, unit, unit) app_env" where
  "sample_app = \<lparr>ap_deps = sample_deps\<lparr>dp_http := nro_http\<rparr>, ap_env = (\<lambda>_. []), ap_stat = (\<lambda>_. True), ap_read = (\<lambda>_. None),
     ap_yaml = (\<lambda>_ _. None), ap_config = (\<lambda>_. FileMissing), ap_host = no_psl, ap_update = sample_update, ap_readmeta = True,
     ap_remove = (\<lambda>_. True), ap_self = None, ap_listing = Inr [], ap_fsat = (\<lambda>_. empty_fs), ap_bucket = (\<lambda>_ _. ()),
     ap_allow = (\<lambda>_ b. (True, b)), ap_prom = (\<lambda>_. []), ap_jsonerr = (\<lambda>_. []), ap_event = ContextDone, ap_shutdown = True,
     ap_version = (''dev'', ''unknown'', ''unknown'')\<rparr>"

definition sample_invocation :: "command \<Rightarrow> ((string \<times> cache_entry) list, unit, unit) invocation" where
  "sample_invocation cmd = \<lparr>in_env = sample_app, in_config = [], in_dir = ''/c'', in_command = cmd, in_world = idle_world\<rparr>"

lemma sample_invoked_config: "invoked_config (sample_invocation cmd) = Inr sample_cfg"
proof -
  have "apply_env (\<lambda>_. []) default_config = default_config" by code_simp
  then show ?thesis
    by (simp add: invoked_config_def sample_invocation_def sample_app_def cli_load_config_def load_config_def sample_cfg_def Let_def)
qed

lemma sample_fits_session: "sample_invocation cmd \<in> {i. over_dir ''/c'' i \<and> uncut i}"
  by (simp add: over_dir_def sample_invoked_config sample_cfg_def)
    (simp add: uncut_def sample_invocation_def sample_app_def sample_update_def)

lemma sample_update_invoked:
  "\<exists>db s1. invoke (sample_invocation (CmdUpdateDB [])) empty_fs = (Inr (PrintUpdated db), s1) \<and>
    fs_read (snapshot_path ''/c'') s1 = Some (snapshot db zero_sha)"
proof -
  obtain db s1 where u: "update_db id nro_http sample_update sample_cfg [] (empty_fs, idle_world) = (Inr db, s1, idle_world)"
    using sample_update_runs[of idle_world] by blast
  obtain st s2 s3 where w: "new_store (ue_mkdir sample_update) (cf_CacheDir sample_cfg) empty_fs = (Inr st, s2)"
    "write_parsed sample_update st db s3 = (Inr db, s1)" using update_db_steps[OF u] by metis
  then have "st = \<lparr>st_dir = ''/c''\<rparr>" using new_store_result[of "ue_mkdir sample_update" "cf_CacheDir sample_cfg" empty_fs st] by (simp add: sample_cfg_def)
  then have "fs_read (snapshot_path ''/c'') s1 = Some (snapshot db zero_sha)" using write_parsed_ok[OF w(2)] by simp
  moreover have "invoke (sample_invocation (CmdUpdateDB [])) empty_fs = (Inr (PrintUpdated db), s1)"
    using sample_invoked_config[of "CmdUpdateDB []"] u
    by (simp add: invoke_def run_command_def Let_def invoked_config_def sample_invocation_def sample_app_def sample_deps_def)
  ultimately show ?thesis by blast
qed

theorem session_keeps_snapshot_witness:
  "\<exists>rs s' data db. run_session [sample_invocation (CmdUpdateDB []), sample_invocation CmdVersion] empty_fs = (rs, s') \<and>
    length rs = 2 \<and> build data = Inr db \<and> fs_read (snapshot_path ''/c'') s' = Some (snapshot db zero_sha)"
proof -
  obtain db s1 where u: "invoke (sample_invocation (CmdUpdateDB [])) empty_fs = (Inr (PrintUpdated db), s1)"
    "fs_read (snapshot_path ''/c'') s1 = Some (snapshot db zero_sha)" using sample_update_invoked by blast
  have v: "invoke (sample_invocation CmdVersion) s1 = (Inr (PrintVersion (version_text (''dev'', ''unknown'', ''unknown''))), s1)"
    by (simp add: invoke_def run_command_def Let_def sample_invocation_def sample_app_def)
  have run: "run_session [sample_invocation (CmdUpdateDB []), sample_invocation CmdVersion] empty_fs =
      ([Inr (PrintUpdated db), Inr (PrintVersion (version_text (''dev'', ''unknown'', ''unknown'')))], s1)"
    using u(1) v by simp
  have "fs_wf empty_fs" by (rule fs_wfI) (auto simp: empty_fs_def entries_def)
  then have "lone (snapshot_path ''/c'') empty_fs" by (simp add: lone_def empty_fs_def)
  moreover have "fs_read (snapshot_path ''/c'') empty_fs = None" by (simp add: fs_read_def empty_fs_def)
  moreover have "set [sample_invocation (CmdUpdateDB []), sample_invocation CmdVersion] \<subseteq> {i. over_dir ''/c'' i \<and> uncut i}"
    using sample_fits_session by simp
  ultimately show ?thesis
    using session_keeps_snapshot[OF run _ _ _ _ refl[of "cf_CacheDir sample_cfg"]] u(2) run
    by (auto simp: sample_cfg_def)
qed

end
